(* ===== verification/Prelude.thy ===== *)
theory Prelude
  imports Main "HOL-Library.Word" "HOL-Library.Monad_Syntax" "HOL-Library.Sublist"
begin

text \<open>
  Shared vocabulary of the development: the machine integers of the source, Rust's panics as a
  value, bounds-checked reads and writes of byte buffers, big-endian integers, and the generic
  list lemmas that the component theories use.

  A Rust expression that can panic (an index or a slice out of range) has the type
  \<open>'a exec\<close>, which is \<open>'a option\<close> with \<open>None\<close> for the panic, so that the \<open>do\<close> notation of
  the option monad sequences such expressions.  A Rust function that returns
  \<open>Option<T>\<close> then has the type \<open>'a option exec\<close>.
\<close>

unbundle bit_operations_syntax

section \<open>Automation\<close>

named_theorems be_simps \<open>big-endian integers and bounds-checked buffer access\<close>
named_theorems no_panic \<open>an operation returns a value on every input\<close>

section \<open>Machine integers and panics\<close>

type_synonym u8 = "8 word"
type_synonym u16 = "16 word"
type_synonym u32 = "32 word"
type_synonym bytes = "u8 list"
type_synonym 'a exec = "'a option"

text \<open>Rust's \<open>?\<close> on an \<open>Option\<close>: \<open>None\<close> leaves the function with \<open>None\<close>.\<close>

definition try_opt :: "'a option exec \<Rightarrow> ('a \<Rightarrow> 'b option exec) \<Rightarrow> 'b option exec" where
  "try_opt m f = do { r \<leftarrow> m; case r of None \<Rightarrow> Some None | Some x \<Rightarrow> f x }"

lemma try_opt_simps [simp]:
  "try_opt None f = None"
  "try_opt (Some None) f = Some None"
  "try_opt (Some (Some x)) f = f x"
  by (simp_all add: try_opt_def)

lemma try_opt_cong [fundef_cong]:
  assumes "m = m'" and "\<And>x. m' = Some (Some x) \<Longrightarrow> f x = g x"
  shows "try_opt m f = try_opt m' g"
  using assms by (cases m') (auto simp: try_opt_def split: option.splits)

text \<open>\<open>runs m\<close>: the expression \<open>m\<close> does not panic.\<close>

definition runs :: "'a exec \<Rightarrow> bool" where
  "runs m \<longleftrightarrow> m \<noteq> None"

lemma runs_simps [simp]: "runs (Some x)" "\<not> runs None"
  by (simp_all add: runs_def)

lemma runsE: assumes "runs m" obtains x where "m = Some x"
  using assms by (auto simp: runs_def)

lemma try_opt_no_panic [no_panic]:
  assumes "runs m" and "\<And>x. m = Some (Some x) \<Longrightarrow> runs (f x)"
  shows "runs (try_opt m f)"
  using assms by (auto simp: try_opt_def elim!: runsE split: option.splits)

lemma bind_no_panic [no_panic]:
  assumes "runs m" and "\<And>x. m = Some x \<Longrightarrow> runs (f x)"
  shows "runs (m \<bind> f)"
  using assms by (auto elim!: runsE)

lemma if_no_panic [no_panic]:
  "(b \<Longrightarrow> runs m) \<Longrightarrow> (\<not> b \<Longrightarrow> runs n) \<Longrightarrow> runs (if b then m else n)"
  by simp

lemma case_option_no_panic [no_panic]:
  "(r = None \<Longrightarrow> runs m) \<Longrightarrow> (\<And>x. r = Some x \<Longrightarrow> runs (f x)) \<Longrightarrow>
     runs (case r of None \<Rightarrow> m | Some x \<Rightarrow> f x)"
  by (cases r) simp_all

section \<open>Bounds-checked buffers\<close>

text \<open>\<open>xs[i]\<close>, \<open>&xs[i..j]\<close> and \<open>xs[i..i+n].copy_from_slice(ys)\<close>.\<close>

definition idx :: "'a list \<Rightarrow> nat \<Rightarrow> 'a exec" where
  "idx xs i = (if i < length xs then Some (xs ! i) else None)"

definition slice :: "'a list \<Rightarrow> nat \<Rightarrow> nat \<Rightarrow> 'a list exec" where
  "slice xs i j = (if i \<le> j \<and> j \<le> length xs then Some (take (j - i) (drop i xs)) else None)"

definition overwrite :: "'a list \<Rightarrow> nat \<Rightarrow> 'a list \<Rightarrow> 'a list exec" where
  "overwrite xs i ys =
     (if i + length ys \<le> length xs then Some (take i xs @ ys @ drop (i + length ys) xs) else None)"

lemma idx_in [simp]: "i < length xs \<Longrightarrow> idx xs i = Some (xs ! i)"
  by (simp add: idx_def)

lemma idx_no_panic [no_panic]: "i < length xs \<Longrightarrow> runs (idx xs i)"
  by simp

lemma slice_no_panic [no_panic]: "i \<le> j \<Longrightarrow> j \<le> length xs \<Longrightarrow> runs (slice xs i j)"
  by (simp add: slice_def)

lemma slice_in [simp]:
  "i \<le> j \<Longrightarrow> j \<le> length xs \<Longrightarrow> slice xs i j = Some (take (j - i) (drop i xs))"
  by (simp add: slice_def)

lemma slice_append [simp]: "slice (xs @ ys @ zs) (length xs) (length xs + length ys) = Some ys"
  by (simp add: slice_def)

lemma overwrite_length: "overwrite xs i ys = Some zs \<Longrightarrow> length zs = length xs"
  by (auto simp: overwrite_def split: if_splits)

lemma overwrite_append:
  "length ys = length ys' \<Longrightarrow> overwrite (xs @ ys @ zs) (length xs) ys' = Some (xs @ ys' @ zs)"
  by (simp add: overwrite_def)

lemma overwrite_no_panic [no_panic]: "i + length ys \<le> length xs \<Longrightarrow> runs (overwrite xs i ys)"
  by (simp add: overwrite_def)

text \<open>Subtraction of \<open>usize\<close> values panics on underflow.\<close>

definition usize_sub :: "nat \<Rightarrow> nat \<Rightarrow> nat exec" where
  "usize_sub a b = (if b \<le> a then Some (a - b) else None)"

lemma usize_sub_in [simp]: "b \<le> a \<Longrightarrow> usize_sub a b = Some (a - b)"
  by (simp add: usize_sub_def)

lemma usize_sub_no_panic [no_panic]: "b \<le> a \<Longrightarrow> runs (usize_sub a b)"
  by simp

section \<open>Big-endian integers\<close>

definition u16_be :: "u8 \<Rightarrow> u8 \<Rightarrow> u16" where
  "u16_be a b = of_nat (unat a * 256 + unat b)"

definition u32_be :: "u8 \<Rightarrow> u8 \<Rightarrow> u8 \<Rightarrow> u8 \<Rightarrow> u32" where
  "u32_be a b c d = of_nat (((unat a * 256 + unat b) * 256 + unat c) * 256 + unat d)"

definition be16 :: "u16 \<Rightarrow> bytes" where
  "be16 w = [of_nat (unat w div 256), of_nat (unat w mod 256)]"

definition be32 :: "u32 \<Rightarrow> bytes" where
  "be32 w = [of_nat (unat w div 16777216), of_nat (unat w div 65536 mod 256),
             of_nat (unat w div 256 mod 256), of_nat (unat w mod 256)]"

text \<open>\<open>u16::from_be_bytes([p[i], p[i + 1]])\<close> and its 32-bit sibling.\<close>

definition rd16 :: "bytes \<Rightarrow> nat \<Rightarrow> u16 exec" where
  "rd16 p i = do { a \<leftarrow> idx p i; b \<leftarrow> idx p (i + 1); Some (u16_be a b) }"

definition rd32 :: "bytes \<Rightarrow> nat \<Rightarrow> u32 exec" where
  "rd32 p i = do { a \<leftarrow> idx p i; b \<leftarrow> idx p (i + 1); c \<leftarrow> idx p (i + 2); d \<leftarrow> idx p (i + 3);
                   Some (u32_be a b c d) }"

lemma unat_u8_less [simp]: "unat (b :: u8) < 256"
  using unsigned_less [of b, where ?'a = nat] by simp

lemma unat_u16_less [simp]: "unat (w :: u16) < 65536"
  using unsigned_less [of w, where ?'a = nat] by simp

lemma unat_u32_less [simp]: "unat (w :: u32) < 4294967296"
  using unsigned_less [of w, where ?'a = nat] by simp

lemma unat_of_nat_u8: "unat (of_nat n :: u8) = n mod 256"
  by (simp add: unat_of_nat)

lemma unat_of_nat_u16: "unat (of_nat n :: u16) = n mod 65536"
  by (simp add: unat_of_nat)

lemma unat_of_nat_u32: "unat (of_nat n :: u32) = n mod 4294967296"
  by (simp add: unat_of_nat)

lemma length_be16 [simp, be_simps]: "length (be16 w) = 2"
  by (simp add: be16_def)

lemma length_be32 [simp, be_simps]: "length (be32 w) = 4"
  by (simp add: be32_def)

lemma two_digits: "(n :: nat) < 65536 \<Longrightarrow> n div 256 mod 256 * 256 + n mod 256 = n"
  by (simp add: div_less_iff_less_mult)

lemma four_digits:
  assumes "(n :: nat) < 4294967296"
  shows "((n div 16777216 mod 256 * 256 + n div 65536 mod 256) * 256 + n div 256 mod 256) * 256
           + n mod 256 = n"
proof -
  have "n div 16777216 mod 256 = n div 16777216"
    using assms by (simp add: div_less_iff_less_mult)
  moreover have "n div 16777216 = n div 65536 div 256" "n div 65536 = n div 256 div 256"
    by (simp_all add: div_mult2_eq [symmetric])
  ultimately show ?thesis by (metis div_mod_decomp)
qed

lemma u16_be_be16:
  "u16_be (of_nat (unat w div 256)) (of_nat (unat w mod 256)) = w"
  using two_digits [OF unat_u16_less [of w]] by (simp add: u16_be_def unat_of_nat_u8)

lemma be16_cases: obtains a b where "be16 w = [a, b]" "u16_be a b = w"
  using u16_be_be16 [of w] by (simp add: be16_def)

lemma unat_u16_be: "unat (u16_be a b) = unat a * 256 + unat b"
proof -
  have "unat a * 256 + unat b < 65536"
    using unat_u8_less [of a] unat_u8_less [of b] by presburger
  then show ?thesis unfolding u16_be_def unat_of_nat_u16 by simp
qed

lemma be16_u16_be [simp]: "be16 (u16_be a b) = [a, b]"
  by (simp add: be16_def unat_u16_be)

lemma be16_inj [simp]: "be16 v = be16 w \<longleftrightarrow> v = w"
  by (metis be16_cases list.inject)

lemma take_drop_be16 [simp]: "take 2 (be16 w @ xs) = be16 w" "drop 2 (be16 w @ xs) = xs"
  by (simp_all add: be16_def)

lemma u32_be_be32:
  "u32_be (of_nat (unat w div 16777216)) (of_nat (unat w div 65536 mod 256))
          (of_nat (unat w div 256 mod 256)) (of_nat (unat w mod 256)) = w"
  unfolding u32_be_def unat_of_nat_u8 mod_mod_trivial four_digits [OF unat_u32_less [of w]]
  by simp

lemma nth_append_2 [simp]: "(xs @ a # b # ys) ! Suc (length xs) = b"
  by (simp add: nth_append)

lemma nth_append_3: "(xs @ a # b # c # ys) ! Suc (Suc (length xs)) = c"
  by (simp add: nth_append)

lemma nth_append_4: "(xs @ a # b # c # d # ys) ! Suc (Suc (Suc (length xs))) = d"
  by (simp add: nth_append)

lemma rd16_append [be_simps]: "i = length xs \<Longrightarrow> rd16 (xs @ be16 w @ ys) i = Some w"
  by (simp add: rd16_def be16_def u16_be_be16 nth_append)

lemma rd32_append [be_simps]: "i = length xs \<Longrightarrow> rd32 (xs @ be32 w @ ys) i = Some w"
  using u32_be_be32 [of w]
  by (simp add: rd32_def be32_def nth_append numeral_3_eq_3 numeral_2_eq_2)

lemma rd16_take: "i + 2 \<le> length (take n xs) \<Longrightarrow> rd16 (take n xs) i = rd16 xs i"
  by (simp add: rd16_def)

lemma rd16_no_panic [no_panic]: "i + 2 \<le> length p \<Longrightarrow> runs (rd16 p i)"
  by (simp add: rd16_def)

lemma rd32_no_panic [no_panic]: "i + 4 \<le> length p \<Longrightarrow> runs (rd32 p i)"
  by (simp add: rd32_def)

end
