(* ===== verification/Rust_Str.thy ===== *)
theory Rust_Str
  imports Prelude
begin

text \<open>
  Rust's strings.  A \<open>String\<close> or \<open>&str\<close> is modelled by HOL's \<open>string\<close> whose characters are the
  bytes of its UTF-8 encoding, so that \<open>len()\<close> is \<open>length\<close>, \<open>as_bytes()\<close> is \<open>bytes_of\<close> and the
  byte positions of the source are list positions.
\<close>

section \<open>Bytes and strings\<close>

definition bytes_of :: "string \<Rightarrow> bytes" where
  "bytes_of s = map (\<lambda>c. of_nat (of_char c)) s"

definition str_of :: "bytes \<Rightarrow> string" where
  "str_of bs = map (\<lambda>b. char_of (unat b)) bs"

lemma bytes_of_str_of [simp]: "bytes_of (str_of bs) = bs"
proof -
  have "word_of_nat (of_char (char_of (unat b) :: char)) = b" for b :: u8
    using unat_u8_less [of b] by (simp add: of_char_of)
  then show ?thesis by (simp add: bytes_of_def str_of_def comp_def)
qed

lemma str_of_bytes_of [simp]: "str_of (bytes_of s) = s"
proof -
  have "char_of (unat (word_of_nat (of_char c) :: u8)) = c" for c
    by (simp add: unat_of_nat_u8)
  then show ?thesis by (simp add: bytes_of_def str_of_def comp_def)
qed

lemma length_bytes_of [simp]: "length (bytes_of s) = length s"
  by (simp add: bytes_of_def)

lemma length_str_of [simp]: "length (str_of bs) = length bs"
  by (simp add: str_of_def)

lemma bytes_of_append [simp]: "bytes_of (s @ t) = bytes_of s @ bytes_of t"
  by (simp add: bytes_of_def)

lemma bytes_of_inj [simp]: "bytes_of s = bytes_of t \<longleftrightarrow> s = t"
  by (metis str_of_bytes_of)

section \<open>UTF-8 validation\<close>

definition utf8_cont :: "u8 \<Rightarrow> bool" where
  "utf8_cont b \<longleftrightarrow> 0x80 \<le> b \<and> b \<le> 0xBF"

text \<open>\<open>core::str::from_utf8\<close>: no overlong forms, no surrogates, nothing above U+10FFFF.\<close>

fun utf8_ok :: "bytes \<Rightarrow> bool" where
  "utf8_ok [] = True"
| "utf8_ok (a # bs) =
     (if a < 0x80 then utf8_ok bs
      else case bs of [] \<Rightarrow> False | b # cs \<Rightarrow>
        if 0xC2 \<le> a \<and> a \<le> 0xDF then utf8_cont b \<and> utf8_ok cs
        else case cs of [] \<Rightarrow> False | c # ds \<Rightarrow>
          if 0xE0 \<le> a \<and> a \<le> 0xEF then
            (if a = 0xE0 then 0xA0 \<le> b \<and> b \<le> 0xBF
             else if a = 0xED then 0x80 \<le> b \<and> b \<le> 0x9F
             else utf8_cont b) \<and> utf8_cont c \<and> utf8_ok ds
          else case ds of [] \<Rightarrow> False | d # es \<Rightarrow>
            0xF0 \<le> a \<and> a \<le> 0xF4 \<and>
            (if a = 0xF0 then 0x90 \<le> b \<and> b \<le> 0xBF
             else if a = 0xF4 then 0x80 \<le> b \<and> b \<le> 0x8F
             else utf8_cont b) \<and> utf8_cont c \<and> utf8_cont d \<and> utf8_ok es)"

definition from_utf8 :: "bytes \<Rightarrow> string option" where
  "from_utf8 bs = (if utf8_ok bs then Some (str_of bs) else None)"

lemma utf8_ok_ascii: "(\<forall>b \<in> set bs. b < 0x80) \<Longrightarrow> utf8_ok bs"
  by (induction bs) auto

lemma from_utf8_ascii: "(\<forall>b \<in> set bs. b < 0x80) \<Longrightarrow> from_utf8 bs = Some (str_of bs)"
  by (simp add: from_utf8_def utf8_ok_ascii)

lemma from_utf8_bytes: "from_utf8 bs = Some s \<Longrightarrow> bytes_of s = bs"
  by (auto simp: from_utf8_def split: if_splits)

section \<open>Joining\<close>

text \<open>\<open>[&str]::join(sep)\<close>\<close>

fun join :: "string \<Rightarrow> string list \<Rightarrow> string" where
  "join sep [] = []"
| "join sep [x] = x"
| "join sep (x # y # xs) = x @ sep @ join sep (y # xs)"

lemma join_Cons: "join sep (x # xs) = (if xs = [] then x else x @ sep @ join sep xs)"
  by (cases xs) auto

text \<open>\<open>str::eq_ignore_ascii_case\<close>\<close>

definition ascii_lower :: "char \<Rightarrow> char" where
  "ascii_lower c = (let n = of_char c :: nat in if 65 \<le> n \<and> n \<le> 90 then char_of (n + 32) else c)"

definition eq_ignore_ascii_case :: "string \<Rightarrow> string \<Rightarrow> bool" where
  "eq_ignore_ascii_case s t \<longleftrightarrow> map ascii_lower s = map ascii_lower t"

lemma eq_ignore_ascii_case_equiv:
  "eq_ignore_ascii_case s s"
  "eq_ignore_ascii_case s t \<Longrightarrow> eq_ignore_ascii_case t s"
  "eq_ignore_ascii_case s t \<Longrightarrow> eq_ignore_ascii_case t u \<Longrightarrow> eq_ignore_ascii_case s u"
  by (simp_all add: eq_ignore_ascii_case_def)

end
