(* ===== verification/Net_Addr.thy ===== *)
theory Net_Addr
  imports Rust_Str
begin

text \<open>
  The address types of Rust's \<open>std::net\<close> as the source uses them.  An \<open>Ipv4Addr\<close> is its four
  octets, an \<open>Ipv6Addr\<close> its eight segments; a V6 socket address also carries its flow label and
  scope id, which take part in equality.
\<close>

datatype ipv4 = Ipv4 u8 u8 u8 u8
datatype ipv6 = Ipv6 u16 u16 u16 u16 u16 u16 u16 u16
datatype ip_addr = IpV4 ipv4 | IpV6 ipv6
datatype socket_addr = SockV4 ipv4 u16 | SockV6 ipv6 u16 u32 u32

fun octets4 :: "ipv4 \<Rightarrow> bytes" where
  "octets4 (Ipv4 a b c d) = [a, b, c, d]"

fun octets6 :: "ipv6 \<Rightarrow> bytes" where
  "octets6 (Ipv6 a b c d e f g h) =
     be16 a @ be16 b @ be16 c @ be16 d @ be16 e @ be16 f @ be16 g @ be16 h"

text \<open>\<open>Ipv6Addr::from([u8; 16])\<close>; the copy into the array panics on any other length.\<close>

definition ipv6_of_octets :: "bytes \<Rightarrow> ipv6 exec" where
  "ipv6_of_octets p =
     (if length p = 16 then
        do { a \<leftarrow> rd16 p 0; b \<leftarrow> rd16 p 2; c \<leftarrow> rd16 p 4; d \<leftarrow> rd16 p 6;
             e \<leftarrow> rd16 p 8; f \<leftarrow> rd16 p 10; g \<leftarrow> rd16 p 12; h \<leftarrow> rd16 p 14;
             Some (Ipv6 a b c d e f g h) }
      else None)"

fun ip_octets :: "ip_addr \<Rightarrow> bytes" where
  "ip_octets (IpV4 a) = octets4 a"
| "ip_octets (IpV6 a) = octets6 a"

lemma length_octets4 [simp]: "length (octets4 a) = 4"
  by (cases a) simp

lemma length_octets6 [simp]: "length (octets6 a) = 16"
  by (cases a) simp

lemma ipv6_of_octets_octets6 [simp]: "ipv6_of_octets (octets6 a) = Some a"
proof (cases a)
  case (Ipv6 s0 s1 s2 s3 s4 s5 s6 s7)
  obtain a0 b0 a1 b1 a2 b2 a3 b3 where
    *: "be16 s0 = [a0, b0]" "u16_be a0 b0 = s0" "be16 s1 = [a1, b1]" "u16_be a1 b1 = s1"
       "be16 s2 = [a2, b2]" "u16_be a2 b2 = s2" "be16 s3 = [a3, b3]" "u16_be a3 b3 = s3"
    by (metis be16_cases)
  obtain a4 b4 a5 b5 a6 b6 a7 b7 where
    **: "be16 s4 = [a4, b4]" "u16_be a4 b4 = s4" "be16 s5 = [a5, b5]" "u16_be a5 b5 = s5"
       "be16 s6 = [a6, b6]" "u16_be a6 b6 = s6" "be16 s7 = [a7, b7]" "u16_be a7 b7 = s7"
    by (metis be16_cases)
  show ?thesis
    by (simp add: Ipv6 * ** ipv6_of_octets_def rd16_def idx_def)
qed

lemma ipv6_of_octets_no_panic [no_panic]: "length p = 16 \<Longrightarrow> runs (ipv6_of_octets p)"
  unfolding ipv6_of_octets_def by (auto intro!: no_panic)

fun sock_ip :: "socket_addr \<Rightarrow> ip_addr" where
  "sock_ip (SockV4 a _) = IpV4 a"
| "sock_ip (SockV6 a _ _ _) = IpV6 a"

fun sock_port :: "socket_addr \<Rightarrow> u16" where
  "sock_port (SockV4 _ p) = p"
| "sock_port (SockV6 _ p _ _) = p"

text \<open>\<open>SocketAddr::new(ip, port)\<close>\<close>

fun sock_new :: "ip_addr \<Rightarrow> u16 \<Rightarrow> socket_addr" where
  "sock_new (IpV4 a) p = SockV4 a p"
| "sock_new (IpV6 a) p = SockV6 a p 0 0"

fun is_ipv4 :: "socket_addr \<Rightarrow> bool" where
  "is_ipv4 (SockV4 _ _) = True"
| "is_ipv4 (SockV6 _ _ _ _) = False"

definition ipv4_unspecified :: ipv4 where "ipv4_unspecified = Ipv4 0 0 0 0"
definition ipv6_unspecified :: ipv6 where "ipv6_unspecified = Ipv6 0 0 0 0 0 0 0 0"
definition ipv4_localhost :: ipv4 where "ipv4_localhost = Ipv4 127 0 0 1"
definition ipv6_localhost :: ipv6 where "ipv6_localhost = Ipv6 0 0 0 0 0 0 0 1"

fun ip_is_unspecified :: "ip_addr \<Rightarrow> bool" where
  "ip_is_unspecified (IpV4 a) = (a = ipv4_unspecified)"
| "ip_is_unspecified (IpV6 a) = (a = ipv6_unspecified)"

fun ip_is_loopback :: "ip_addr \<Rightarrow> bool" where
  "ip_is_loopback (IpV4 (Ipv4 a _ _ _)) = (a = 127)"
| "ip_is_loopback (IpV6 a) = (a = ipv6_localhost)"

fun ipv6_segments0 :: "ipv6 \<Rightarrow> u16" where
  "ipv6_segments0 (Ipv6 a _ _ _ _ _ _ _) = a"

definition ipv6_is_multicast :: "ipv6 \<Rightarrow> bool" where
  "ipv6_is_multicast a \<longleftrightarrow> ipv6_segments0 a AND 0xff00 = 0xff00"

text \<open>\<open>Ipv6Addr::to_ipv4_mapped\<close>: the addresses \<open>::ffff:a.b.c.d\<close>.\<close>

fun to_ipv4_mapped :: "ipv6 \<Rightarrow> ipv4 option" where
  "to_ipv4_mapped (Ipv6 a b c d e f g h) =
     (if a = 0 \<and> b = 0 \<and> c = 0 \<and> d = 0 \<and> e = 0 \<and> f = 0xffff
      then Some (Ipv4 (of_nat (unat g div 256)) (of_nat (unat g mod 256))
                      (of_nat (unat h div 256)) (of_nat (unat h mod 256)))
      else None)"

lemma sock_new_port [simp]: "sock_port (sock_new ip p) = p"
  by (cases ip) simp_all

lemma sock_new_ip [simp]: "sock_ip (sock_new ip p) = ip"
  by (cases ip) simp_all

end
