(* ===== verification/Dns_Wire.thy ===== *)
theory Dns_Wire
  imports Net_Addr
begin

text \<open>
  The DNS wire-format routines of \<^verbatim>\<open>src/src/dns.rs\<close>: the name skipper, the three record
  walks (addresses, minimum TTL, TTL rewriting), the question parsers, the answerless response
  builder and the cache key.  Every read of the packet is bounds-checked: a \<open>None\<close> at the outer
  level of a result is an index panic of the Rust code.
\<close>

definition DNS_TYPE_A :: u16 where "DNS_TYPE_A = 1"
definition DNS_TYPE_AAAA :: u16 where "DNS_TYPE_AAAA = 28"
definition DNS_TYPE_OPT :: u16 where "DNS_TYPE_OPT = 41"
definition DNS_CLASS_IN :: u16 where "DNS_CLASS_IN = 1"

section \<open>Names and questions\<close>

function skip_dns_name :: "bytes \<Rightarrow> nat \<Rightarrow> nat option exec" where
  "skip_dns_name packet pos =
     (if length packet \<le> pos then Some None
      else do {
        b \<leftarrow> idx packet pos;
        if b = 0 then Some (Some (pos + 1))
        else if b AND 0xC0 = 0xC0 then Some (Some (pos + 2))
        else skip_dns_name packet (pos + (1 + unat b))
      })"
  by pat_completeness auto
termination
  by (relation "measure (\<lambda>(packet, pos). length packet - pos)") auto

declare skip_dns_name.simps [simp del]

text \<open>The \<open>for _ in 0..qdcount\<close> loop that precedes every record walk.\<close>

fun skip_questions :: "nat \<Rightarrow> bytes \<Rightarrow> nat \<Rightarrow> nat option exec" where
  "skip_questions 0 packet pos = Some (Some pos)"
| "skip_questions (Suc n) packet pos =
     try_opt (skip_dns_name packet pos) (\<lambda>pos.
       if length packet < pos + 4 then Some None else skip_questions n packet (pos + 4))"

section \<open>Record walks\<close>

text \<open>The answer loop of \<open>extract_min_ttl\<close>; running out of the packet breaks out of the loop.\<close>

fun min_ttl_loop :: "nat \<Rightarrow> bytes \<Rightarrow> nat \<Rightarrow> u32 \<Rightarrow> u32 option exec" where
  "min_ttl_loop 0 packet pos min_ttl = Some (Some min_ttl)"
| "min_ttl_loop (Suc n) packet pos min_ttl =
     try_opt (skip_dns_name packet pos) (\<lambda>pos.
       if length packet < pos + 10 then Some (Some min_ttl)
       else do {
         ttl \<leftarrow> rd32 packet (pos + 4);
         rdlength \<leftarrow> rd16 packet (pos + 8);
         min_ttl_loop n packet (pos + (10 + unat rdlength)) (if ttl < min_ttl then ttl else min_ttl)
       })"

definition U32_MAX :: u32 where "U32_MAX = 0xFFFFFFFF"

definition extract_min_ttl :: "bytes \<Rightarrow> u32 option exec" where
  "extract_min_ttl packet =
     (if length packet < 12 then Some None
      else do {
        ancount \<leftarrow> rd16 packet 6;
        if ancount = 0 then Some None
        else do {
          qdcount \<leftarrow> rd16 packet 4;
          try_opt (skip_questions (unat qdcount) packet 12) (\<lambda>pos.
          try_opt (min_ttl_loop (unat ancount) packet pos U32_MAX) (\<lambda>min_ttl.
            if min_ttl = U32_MAX then Some None else Some (Some min_ttl)))
        }
      })"

text \<open>
  \<open>rewrite_ttls\<close> writes through \<open>&mut [u8]\<close>: the model returns the packet as it is left, also
  when the walk ends early, with \<open>True\<close> for \<open>Some(())\<close>.
\<close>

definition aged_ttl :: "u32 \<Rightarrow> u32 \<Rightarrow> u32" where
  "aged_ttl ttl elapsed_secs = max (if elapsed_secs \<le> ttl then ttl - elapsed_secs else 0) 1"

text \<open>The TTL update of one record whose fixed part starts at \<open>pos\<close>.\<close>

definition age_record :: "bytes \<Rightarrow> nat \<Rightarrow> u32 \<Rightarrow> bytes exec" where
  "age_record packet pos elapsed_secs = do {
     rtype \<leftarrow> rd16 packet pos;
     if rtype \<noteq> DNS_TYPE_OPT then do {
       ttl \<leftarrow> rd32 packet (pos + 4);
       overwrite packet (pos + 4) (be32 (aged_ttl ttl elapsed_secs)) }
     else Some packet }"

fun rewrite_loop :: "nat \<Rightarrow> bytes \<Rightarrow> nat \<Rightarrow> u32 \<Rightarrow> (bytes \<times> bool) exec" where
  "rewrite_loop 0 packet pos elapsed_secs = Some (packet, True)"
| "rewrite_loop (Suc n) packet pos elapsed_secs = do {
     r \<leftarrow> skip_dns_name packet pos;
     case r of None \<Rightarrow> Some (packet, False) | Some pos \<Rightarrow>
       if length packet < pos + 10 then Some (packet, False)
       else do {
         packet \<leftarrow> age_record packet pos elapsed_secs;
         rdlength \<leftarrow> rd16 packet (pos + 8);
         (if length packet < pos + (10 + unat rdlength) then Some (packet, False)
          else rewrite_loop n packet (pos + (10 + unat rdlength)) elapsed_secs)
       } }"

definition rewrite_ttls :: "bytes \<Rightarrow> u32 \<Rightarrow> (bytes \<times> bool) exec" where
  "rewrite_ttls packet elapsed_secs =
     (if length packet < 12 then Some (packet, False)
      else do {
        qdcount \<leftarrow> rd16 packet 4;
        ancount \<leftarrow> rd16 packet 6;
        nscount \<leftarrow> rd16 packet 8;
        arcount \<leftarrow> rd16 packet 10;
        q \<leftarrow> skip_questions (unat qdcount) packet 12;
        case q of None \<Rightarrow> Some (packet, False)
        | Some pos \<Rightarrow> rewrite_loop (unat ancount + unat nscount + unat arcount) packet pos elapsed_secs
      })"

text \<open>The answer loop of \<open>parse_ip_records\<close>, with the addresses pushed so far.\<close>

definition record_addr :: "bytes \<Rightarrow> nat \<Rightarrow> u16 \<Rightarrow> u16 \<Rightarrow> nat \<Rightarrow> ip_addr list exec" where
  "record_addr packet pos rtype rclass rdlength =
     (if rclass = DNS_CLASS_IN then
        (if rtype = DNS_TYPE_A \<and> rdlength = 4 then do {
           a \<leftarrow> idx packet pos; b \<leftarrow> idx packet (pos + 1);
           c \<leftarrow> idx packet (pos + 2); d \<leftarrow> idx packet (pos + 3);
           Some [IpV4 (Ipv4 a b c d)] }
         else if rtype = DNS_TYPE_AAAA \<and> rdlength = 16 then do {
           octets \<leftarrow> slice packet pos (pos + 16);
           ip \<leftarrow> ipv6_of_octets octets;
           Some [IpV6 ip] }
         else Some [])
      else Some [])"

fun ip_records_loop :: "nat \<Rightarrow> bytes \<Rightarrow> nat \<Rightarrow> ip_addr list \<Rightarrow> ip_addr list option exec" where
  "ip_records_loop 0 packet pos ips = Some (Some ips)"
| "ip_records_loop (Suc n) packet pos ips =
     try_opt (skip_dns_name packet pos) (\<lambda>pos.
       if length packet < pos + 10 then Some (Some ips)
       else do {
         rtype \<leftarrow> rd16 packet pos;
         rclass \<leftarrow> rd16 packet (pos + 2);
         rdlength \<leftarrow> rd16 packet (pos + 8);
         (if length packet < pos + 10 + unat rdlength then Some (Some ips)
          else do {
            new \<leftarrow> record_addr packet (pos + 10) rtype rclass (unat rdlength);
            ip_records_loop n packet (pos + 10 + unat rdlength) (ips @ new)
          })
       })"

definition parse_ip_records :: "bytes \<Rightarrow> ip_addr list option exec" where
  "parse_ip_records packet =
     (if length packet < 12 then Some None
      else do {
        ancount \<leftarrow> rd16 packet 6;
        if ancount = 0 then Some None
        else do {
          qdcount \<leftarrow> rd16 packet 4;
          try_opt (skip_questions (unat qdcount) packet 12) (\<lambda>pos.
          try_opt (ip_records_loop (unat ancount) packet pos []) (\<lambda>ips.
            if ips = [] then Some None else Some (Some ips)))
        }
      })"

section \<open>Answerless responses and cache keys\<close>

definition build_empty_response :: "bytes \<Rightarrow> u8 \<Rightarrow> bytes option exec" where
  "build_empty_response query rcode =
     (if length query < 12 then Some None
      else do {
        qdcount \<leftarrow> rd16 query 4;
        try_opt (skip_questions (unat qdcount) query 12) (\<lambda>pos. do {
          resp \<leftarrow> slice query 0 12;
          flags \<leftarrow> idx query 2;
          resp \<leftarrow> overwrite resp 2 [0x80 OR (flags AND 0x79)];
          resp \<leftarrow> overwrite resp 3 [0x80 OR (rcode AND 0x0F)];
          resp \<leftarrow> overwrite resp 6 (replicate 6 0);
          qs \<leftarrow> slice query 12 pos;
          Some (Some (resp @ qs)) })
      })"

definition build_servfail :: "bytes \<Rightarrow> bytes option exec" where
  "build_servfail query = build_empty_response query 2"

definition build_nodata :: "bytes \<Rightarrow> bytes option exec" where
  "build_nodata query = build_empty_response query 0"

text \<open>Writing a transaction ID: \<open>key[0]\<close> and \<open>key[1]\<close> when there are two bytes.\<close>

definition set_tx_id :: "u16 \<Rightarrow> bytes \<Rightarrow> bytes" where
  "set_tx_id tx_id packet = (if 2 \<le> length packet then be16 tx_id @ drop 2 packet else packet)"

definition cache_key :: "bytes \<Rightarrow> bytes" where
  "cache_key packet = (if 2 \<le> length packet then packet[0 := 0, 1 := 0] else packet)"

section \<open>Question parsers\<close>

text \<open>The loop of \<open>parse_query_type\<close>: the position after the name, \<open>None\<close> off the end.\<close>

function qtype_pos :: "bytes \<Rightarrow> nat \<Rightarrow> nat option exec" where
  "qtype_pos packet pos =
     (if length packet \<le> pos then Some None
      else do {
        b \<leftarrow> idx packet pos;
        let len = unat b in
        if len = 0 then Some (Some (pos + 1))
        else if b AND 0xC0 = 0xC0 then Some (Some (pos + 2))
        else qtype_pos packet (pos + (1 + len))
      })"
  by pat_completeness auto
termination
  by (relation "measure (\<lambda>(packet, pos). length packet - pos)") auto

declare qtype_pos.simps [simp del]

definition parse_query_type :: "bytes \<Rightarrow> u16 option exec" where
  "parse_query_type packet =
     (if length packet \<le> 12 then Some None
      else try_opt (qtype_pos packet 12) (\<lambda>pos.
        if length packet < pos + 2 then Some None
        else do { t \<leftarrow> rd16 packet pos; Some (Some t) }))"

function query_name_loop :: "bytes \<Rightarrow> nat \<Rightarrow> string list \<Rightarrow> string list option exec" where
  "query_name_loop packet pos parts =
     (if length packet \<le> pos then Some None
      else do {
        b \<leftarrow> idx packet pos;
        if b = 0 then Some (Some parts)
        else if b AND 0xC0 = 0xC0 then Some None
        else if length packet < pos + 1 + unat b then Some None
        else do {
          label \<leftarrow> slice packet (pos + 1) (pos + 1 + unat b);
          case from_utf8 label of None \<Rightarrow> Some None
          | Some s \<Rightarrow> query_name_loop packet (pos + 1 + unat b) (parts @ [s])
        }
      })"
  by pat_completeness auto
termination
  by (relation "measure (\<lambda>(packet, pos, parts). length packet - pos)") auto

declare query_name_loop.simps [simp del]

definition parse_query_name :: "bytes \<Rightarrow> string option exec" where
  "parse_query_name packet =
     try_opt (query_name_loop packet 12 []) (\<lambda>parts.
       if parts = [] then Some None else Some (Some (join ''.'' parts)))"

section \<open>No index panics, and how far the walks go\<close>

lemma skip_dns_name_no_panic [no_panic]: "runs (skip_dns_name packet pos)"
proof (induction packet pos rule: skip_dns_name.induct)
  case (1 packet pos)
  then show ?case
    by (subst skip_dns_name.simps) simp
qed

lemma skip_dns_name_bounds:
  "skip_dns_name packet pos = Some (Some q) \<Longrightarrow> pos < q \<and> q \<le> length packet + 1"
proof (induction packet pos rule: skip_dns_name.induct)
  case (1 packet pos)
  show ?case
  proof (cases "length packet \<le> pos")
    case True
    with "1.prems" show ?thesis by (simp add: skip_dns_name.simps [of packet pos])
  next
    case False
    then show ?thesis
      using "1.prems" "1.IH" [OF False] 
      by (fastforce simp: skip_dns_name.simps [of packet pos] split: if_splits)
  qed
qed

lemma skip_questions_no_panic [no_panic]: "runs (skip_questions n packet pos)"
  by (induction n arbitrary: pos) (auto intro!: no_panic)

lemma try_opt_SomeD:
  "try_opt m f = Some (Some y) \<Longrightarrow> \<exists>x. m = Some (Some x) \<and> f x = Some (Some y)"
  by (auto simp: try_opt_def split: option.splits Option.bind_splits)

lemma skip_questions_bounds:
  "skip_questions n packet pos = Some (Some q) \<Longrightarrow> pos \<le> length packet \<Longrightarrow>
     pos \<le> q \<and> q \<le> length packet"
proof (induction n arbitrary: pos)
  case 0
  then show ?case by simp
next
  case (Suc n)
  from Suc.prems(1) obtain r where r: "skip_dns_name packet pos = Some (Some r)"
      "r + 4 \<le> length packet" "skip_questions n packet (r + 4) = Some (Some q)"
    by (auto dest!: try_opt_SomeD split: if_splits)
  with Suc.IH [OF r(3)] skip_dns_name_bounds [OF r(1)] show ?case by simp
qed

lemma min_ttl_loop_no_panic [no_panic]: "runs (min_ttl_loop n packet pos m)"
  by (induction n arbitrary: pos m) (auto intro!: no_panic)

lemma age_record_length: "age_record packet pos k = Some packet' \<Longrightarrow> length packet' = length packet"
  by (auto simp: age_record_def split: Option.bind_splits if_splits dest!: overwrite_length)

lemma age_record_no_panic [no_panic]: "pos + 10 \<le> length packet \<Longrightarrow> runs (age_record packet pos k)"
  by (auto simp: age_record_def intro!: no_panic)

lemma rewrite_loop_no_panic [no_panic]: "runs (rewrite_loop n packet pos k)"
  by (induction n arbitrary: packet pos) (auto intro!: no_panic dest!: age_record_length)

lemma record_addr_no_panic [no_panic]:
  "pos + n \<le> length packet \<Longrightarrow> runs (record_addr packet pos rtype rclass n)"
  by (auto simp: record_addr_def intro!: no_panic)

lemma ip_records_loop_no_panic [no_panic]: "runs (ip_records_loop n packet pos ips)"
  by (induction n arbitrary: pos ips) (auto intro!: no_panic)

lemma qtype_pos_no_panic [no_panic]: "runs (qtype_pos packet pos)"
proof (induction packet pos rule: qtype_pos.induct)
  case (1 packet pos)
  then show ?case by (subst qtype_pos.simps) (simp add: Let_def)
qed

lemma query_name_loop_no_panic [no_panic]: "runs (query_name_loop packet pos parts)"
proof (induction packet pos parts rule: query_name_loop.induct)
  case (1 packet pos parts)
  then show ?case by (subst query_name_loop.simps) (auto split: option.split)
qed

lemma extract_min_ttl_no_panic [no_panic]: "runs (extract_min_ttl packet)"
  by (auto simp: extract_min_ttl_def intro!: no_panic)

lemma rewrite_ttls_no_panic [no_panic]: "runs (rewrite_ttls packet k)"
  by (auto simp: rewrite_ttls_def intro!: no_panic split: option.split)

lemma parse_ip_records_no_panic [no_panic]: "runs (parse_ip_records packet)"
  by (auto simp: parse_ip_records_def intro!: no_panic)

lemma build_empty_response_no_panic [no_panic]: "runs (build_empty_response query rcode)"
  by (auto simp: build_empty_response_def intro!: no_panic dest!: overwrite_length skip_questions_bounds)

lemma build_servfail_no_panic [no_panic]: "runs (build_servfail query)"
  and build_nodata_no_panic [no_panic]: "runs (build_nodata query)"
  unfolding build_servfail_def build_nodata_def by (rule build_empty_response_no_panic)+

lemma parse_query_type_no_panic [no_panic]: "runs (parse_query_type packet)"
  by (auto simp: parse_query_type_def intro!: no_panic)

lemma parse_query_name_no_panic [no_panic]: "runs (parse_query_name packet)"
  by (auto simp: parse_query_name_def intro!: no_panic)

end
