(* ===== verification/Dns_Message.thy ===== *)
theory Dns_Message
  imports Dns_Wire
begin

text \<open>
  The abstract specification of the wire routines: DNS messages as structured values (RFC 1035:
  names that may end in a compression pointer, questions, resource records in three sections),
  their encoding, and what each routine of \<^verbatim>\<open>Dns_Wire\<close> computes on an encoded message.
\<close>

section \<open>Messages and their encoding\<close>

datatype name_end = Root | Pointer u8 u8
datatype dns_name = Name "bytes list" name_end

record dns_question =
  q_name :: dns_name
  q_type :: u16
  q_class :: u16

record dns_rr =
  rr_name :: dns_name
  rr_type :: u16
  rr_class :: u16
  rr_ttl :: u32
  rr_data :: bytes

record dns_message =
  m_id :: u16
  m_flags1 :: u8
  m_flags2 :: u8
  m_questions :: "dns_question list"
  m_answers :: "dns_rr list"
  m_authority :: "dns_rr list"
  m_additional :: "dns_rr list"

fun enc_end :: "name_end \<Rightarrow> bytes" where
  "enc_end Root = [0]"
| "enc_end (Pointer a b) = [a, b]"

definition enc_label :: "bytes \<Rightarrow> bytes" where
  "enc_label l = of_nat (length l) # l"

fun enc_name :: "dns_name \<Rightarrow> bytes" where
  "enc_name (Name ls e) = concat (map enc_label ls) @ enc_end e"

definition enc_question :: "dns_question \<Rightarrow> bytes" where
  "enc_question q = enc_name (q_name q) @ be16 (q_type q) @ be16 (q_class q)"

definition enc_fixed :: "dns_rr \<Rightarrow> bytes" where
  "enc_fixed r = be16 (rr_type r) @ be16 (rr_class r) @ be32 (rr_ttl r) @ be16 (of_nat (length (rr_data r)))"

definition enc_rr :: "dns_rr \<Rightarrow> bytes" where
  "enc_rr r = enc_name (rr_name r) @ enc_fixed r @ rr_data r"

definition enc_questions :: "dns_question list \<Rightarrow> bytes" where
  "enc_questions qs = concat (map enc_question qs)"

definition enc_rrs :: "dns_rr list \<Rightarrow> bytes" where
  "enc_rrs rs = concat (map enc_rr rs)"

definition enc_header :: "u16 \<Rightarrow> u8 \<Rightarrow> u8 \<Rightarrow> nat \<Rightarrow> nat \<Rightarrow> nat \<Rightarrow> nat \<Rightarrow> bytes" where
  "enc_header i f1 f2 qd an ns ar =
     be16 i @ [f1, f2] @ be16 (of_nat qd) @ be16 (of_nat an) @ be16 (of_nat ns) @ be16 (of_nat ar)"

definition enc_message :: "dns_message \<Rightarrow> bytes" where
  "enc_message m =
     enc_header (m_id m) (m_flags1 m) (m_flags2 m) (length (m_questions m)) (length (m_answers m))
       (length (m_authority m)) (length (m_additional m)) @
     enc_questions (m_questions m) @
     enc_rrs (m_answers m) @ enc_rrs (m_authority m) @ enc_rrs (m_additional m)"

definition wf_label :: "bytes \<Rightarrow> bool" where
  "wf_label l \<longleftrightarrow> l \<noteq> [] \<and> length l < 64"

fun wf_end :: "name_end \<Rightarrow> bool" where
  "wf_end Root = True"
| "wf_end (Pointer a b) = (a AND 0xC0 = 0xC0)"

fun wf_name :: "dns_name \<Rightarrow> bool" where
  "wf_name (Name ls e) = (list_all wf_label ls \<and> wf_end e)"

definition wf_rr :: "dns_rr \<Rightarrow> bool" where
  "wf_rr r \<longleftrightarrow> wf_name (rr_name r) \<and> length (rr_data r) < 65536"

definition wf_message :: "dns_message \<Rightarrow> bool" where
  "wf_message m \<longleftrightarrow>
     list_all (\<lambda>q. wf_name (q_name q)) (m_questions m) \<and>
     list_all wf_rr (m_answers m) \<and> list_all wf_rr (m_authority m) \<and> list_all wf_rr (m_additional m) \<and>
     length (m_questions m) < 65536 \<and> length (m_answers m) < 65536 \<and>
     length (m_authority m) < 65536 \<and> length (m_additional m) < 65536"

lemma length_enc_header [simp]: "length (enc_header i f1 f2 qd an ns ar) = 12"
  by (simp add: enc_header_def)

lemma length_enc_fixed [simp]: "length (enc_fixed r) = 10"
  by (simp add: enc_fixed_def)

lemma enc_questions_simps [simp]:
  "enc_questions [] = []" "enc_questions (q # qs) = enc_question q @ enc_questions qs"
  by (simp_all add: enc_questions_def)

lemma enc_rrs_simps [simp]:
  "enc_rrs [] = []" "enc_rrs (r # rs) = enc_rr r @ enc_rrs rs"
  "enc_rrs (rs @ ss) = enc_rrs rs @ enc_rrs ss"
  by (simp_all add: enc_rrs_def)

section \<open>Reading back the fixed fields\<close>

lemma header_reads [be_simps]:
  "rd16 (enc_header i f1 f2 qd an ns ar @ ys) 4 = Some (of_nat qd)"
  "rd16 (enc_header i f1 f2 qd an ns ar @ ys) 6 = Some (of_nat an)"
  "rd16 (enc_header i f1 f2 qd an ns ar @ ys) 8 = Some (of_nat ns)"
  "rd16 (enc_header i f1 f2 qd an ns ar @ ys) 10 = Some (of_nat ar)"
  using rd16_append [of 4 "be16 i @ [f1, f2]" "of_nat qd"]
    rd16_append [of 6 "be16 i @ [f1, f2] @ be16 (of_nat qd)" "of_nat an"]
    rd16_append [of 8 "be16 i @ [f1, f2] @ be16 (of_nat qd) @ be16 (of_nat an)" "of_nat ns"]
    rd16_append [of 10 "be16 i @ [f1, f2] @ be16 (of_nat qd) @ be16 (of_nat an) @ be16 (of_nat ns)"
                       "of_nat ar"]
  by (simp_all add: enc_header_def)

lemma fixed_reads [be_simps]:
  "i = length xs \<Longrightarrow> rd16 (xs @ enc_fixed r @ ys) i = Some (rr_type r)"
  "i = length xs + 2 \<Longrightarrow> rd16 (xs @ enc_fixed r @ ys) i = Some (rr_class r)"
  "i = length xs + 4 \<Longrightarrow> rd32 (xs @ enc_fixed r @ ys) i = Some (rr_ttl r)"
  "i = length xs + 8 \<Longrightarrow> rd16 (xs @ enc_fixed r @ ys) i = Some (of_nat (length (rr_data r)))"
  using rd16_append [of i xs "rr_type r"]
    rd16_append [of i "xs @ be16 (rr_type r)" "rr_class r"]
    rd32_append [of i "xs @ be16 (rr_type r) @ be16 (rr_class r)" "rr_ttl r"]
    rd16_append [of i "xs @ be16 (rr_type r) @ be16 (rr_class r) @ be32 (rr_ttl r)"
                      "of_nat (length (rr_data r))"]
  by (simp_all add: enc_fixed_def)

lemma unat_len16 [simp]: "n < 65536 \<Longrightarrow> unat (of_nat n :: u16) = n"
  by (simp add: unat_of_nat_u16)

lemma of_nat_16_eq_0 [simp]: "n < 65536 \<Longrightarrow> (of_nat n :: u16) = 0 \<longleftrightarrow> n = 0"
  by (metis unat_len16 unat_eq_zero of_nat_0)

section \<open>Skipping names and questions\<close>

lemma label_byte:
  assumes "wf_label l"
  shows "(of_nat (length l) :: u8) \<noteq> 0" "(of_nat (length l) :: u8) AND 0xC0 \<noteq> 0xC0"
    "unat (of_nat (length l) :: u8) = length l"
proof -
  have "\<forall>n \<in> set [1..<64]. (of_nat n :: u8) \<noteq> 0 \<and> (of_nat n :: u8) AND 0xC0 \<noteq> 0xC0"
    by code_simp
  moreover have "length l \<in> set [1..<64]"
    using assms by (auto simp: wf_label_def Suc_le_eq)
  ultimately show "(of_nat (length l) :: u8) \<noteq> 0" "(of_nat (length l) :: u8) AND 0xC0 \<noteq> 0xC0"
    by blast+
  show "unat (of_nat (length l) :: u8) = length l"
    using assms by (simp add: wf_label_def unat_of_nat_u8)
qed

lemma skip_enc_end:
  "wf_end e \<Longrightarrow> skip_dns_name (xs @ enc_end e @ ys) (length xs) = Some (Some (length xs + length (enc_end e)))"
  by (cases e) (auto simp: skip_dns_name.simps [of _ "length xs"])

lemma skip_enc_name:
  assumes "wf_name nm"
  shows "skip_dns_name (xs @ enc_name nm @ ys) (length xs) = Some (Some (length xs + length (enc_name nm)))"
proof -
  obtain ls e where nm: "nm = Name ls e" by (cases nm)
  have "list_all wf_label ls \<Longrightarrow> wf_end e \<Longrightarrow>
      skip_dns_name (xs @ concat (map enc_label ls) @ enc_end e @ ys) (length xs) =
      Some (Some (length xs + length (concat (map enc_label ls)) + length (enc_end e)))"
  proof (induction ls arbitrary: xs)
    case Nil
    then show ?case by (simp add: skip_enc_end)
  next
    case (Cons l ls)
    then have l: "wf_label l" by simp
    have "skip_dns_name ((xs @ enc_label l) @ concat (map enc_label ls) @ enc_end e @ ys)
            (length (xs @ enc_label l)) =
          Some (Some (length (xs @ enc_label l) + length (concat (map enc_label ls)) + length (enc_end e)))"
      using Cons by (intro Cons.IH) simp_all
    then show ?case
      using label_byte [OF l]
      by (simp add: skip_dns_name.simps [of _ "length xs"] enc_label_def [of l] algebra_simps)
  qed
  then show ?thesis using assms by (simp add: nm add.assoc)
qed

lemma skip_enc_questions:
  "list_all (\<lambda>q. wf_name (q_name q)) qs \<Longrightarrow>
   skip_questions (length qs) (xs @ enc_questions qs @ ys) (length xs) =
   Some (Some (length xs + length (enc_questions qs)))"
proof (induction qs arbitrary: xs)
  case Nil
  then show ?case by simp
next
  case (Cons q qs)
  have IH: "skip_questions (length qs) ((xs @ enc_question q) @ enc_questions qs @ ys)
         (length (xs @ enc_question q)) =
       Some (Some (length (xs @ enc_question q) + length (enc_questions qs)))"
    using Cons by (intro Cons.IH) simp
  have "skip_dns_name (xs @ enc_name (q_name q) @ be16 (q_type q) @ be16 (q_class q) @ enc_questions qs @ ys)
       (length xs) = Some (Some (length xs + length (enc_name (q_name q))))"
    using Cons.prems by (intro skip_enc_name) simp
  with IH show ?case by (simp add: enc_question_def algebra_simps)
qed

lemma skip_message_questions [be_simps]:
  assumes "list_all (\<lambda>q. wf_name (q_name q)) qs" "length qs < 65536"
  shows "skip_questions (length qs) (enc_header i f1 f2 qd an ns ar @ enc_questions qs @ ys) 12 =
         Some (Some (12 + length (enc_questions qs)))"
  using skip_enc_questions [OF assms(1), of "enc_header i f1 f2 qd an ns ar" ys] by simp

lemma skip_rr_name [be_simps]:
  "wf_rr r \<Longrightarrow> skip_dns_name (xs @ enc_rr r @ ys) (length xs) =
     Some (Some (length xs + length (enc_name (rr_name r))))"
  using skip_enc_name [of "rr_name r" xs "enc_fixed r @ rr_data r @ ys"]
  by (simp add: enc_rr_def wf_rr_def)

lemma rr_fixed_reads [be_simps]:
  fixes xs r ys
  defines "p \<equiv> xs @ enc_rr r @ ys" and "i \<equiv> length xs + length (enc_name (rr_name r))"
  shows "rd16 p i = Some (rr_type r)" "rd16 p (i + 2) = Some (rr_class r)"
    "rd32 p (i + 4) = Some (rr_ttl r)" "rd16 p (i + 8) = Some (of_nat (length (rr_data r)))"
  using fixed_reads [of _ "xs @ enc_name (rr_name r)" r "rr_data r @ ys"]
  by (simp_all add: p_def i_def enc_rr_def)


section \<open>What the record walks compute\<close>

definition fold_min_ttl :: "dns_rr list \<Rightarrow> u32 \<Rightarrow> u32" where
  "fold_min_ttl rs m = fold (\<lambda>r m. min (rr_ttl r) m) rs m"

lemma if_less_min: "(if a < b then a else b) = min a (b :: u32)"
  by (auto simp: min_def)

lemma min_ttl_loop_enc:
  "list_all wf_rr rs \<Longrightarrow>
   min_ttl_loop (length rs) (xs @ enc_rrs rs @ ys) (length xs) m = Some (Some (fold_min_ttl rs m))"
proof (induction rs arbitrary: xs m)
  case Nil
  then show ?case by (simp add: fold_min_ttl_def)
next
  case (Cons r rs)
  then have r: "wf_rr r" by simp
  have "min_ttl_loop (length rs) ((xs @ enc_rr r) @ enc_rrs rs @ ys) (length (xs @ enc_rr r))
           (min (rr_ttl r) m) = Some (Some (fold_min_ttl rs (min (rr_ttl r) m)))"
    using Cons by (intro Cons.IH) simp
  then show ?case
    using r skip_rr_name [OF r, of xs "enc_rrs rs @ ys"] rr_fixed_reads [of xs r "enc_rrs rs @ ys"]
    by (simp add: enc_rr_def wf_rr_def fold_min_ttl_def if_less_min ac_simps)
qed

definition rr_addrs :: "dns_rr \<Rightarrow> ip_addr list" where
  "rr_addrs r =
     (if rr_class r = DNS_CLASS_IN then
        (if rr_type r = DNS_TYPE_A then
           (case rr_data r of [a, b, c, d] \<Rightarrow> [IpV4 (Ipv4 a b c d)] | _ \<Rightarrow> [])
         else if rr_type r = DNS_TYPE_AAAA then
           (case ipv6_of_octets (rr_data r) of Some ip \<Rightarrow> [IpV6 ip] | None \<Rightarrow> [])
         else [])
      else [])"

lemma record_addr_enc:
  assumes "i = length xs"
  shows "record_addr (xs @ rr_data r @ ys) i (rr_type r) (rr_class r) (length (rr_data r)) =
         Some (rr_addrs r)"
proof -
  have types: "DNS_TYPE_A \<noteq> DNS_TYPE_AAAA" "DNS_TYPE_AAAA \<noteq> DNS_TYPE_A"
    by (simp_all add: DNS_TYPE_A_def DNS_TYPE_AAAA_def)
  have four: "length ds = 4 \<Longrightarrow> \<exists>a b c d. ds = [a, b, c, d]" for ds :: bytes
    by (auto simp: numeral_eq_Suc length_Suc_conv)
  have other: "length ds \<noteq> 4 \<Longrightarrow> (case ds of [a, b, c, d] \<Rightarrow> [IpV4 (Ipv4 a b c d)] | _ \<Rightarrow> []) = []"
    for ds :: bytes
    by (auto split: list.split)
  have six: "length ds = 16 \<Longrightarrow> \<exists>ip. ipv6_of_octets ds = Some ip" for ds
    using ipv6_of_octets_no_panic [of ds] by (auto elim: runsE)
  have not_six: "length ds \<noteq> 16 \<Longrightarrow> ipv6_of_octets ds = None" for ds
    by (simp add: ipv6_of_octets_def)
  consider (a) "rr_type r = DNS_TYPE_A" "length (rr_data r) = 4"
    | (na) "rr_type r = DNS_TYPE_A" "length (rr_data r) \<noteq> 4"
    | (aaaa) "rr_type r = DNS_TYPE_AAAA" "length (rr_data r) = 16"
    | (naaaa) "rr_type r = DNS_TYPE_AAAA" "length (rr_data r) \<noteq> 16"
    | (none) "rr_type r \<noteq> DNS_TYPE_A" "rr_type r \<noteq> DNS_TYPE_AAAA"
    by blast
  then show ?thesis
  proof cases
    case a
    with four [of "rr_data r"] show ?thesis
      by (auto simp: assms record_addr_def rr_addrs_def nth_append numeral_nat)
  next
    case aaaa
    with six [of "rr_data r"] types show ?thesis
      by (auto simp: assms record_addr_def rr_addrs_def)
  qed (auto simp: record_addr_def rr_addrs_def other not_six types)
qed

lemma ip_records_loop_enc:
  "list_all wf_rr rs \<Longrightarrow>
   ip_records_loop (length rs) (xs @ enc_rrs rs @ ys) (length xs) ips =
   Some (Some (ips @ concat (map rr_addrs rs)))"
proof (induction rs arbitrary: xs ips)
  case Nil
  then show ?case by simp
next
  case (Cons r rs)
  then have r: "wf_rr r" by simp
  have IH: "ip_records_loop (length rs) ((xs @ enc_rr r) @ enc_rrs rs @ ys) (length (xs @ enc_rr r))
        (ips @ rr_addrs r) = Some (Some ((ips @ rr_addrs r) @ concat (map rr_addrs rs)))"
    using Cons by (intro Cons.IH) simp
  have rec: "record_addr (xs @ enc_rr r @ enc_rrs rs @ ys) (length xs + length (enc_name (rr_name r)) + 10)
        (rr_type r) (rr_class r) (length (rr_data r)) = Some (rr_addrs r)"
    using record_addr_enc [of _ "xs @ enc_name (rr_name r) @ enc_fixed r" r "enc_rrs rs @ ys"]
    by (simp add: enc_rr_def add.assoc)
  have len: "length (enc_rr r) = length (enc_name (rr_name r)) + 10 + length (rr_data r)"
    by (simp add: enc_rr_def)
  show ?case
    using r IH rec skip_rr_name [OF r, of xs "enc_rrs rs @ ys"] rr_fixed_reads [of xs r "enc_rrs rs @ ys"]
    by (simp add: len wf_rr_def ac_simps)
qed

definition age_rr :: "u32 \<Rightarrow> dns_rr \<Rightarrow> dns_rr" where
  "age_rr k r = (if rr_type r = DNS_TYPE_OPT then r else r\<lparr>rr_ttl := aged_ttl (rr_ttl r) k\<rparr>)"

lemma age_rr_fields [simp]:
  "rr_name (age_rr k r) = rr_name r" "rr_type (age_rr k r) = rr_type r"
  "rr_class (age_rr k r) = rr_class r" "rr_data (age_rr k r) = rr_data r"
  by (simp_all add: age_rr_def)

lemma wf_age_rr [simp]: "wf_rr (age_rr k r) = wf_rr r"
  by (simp add: wf_rr_def)

lemma age_record_enc:
  "age_record (xs @ enc_rr r @ ys) (length xs + length (enc_name (rr_name r))) k =
   Some (xs @ enc_rr (age_rr k r) @ ys)"
proof -
  let ?pre = "xs @ enc_name (rr_name r) @ be16 (rr_type r) @ be16 (rr_class r)"
  let ?post = "be16 (of_nat (length (rr_data r))) @ rr_data r @ ys"
  have "overwrite (?pre @ be32 (rr_ttl r) @ ?post) (length ?pre) (be32 (aged_ttl (rr_ttl r) k)) =
        Some (?pre @ be32 (aged_ttl (rr_ttl r) k) @ ?post)"
    by (rule overwrite_append) simp
  then show ?thesis
    using rr_fixed_reads [of xs r ys]
    by (simp add: age_record_def age_rr_def enc_rr_def enc_fixed_def ac_simps)
qed

lemma rewrite_loop_enc:
  "list_all wf_rr rs \<Longrightarrow>
   rewrite_loop (length rs) (xs @ enc_rrs rs @ ys) (length xs) k =
   Some (xs @ enc_rrs (map (age_rr k) rs) @ ys, True)"
proof (induction rs arbitrary: xs)
  case Nil
  then show ?case by simp
next
  case (Cons r rs)
  then have r: "wf_rr r" by simp
  have IH: "rewrite_loop (length rs) ((xs @ enc_rr (age_rr k r)) @ enc_rrs rs @ ys)
        (length (xs @ enc_rr (age_rr k r))) k =
      Some ((xs @ enc_rr (age_rr k r)) @ enc_rrs (map (age_rr k) rs) @ ys, True)"
    using Cons by (intro Cons.IH) simp
  have len: "length (enc_rr (age_rr k r)) = length (enc_name (rr_name r)) + 10 + length (rr_data r)"
     "length (enc_rr r) = length (enc_name (rr_name r)) + 10 + length (rr_data r)"
    by (simp_all add: enc_rr_def)
  show ?case
    using r IH skip_rr_name [OF r, of xs "enc_rrs rs @ ys"] age_record_enc [of xs r "enc_rrs rs @ ys" k]
      rr_fixed_reads(4) [of xs "age_rr k r" "enc_rrs rs @ ys"]
    by (simp add: len wf_rr_def ac_simps)
qed


section \<open>What the question parsers compute\<close>

text \<open>The two name skippers of the source are the same function.\<close>

lemma qtype_pos_eq: "qtype_pos packet pos = skip_dns_name packet pos"
proof (induction packet pos rule: qtype_pos.induct)
  case (1 packet pos)
  then show ?case
    by (subst qtype_pos.simps, subst skip_dns_name.simps) (auto simp: Let_def unat_eq_zero)
qed

lemma query_name_loop_enc:
  "list_all wf_label ls \<Longrightarrow>
   query_name_loop (xs @ concat (map enc_label ls) @ 0 # ys) (length xs) parts =
   Some (if list_all utf8_ok ls then Some (parts @ map str_of ls) else None)"
proof (induction ls arbitrary: xs parts)
  case Nil
  then show ?case by (simp add: query_name_loop.simps [of _ "length xs"])
next
  case (Cons l ls)
  then have l: "wf_label l" by simp
  have "query_name_loop ((xs @ enc_label l) @ concat (map enc_label ls) @ 0 # ys) (length (xs @ enc_label l))
           (parts @ [str_of l]) =
        Some (if list_all utf8_ok ls then Some ((parts @ [str_of l]) @ map str_of ls) else None)"
    using Cons by (intro Cons.IH) simp
  then show ?case
    using label_byte [OF l]
    by (simp add: query_name_loop.simps [of _ "length xs"] enc_label_def [of l] from_utf8_def)
qed

lemma enc_message_question:
  assumes "m_questions m = q # qs"
  obtains xs ys where
    "enc_message m = xs @ enc_name (q_name q) @ be16 (q_type q) @ be16 (q_class q) @ ys"
    "length xs = 12"
proof
  show "enc_message m =
     enc_header (m_id m) (m_flags1 m) (m_flags2 m) (length (m_questions m)) (length (m_answers m))
       (length (m_authority m)) (length (m_additional m)) @
     enc_name (q_name q) @ be16 (q_type q) @ be16 (q_class q) @
     (enc_questions qs @ enc_rrs (m_answers m) @ enc_rrs (m_authority m) @ enc_rrs (m_additional m))"
    by (simp add: enc_message_def assms enc_question_def)
qed simp

lemma enc_name_nonempty [simp]: "enc_name nm \<noteq> []"
proof -
  obtain ls e where "nm = Name ls e" by (cases nm)
  then show ?thesis by (cases e) auto
qed

lemma parse_query_name_enc:
  assumes "m_questions m = q # qs" "q_name q = Name ls Root" "list_all wf_label ls"
  shows "parse_query_name (enc_message m) =
         Some (if ls \<noteq> [] \<and> list_all utf8_ok ls then Some (join ''.'' (map str_of ls)) else None)"
proof -
  obtain xs ys where m: "enc_message m = xs @ enc_name (q_name q) @ be16 (q_type q) @ be16 (q_class q) @ ys"
    "length xs = 12"
    using enc_message_question [OF assms(1)] .
  have "query_name_loop (enc_message m) 12 [] =
        Some (if list_all utf8_ok ls then Some (map str_of ls) else None)"
    using query_name_loop_enc [OF assms(3), of xs "be16 (q_type q) @ be16 (q_class q) @ ys" "[]"]
    by (simp add: m assms(2))
  then show ?thesis by (simp add: parse_query_name_def)
qed

lemma parse_query_type_enc:
  assumes "m_questions m = q # qs" "wf_name (q_name q)"
  shows "parse_query_type (enc_message m) = Some (Some (q_type q))"
proof -
  obtain xs ys where m: "enc_message m = xs @ enc_name (q_name q) @ be16 (q_type q) @ be16 (q_class q) @ ys"
    "length xs = 12"
    using enc_message_question [OF assms(1)] .
  have "skip_dns_name (enc_message m) 12 = Some (Some (12 + length (enc_name (q_name q))))"
    using skip_enc_name [OF assms(2), of xs "be16 (q_type q) @ be16 (q_class q) @ ys"] by (simp add: m)
  moreover have "rd16 (enc_message m) (12 + length (enc_name (q_name q))) = Some (q_type q)"
    using rd16_append [of _ "xs @ enc_name (q_name q)" "q_type q" "be16 (q_class q) @ ys"] by (simp add: m)
  ultimately show ?thesis
    by (simp add: parse_query_type_def qtype_pos_eq m)
qed

definition answerless :: "u8 \<Rightarrow> dns_message \<Rightarrow> dns_message" where
  "answerless rcode m =
     m\<lparr>m_flags1 := 0x80 OR (m_flags1 m AND 0x79), m_flags2 := 0x80 OR (rcode AND 0x0F),
       m_answers := [], m_authority := [], m_additional := []\<rparr>"

text \<open>The three header writes of \<open>build_empty_response\<close> on a 12-byte header.\<close>

lemma header_writes:
  "do { resp \<leftarrow> overwrite [i0, i1, f1, f2, q0, q1, a0, a1, n0, n1, r0, r1] 2 [x];
        resp \<leftarrow> overwrite resp 3 [y];
        overwrite resp 6 (replicate 6 0) } =
   Some [i0, i1, x, y, q0, q1, 0, 0, 0, 0, 0, (0 :: u8)]"
  by (simp add: overwrite_def eval_nat_numeral)

lemma answerless_header:
  fixes i f1 f2 qd an ns ar x y
  defines "h \<equiv> enc_header i f1 f2 qd an ns ar"
  shows "do { resp \<leftarrow> overwrite h 2 [x]; resp \<leftarrow> overwrite resp 3 [y];
              overwrite resp 6 (replicate 6 0) } = Some (enc_header i x y qd 0 0 0)"
    "idx (h @ ys) 2 = Some f1"
proof -
  obtain i0 i1 where 1: "be16 i = [i0, i1]" by (rule be16_cases)
  obtain q0 q1 where 2: "be16 (of_nat qd) = [q0, q1]" by (rule be16_cases)
  obtain a0 a1 where 3: "be16 (of_nat an) = [a0, a1]" by (rule be16_cases)
  obtain n0 n1 where 4: "be16 (of_nat ns) = [n0, n1]" by (rule be16_cases)
  obtain r0 r1 where 5: "be16 (of_nat ar) = [r0, r1]" by (rule be16_cases)
  have 0: "be16 0 = [0, 0]" by (simp add: be16_def)
  have h: "h = [i0, i1, f1, f2, q0, q1, a0, a1, n0, n1, r0, r1]"
    by (simp add: h_def enc_header_def 1 2 3 4 5)
  show "do { resp \<leftarrow> overwrite h 2 [x]; resp \<leftarrow> overwrite resp 3 [y];
             overwrite resp 6 (replicate 6 0) } = Some (enc_header i x y qd 0 0 0)"
    unfolding h header_writes by (simp add: enc_header_def 0 1 2)
  show "idx (h @ ys) 2 = Some f1"
    by (simp add: h)
qed

lemma build_empty_response_enc:
  assumes "list_all (\<lambda>q. wf_name (q_name q)) (m_questions m)" "length (m_questions m) < 65536"
  shows "build_empty_response (enc_message m) rcode = Some (Some (enc_message (answerless rcode m)))"
proof -
  define h where "h = enc_header (m_id m) (m_flags1 m) (m_flags2 m) (length (m_questions m))
      (length (m_answers m)) (length (m_authority m)) (length (m_additional m))"
  define qs where "qs = enc_questions (m_questions m)"
  define rrs where "rrs = enc_rrs (m_answers m) @ enc_rrs (m_authority m) @ enc_rrs (m_additional m)"
  have m: "enc_message m = h @ qs @ rrs" by (simp add: enc_message_def h_def qs_def rrs_def)
  have h12: "length h = 12" by (simp add: h_def)
  have "skip_questions (length (m_questions m)) (h @ qs @ rrs) 12 = Some (Some (12 + length qs))"
    unfolding h_def qs_def by (rule skip_message_questions [OF assms])
  moreover have "slice (h @ qs @ rrs) 12 (12 + length qs) = Some qs"
    using slice_append [of h qs rrs] by (simp add: h12)
  moreover have "rd16 (h @ qs @ rrs) 4 = Some (of_nat (length (m_questions m)))"
    by (simp add: h_def be_simps)
  moreover have "slice (h @ qs @ rrs) 0 12 = Some h"
    by (simp add: slice_def h12)
  moreover have "idx (h @ qs @ rrs) 2 = Some (m_flags1 m)"
    unfolding h_def by (rule answerless_header(2))
  ultimately show ?thesis
    using assms(2) answerless_header(1) [of "m_id m" "m_flags1 m" "m_flags2 m" "length (m_questions m)"
        "length (m_answers m)" "length (m_authority m)" "length (m_additional m)"
        "0x80 OR (m_flags1 m AND 0x79)" "0x80 OR (rcode AND 0x0F)", folded h_def]
    unfolding build_empty_response_def m
    by (auto simp: h12 answerless_def enc_message_def qs_def split: Option.bind_splits)
qed

lemma cache_key_eq_iff:
  assumes "2 \<le> length p" "2 \<le> length q"
  shows "cache_key p = cache_key q \<longleftrightarrow> drop 2 p = drop 2 q"
proof -
  obtain a b p' where "p = a # b # p'"
    using assms(1) by (cases p; cases "tl p") auto
  moreover obtain c d q' where "q = c # d # q'"
    using assms(2) by (cases q; cases "tl q") auto
  ultimately show ?thesis by (simp add: cache_key_def)
qed


section \<open>Properties\<close>

lemma fold_min_ttl_Min: "fold_min_ttl rs m = Min (insert m (rr_ttl ` set rs))"
  using Min.set_eq_fold [of m "map rr_ttl rs"]
  by (simp add: fold_min_ttl_def fold_map comp_def)

lemma Min_insert_max:
  assumes "rs \<noteq> []"
  shows "Min (insert U32_MAX (rr_ttl ` set rs)) = Min (rr_ttl ` set rs)"
    "Min (rr_ttl ` set rs) = U32_MAX \<longleftrightarrow> (\<forall>r \<in> set rs. rr_ttl r = U32_MAX)"
proof -
  have top: "t \<le> U32_MAX" for t
    by (simp add: U32_MAX_def word_le_nat_alt less_Suc_eq_le [symmetric])
  show "Min (insert U32_MAX (rr_ttl ` set rs)) = Min (rr_ttl ` set rs)"
    using assms by (simp add: min.absorb2 top)
  show "Min (rr_ttl ` set rs) = U32_MAX \<longleftrightarrow> (\<forall>r \<in> set rs. rr_ttl r = U32_MAX)"
  proof
    assume min: "Min (rr_ttl ` set rs) = U32_MAX"
    show "\<forall>r \<in> set rs. rr_ttl r = U32_MAX"
    proof
      fix r assume "r \<in> set rs"
      then have "U32_MAX \<le> rr_ttl r" using min by (metis Min_le finite_imageI finite_set imageI)
      with top show "rr_ttl r = U32_MAX" by (rule order.antisym)
    qed
  next
    assume "\<forall>r \<in> set rs. rr_ttl r = U32_MAX"
    then have "rr_ttl ` set rs = {U32_MAX}" using assms by (auto simp: image_iff neq_Nil_conv)
    then show "Min (rr_ttl ` set rs) = U32_MAX" by simp
  qed
qed

definition age_message :: "u32 \<Rightarrow> dns_message \<Rightarrow> dns_message" where
  "age_message k m =
     m\<lparr>m_answers := map (age_rr k) (m_answers m), m_authority := map (age_rr k) (m_authority m),
       m_additional := map (age_rr k) (m_additional m)\<rparr>"

text \<open>A response with a compressed owner name, a CNAME-like record and an OPT record.\<close>

definition example_response :: dns_message where
  "example_response =
     \<lparr>m_id = 7, m_flags1 = 0x81, m_flags2 = 0x80,
      m_questions = [\<lparr>q_name = Name [[97, 98], [99]] Root, q_type = 1, q_class = 1\<rparr>],
      m_answers =
        [\<lparr>rr_name = Name [] (Pointer 0xC0 12), rr_type = 5, rr_class = 1, rr_ttl = 60, rr_data = [0]\<rparr>,
         \<lparr>rr_name = Name [] (Pointer 0xC0 12), rr_type = 1, rr_class = 1, rr_ttl = 40,
          rr_data = [10, 0, 0, 1]\<rparr>],
      m_authority = [],
      m_additional =
        [\<lparr>rr_name = Name [] Root, rr_type = 41, rr_class = 4096, rr_ttl = 0, rr_data = []\<rparr>]\<rparr>"

lemma wf_example_response: "wf_message example_response"
  by (simp add: wf_message_def wf_rr_def wf_label_def example_response_def)

text \<open>
  C30. No packet, however malformed, makes a DNS parser of the forwarder index out of bounds: the
  record walks, the question parsers and the response builder return on every byte string.
\<close>

theorem dns_parsers_never_panic:
  "runs (parse_ip_records packet) \<and> runs (extract_min_ttl packet) \<and> runs (rewrite_ttls packet k) \<and>
   runs (build_empty_response packet rcode) \<and> runs (parse_query_name packet) \<and>
   runs (parse_query_type packet)"
  by (intro conjI no_panic)

lemma parse_ip_records_enc:
  assumes "wf_message m"
  shows "parse_ip_records (enc_message m) =
    Some (let ips = concat (map rr_addrs (m_answers m)) in if ips = [] then None else Some ips)"
proof -
  let ?h = "enc_header (m_id m) (m_flags1 m) (m_flags2 m) (length (m_questions m))
      (length (m_answers m)) (length (m_authority m)) (length (m_additional m))"
  have "ip_records_loop (length (m_answers m)) (enc_message m) (12 + length (enc_questions (m_questions m))) [] =
        Some (Some (concat (map rr_addrs (m_answers m))))"
    using ip_records_loop_enc [of "m_answers m" "?h @ enc_questions (m_questions m)"
        "enc_rrs (m_authority m) @ enc_rrs (m_additional m)" "[]"] assms
    by (simp add: enc_message_def wf_message_def)
  then show ?thesis
    using assms by (auto simp: parse_ip_records_def enc_message_def be_simps wf_message_def Let_def)
qed

text \<open>
  C31. On a well-formed response, \<open>parse_ip_records\<close> returns exactly the addresses of the class-IN A
  and AAAA records of the answer section, in order, and \<open>None\<close> when there are none.
\<close>

theorem parse_ip_records_correct:
  assumes "wf_message m"
  shows "parse_ip_records (enc_message m) =
    Some (let ips = concat (map rr_addrs (m_answers m)) in if ips = [] then None else Some ips)"
  using assms by (rule parse_ip_records_enc)

theorem parse_ip_records_correct_witness:
  "parse_ip_records (enc_message example_response) = Some (Some [IpV4 (Ipv4 10 0 0 1)])"
  using parse_ip_records_correct [OF wf_example_response]
  by (simp add: example_response_def rr_addrs_def DNS_CLASS_IN_def DNS_TYPE_A_def DNS_TYPE_AAAA_def)

lemma extract_min_ttl_enc:
  assumes "wf_message m"
  shows "extract_min_ttl (enc_message m) =
    Some (if \<exists>r \<in> set (m_answers m). rr_ttl r \<noteq> U32_MAX
          then Some (Min (rr_ttl ` set (m_answers m))) else None)"
proof -
  let ?h = "enc_header (m_id m) (m_flags1 m) (m_flags2 m) (length (m_questions m))
      (length (m_answers m)) (length (m_authority m)) (length (m_additional m))"
  have "min_ttl_loop (length (m_answers m)) (enc_message m)
          (12 + length (enc_questions (m_questions m))) U32_MAX =
        Some (Some (Min (insert U32_MAX (rr_ttl ` set (m_answers m)))))"
    using min_ttl_loop_enc [of "m_answers m" "?h @ enc_questions (m_questions m)"
        "enc_rrs (m_authority m) @ enc_rrs (m_additional m)" U32_MAX] assms
    by (simp add: enc_message_def wf_message_def fold_min_ttl_Min)
  then show ?thesis
    using assms Min_insert_max [of "m_answers m"]
    by (cases "m_answers m = []")
       (auto simp: extract_min_ttl_def enc_message_def be_simps wf_message_def)
qed

text \<open>
  On a well-formed response, \<open>extract_min_ttl\<close> returns the smallest TTL of the answer section;
  it returns \<open>None\<close> when there is no answer, and also when every answer has the TTL 0xFFFFFFFF, which
  the source uses as its \<open>not found\<close> mark.
\<close>

theorem extract_min_ttl_correct:
  assumes "wf_message m"
  shows "extract_min_ttl (enc_message m) =
    Some (if \<exists>r \<in> set (m_answers m). rr_ttl r \<noteq> U32_MAX
          then Some (Min (rr_ttl ` set (m_answers m))) else None)"
  using assms by (rule extract_min_ttl_enc)

theorem extract_min_ttl_correct_witness:
  "extract_min_ttl (enc_message example_response) = Some (Some 40)"
  using extract_min_ttl_correct [OF wf_example_response]
  by (simp add: example_response_def U32_MAX_def)

lemma rewrite_ttls_enc:
  assumes "wf_message m"
  shows "rewrite_ttls (enc_message m) k = Some (enc_message (age_message k m), True)"
proof -
  let ?h = "enc_header (m_id m) (m_flags1 m) (m_flags2 m) (length (m_questions m))
      (length (m_answers m)) (length (m_authority m)) (length (m_additional m))"
  let ?rs = "m_answers m @ m_authority m @ m_additional m"
  have "rewrite_loop (length ?rs) (enc_message m) (12 + length (enc_questions (m_questions m))) k =
        Some (enc_message (age_message k m), True)"
    using rewrite_loop_enc [of ?rs "?h @ enc_questions (m_questions m)" "[]" k] assms
    by (simp add: enc_message_def wf_message_def age_message_def)
  then show ?thesis
    using assms by (simp add: rewrite_ttls_def enc_message_def be_simps wf_message_def add.assoc)
qed



text \<open>
  The question parsers read back an encoded question: \<open>parse_query_name\<close> gives the labels joined
  by dots (\<open>None\<close> for the root or a label that is not UTF-8), \<open>parse_query_type\<close> gives the QTYPE.
\<close>

theorem question_roundtrip:
  assumes "m_questions m = q # qs" "q_name q = Name ls Root" "list_all wf_label ls"
  shows "parse_query_name (enc_message m) =
           Some (if ls \<noteq> [] \<and> list_all utf8_ok ls then Some (join ''.'' (map str_of ls)) else None) \<and>
         parse_query_type (enc_message m) = Some (Some (q_type q))"
  using parse_query_name_enc [OF assms] parse_query_type_enc [OF assms(1)] assms by simp_all

theorem question_roundtrip_witness:
  "parse_query_name (enc_message example_response) = Some (Some ''ab.c'') \<and>
   parse_query_type (enc_message example_response) = Some (Some 1)"
proof -
  let ?q = "\<lparr>q_name = Name [[97, 98], [99]] Root, q_type = 1, q_class = 1\<rparr> :: dns_question"
  have q: "m_questions example_response = [?q]" "list_all wf_label [[97, 98], [99]]"
    by (simp_all add: example_response_def wf_label_def)
  show ?thesis
    using question_roundtrip [OF q(1) _ q(2)] by (simp add: str_of_def char_of_def bit_Suc_0_iff)
qed

text \<open>
  SERVFAIL and NODATA responses: on a query with well-formed questions they re-encode the query's
  id and questions with QR and RA set, opcode and RD kept, AA and TC cleared, the given RCODE, and
  empty answer, authority and additional sections.
\<close>

theorem answerless_responses_correct:
  assumes "list_all (\<lambda>q. wf_name (q_name q)) (m_questions m)" "length (m_questions m) < 65536"
  shows "build_servfail (enc_message m) = Some (Some (enc_message (answerless 2 m))) \<and>
         build_nodata (enc_message m) = Some (Some (enc_message (answerless 0 m)))"
  using build_empty_response_enc [OF assms] by (simp_all add: build_servfail_def build_nodata_def)

theorem answerless_responses_correct_witness:
  "build_servfail (enc_message example_response) =
     Some (Some (enc_message (answerless 2 example_response)))"
  by (rule answerless_responses_correct [THEN conjunct1])
     (simp_all add: example_response_def wf_label_def)

end
