(* ===== verification/Hash_Map.thy ===== *)
theory Hash_Map
  imports Prelude "HOL-Library.AList" "HOL-Library.Multiset"
begin

text \<open>
  Rust's \<open>HashMap\<close>, as the source uses it: an association list with distinct keys, read by
  \<open>map_of\<close>.  The order in which \<open>keys()\<close> and \<open>iter()\<close> visit the entries is unspecified in Rust, so
  an operation that depends on it takes the order as an argument: a function that permutes the keys
  (\<open>is_order\<close>).
\<close>

type_synonym ('k, 'v) hash_map = "('k \<times> 'v) list"
type_synonym 'k order = "'k list \<Rightarrow> 'k list"

definition hm_ok :: "('k, 'v) hash_map \<Rightarrow> bool" where
  "hm_ok m \<longleftrightarrow> distinct (map fst m)"

definition hm_get :: "('k, 'v) hash_map \<Rightarrow> 'k \<Rightarrow> 'v option" where
  "hm_get m k = map_of m k"

definition hm_insert :: "'k \<Rightarrow> 'v \<Rightarrow> ('k, 'v) hash_map \<Rightarrow> ('k, 'v) hash_map" where
  "hm_insert k v m = AList.update k v m"

definition hm_remove :: "'k \<Rightarrow> ('k, 'v) hash_map \<Rightarrow> ('k, 'v) hash_map" where
  "hm_remove k m = filter (\<lambda>e. fst e \<noteq> k) m"

definition hm_retain :: "('k \<Rightarrow> 'v \<Rightarrow> bool) \<Rightarrow> ('k, 'v) hash_map \<Rightarrow> ('k, 'v) hash_map" where
  "hm_retain p m = filter (\<lambda>e. p (fst e) (snd e)) m"

definition hm_keys :: "'k order \<Rightarrow> ('k, 'v) hash_map \<Rightarrow> 'k list" where
  "hm_keys ord m = ord (map fst m)"

fun hm_remove_all :: "'k list \<Rightarrow> ('k, 'v) hash_map \<Rightarrow> ('k, 'v) hash_map" where
  "hm_remove_all [] m = m"
| "hm_remove_all (k # ks) m = hm_remove_all ks (hm_remove k m)"

definition is_order :: "'k order \<Rightarrow> bool" where
  "is_order ord \<longleftrightarrow> (\<forall>ks. mset (ord ks) = mset ks)"

lemma is_order_id [simp]: "is_order (\<lambda>ks. ks)" and is_order_rev [simp]: "is_order rev"
  by (simp_all add: is_order_def)

lemma is_orderD:
  assumes "is_order ord"
  shows "set (ord ks) = set ks" "distinct (ord ks) = distinct ks" "length (ord ks) = length ks"
proof -
  have "mset (ord ks) = mset ks" using assms by (simp add: is_order_def)
  then show "set (ord ks) = set ks" "distinct (ord ks) = distinct ks" "length (ord ks) = length ks"
    using mset_eq_imp_distinct_iff mset_eq_setD mset_eq_length by blast+
qed

lemma hm_ok_Nil [simp]: "hm_ok []" and hm_get_Nil [simp]: "hm_get [] k = None"
  by (simp_all add: hm_ok_def hm_get_def)

lemma hm_get_insert [simp]: "hm_get (hm_insert k v m) k' = (if k' = k then Some v else hm_get m k')"
  by (simp add: hm_get_def hm_insert_def update_conv')

lemma hm_ok_insert [simp]: "hm_ok m \<Longrightarrow> hm_ok (hm_insert k v m)"
  by (simp add: hm_ok_def hm_insert_def distinct_update)

lemma hm_get_retain:
  "hm_ok m \<Longrightarrow> hm_get (hm_retain p m) k =
     (case hm_get m k of None \<Rightarrow> None | Some v \<Rightarrow> if p k v then Some v else None)"
  by (induction m) (auto simp: hm_get_def hm_retain_def hm_ok_def map_of_eq_None_iff image_iff
      split: option.splits if_splits dest: map_of_SomeD)

lemma hm_remove_retain: "hm_remove k m = hm_retain (\<lambda>k' v. k' \<noteq> k) m"
  by (simp add: hm_remove_def hm_retain_def)

lemma hm_ok_retain [simp]: "hm_ok m \<Longrightarrow> hm_ok (hm_retain p m)"
  by (induction m) (auto simp: hm_ok_def hm_retain_def)

lemma hm_ok_remove [simp]: "hm_ok m \<Longrightarrow> hm_ok (hm_remove k m)"
  by (simp add: hm_remove_retain)

lemma hm_get_remove [simp]: "hm_get (hm_remove k m) k' = (if k' = k then None else hm_get m k')"
  by (induction m) (auto simp: hm_get_def hm_remove_def)

lemma hm_retain_length: "length (hm_retain p m) \<le> length m"
  by (simp add: hm_retain_def)

lemma hm_remove_length: "length (hm_remove k m) \<le> length m"
  by (simp add: hm_remove_def)

lemma hm_get_in_iff: "hm_get m k = None \<longleftrightarrow> k \<notin> set (map fst m)"
  by (simp add: hm_get_def map_of_eq_None_iff)

lemma hm_get_mem: "hm_get m k = Some v \<Longrightarrow> (k, v) \<in> set m"
  by (simp add: hm_get_def map_of_SomeD)

lemma hm_mem_get: "hm_ok m \<Longrightarrow> (k, v) \<in> set m \<Longrightarrow> hm_get m k = Some v"
  by (simp add: hm_get_def hm_ok_def)

lemma hm_sub:
  assumes "hm_ok m" "\<And>k v. hm_get m k = Some v \<Longrightarrow> hm_get m' k = Some v"
  shows "set m \<subseteq> set m'"
proof (rule subrelI)
  fix k v assume "(k, v) \<in> set m"
  then show "(k, v) \<in> set m'" using hm_mem_get [OF assms(1)] assms(2) hm_get_mem by metis
qed

lemma hm_insert_length:
  "length (hm_insert k v m) = (if hm_get m k = None then Suc (length m) else length m)"
  unfolding hm_get_in_iff hm_insert_def by (induction m) auto

lemma hm_insert_mem: "e \<in> set (hm_insert k v m) \<Longrightarrow> e = (k, v) \<or> e \<in> set m"
  unfolding hm_insert_def by (induction m) (auto split: if_splits)

lemma hm_ok_length_mono: "hm_ok m \<Longrightarrow> set m \<subseteq> set m' \<Longrightarrow> length m \<le> length m'"
  by (metis List.finite_set card_length card_mono distinct_card distinct_map hm_ok_def le_trans)

lemma hm_remove_absent: "hm_get m k = None \<Longrightarrow> hm_remove k m = m"
  unfolding hm_get_in_iff hm_remove_def by (induction m) auto

lemma hm_remove_length_present:
  "hm_ok m \<Longrightarrow> hm_get m k \<noteq> None \<Longrightarrow> Suc (length (hm_remove k m)) = length m"
proof (induction m)
  case (Cons e m)
  have "filter (\<lambda>x. fst x \<noteq> fst e) m = m"
    using Cons.prems(1) by (auto simp: hm_ok_def image_iff intro!: filter_True)
  then show ?case
    using Cons by (cases "fst e = k") (auto simp: hm_get_in_iff hm_ok_def hm_remove_def)
qed (simp add: hm_get_in_iff)

lemma hm_ok_remove_all [simp]: "hm_ok m \<Longrightarrow> hm_ok (hm_remove_all ks m)"
  by (induction ks arbitrary: m) simp_all

lemma hm_get_remove_all [simp]:
  "hm_get (hm_remove_all ks m) k = (if k \<in> set ks then None else hm_get m k)"
  by (induction ks arbitrary: m) auto

lemma hm_remove_all_filter: "hm_remove_all ks m = filter (\<lambda>e. fst e \<notin> set ks) m"
  by (induction ks arbitrary: m) (auto simp: hm_remove_def intro!: filter_cong)

lemma hm_remove_all_length:
  "hm_ok m \<Longrightarrow> distinct ks \<Longrightarrow> set ks \<subseteq> set (map fst m) \<Longrightarrow>
     length (hm_remove_all ks m) + length ks = length m"
proof (induction ks arbitrary: m)
  case (Cons k ks)
  have "hm_get m k \<noteq> None" using Cons.prems(3) by (simp add: hm_get_in_iff)
  moreover have "set ks \<subseteq> set (map fst (hm_remove k m))"
    using Cons.prems by (force simp: hm_remove_def)
  ultimately show ?case
    using Cons.IH [of "hm_remove k m"] Cons.prems hm_remove_length_present [of m k] by simp
qed simp

text \<open>Dropping the first \<open>n\<close> keys of the iteration order removes exactly \<open>n\<close> entries.\<close>

lemma hm_drop_keys_length:
  assumes "hm_ok m" "is_order ord" "n \<le> length m"
  shows "length (hm_remove_all (take n (hm_keys ord m)) m) = length m - n"
proof -
  note ord = is_orderD [OF assms(2), of "map fst m"]
  have "length (hm_remove_all (take n (hm_keys ord m)) m) + length (take n (hm_keys ord m)) = length m"
    using assms(1) ord by (intro hm_remove_all_length) (auto simp: hm_keys_def hm_ok_def dest: in_set_takeD)
  then show ?thesis using ord(3) assms(3) by (simp add: hm_keys_def)
qed

end
