(* ===== verification/Expiring_Store.thy ===== *)
theory Expiring_Store
  imports Hash_Map
begin

text \<open>
  The contract that the two bounded tables of the DNS forwarder share, the IP-to-domain table and the
  DoH response cache: a size cap, entries that answer until their deadline, and an eviction that may
  drop entries but never invents one.  \<open>expiring_store\<close> states the contract and proves what follows
  for a whole sequence of insertions; \<open>evict\<close> is the eviction policy both of them follow, over a
  predicate that tells the entries still alive.
\<close>

locale expiring_store =
  fixes get :: "nat \<Rightarrow> 'k \<Rightarrow> 's \<Rightarrow> 'v option"
    and put :: "'env \<Rightarrow> 'k \<Rightarrow> 'v \<Rightarrow> nat \<Rightarrow> 's \<Rightarrow> 's"
    and entries :: "'s \<Rightarrow> nat"
    and ok :: "'s \<Rightarrow> bool"
    and fair :: "'env \<Rightarrow> bool"
    and cap :: nat
  assumes put_ok: "ok s \<Longrightarrow> fair env \<Longrightarrow> ok (put env k v d s)"
    and put_bounded: "ok s \<Longrightarrow> fair env \<Longrightarrow> entries s \<le> cap \<Longrightarrow> entries (put env k v d s) \<le> cap"
    and put_grows: "ok s \<Longrightarrow> fair env \<Longrightarrow> entries (put env k v d s) \<le> Suc (entries s)"
    and get_put_same: "ok s \<Longrightarrow> fair env \<Longrightarrow> get t k (put env k v d s) = (if t < d then Some v else None)"
    and get_put_other: "ok s \<Longrightarrow> fair env \<Longrightarrow> k' \<noteq> k \<Longrightarrow>
          get t k' (put env k v d s) = None \<or> get t k' (put env k v d s) = get t k' s"
    and get_put_room: "ok s \<Longrightarrow> fair env \<Longrightarrow> entries s < cap \<Longrightarrow> k' \<noteq> k \<Longrightarrow>
          get t k' (put env k v d s) = get t k' s"
begin

fun put_all :: "('env \<times> 'k \<times> 'v \<times> nat) list \<Rightarrow> 's \<Rightarrow> 's" where
  "put_all [] s = s"
| "put_all ((env, k, v, d) # ops) s = put_all ops (put env k v d s)"

definition all_fair :: "('env \<times> 'k \<times> 'v \<times> nat) list \<Rightarrow> bool" where
  "all_fair ops \<longleftrightarrow> list_all (\<lambda>(env, _). fair env) ops"

lemma all_fair_simps [simp]:
  "all_fair []" "all_fair ((env, k, v, d) # ops) \<longleftrightarrow> fair env \<and> all_fair ops"
  "all_fair (ops @ ops') \<longleftrightarrow> all_fair ops \<and> all_fair ops'"
  by (simp_all add: all_fair_def)

lemma put_all_ok: "ok s \<Longrightarrow> all_fair ops \<Longrightarrow> ok (put_all ops s)"
  by (induction ops s rule: put_all.induct) (simp_all add: put_ok)

lemma put_all_bounded:
  "ok s \<Longrightarrow> all_fair ops \<Longrightarrow> entries s \<le> cap \<Longrightarrow> entries (put_all ops s) \<le> cap"
  by (induction ops s rule: put_all.induct) (simp_all add: put_ok put_bounded)

lemma put_all_grows:
  "ok s \<Longrightarrow> all_fair ops \<Longrightarrow> entries (put_all ops s) \<le> entries s + length ops"
proof (induction ops s rule: put_all.induct)
  case (2 env k v d ops s)
  then show ?case using put_grows [of s env k v d] by (simp add: put_ok)
qed simp

text \<open>An answer was put for its key, and its deadline has not passed.\<close>

lemma put_all_provenance:
  "ok s \<Longrightarrow> all_fair ops \<Longrightarrow> get t k (put_all ops s) = Some v \<Longrightarrow>
     get t k s = Some v \<or> (\<exists>env d. (env, k, v, d) \<in> set ops \<and> t < d)"
proof (induction ops s rule: put_all.induct)
  case (2 env k' v' d ops s)
  then consider "get t k (put env k' v' d s) = Some v" | "\<exists>env d. (env, k, v, d) \<in> set ops \<and> t < d"
    by (auto simp: put_ok)
  then show ?case
  proof cases
    case 1
    then show ?thesis
      using "2.prems"(1,2) get_put_same [of s env t k' v' d] get_put_other [of s env k k' t v' d]
      by (cases "k = k'") (auto split: if_splits)
  qed auto
qed simp

lemma put_all_untouched:
  "ok s \<Longrightarrow> all_fair ops \<Longrightarrow> entries s + length ops \<le> cap \<Longrightarrow> k \<notin> (\<lambda>(_, k, _). k) ` set ops \<Longrightarrow>
     get t k (put_all ops s) = get t k s"
proof (induction ops s rule: put_all.induct)
  case (2 env k' v' d ops s)
  then show ?case
    using put_grows [of s env k' v' d] get_put_room [of s env k k' t v' d] by (simp add: put_ok)
qed simp

text \<open>As long as the cap is not reached, the last value put for a key answers until its deadline.\<close>

lemma put_all_latest:
  assumes "ok s" "all_fair (ops @ (env, k, v, d) # ops')"
    and "entries s + length (ops @ (env, k, v, d) # ops') \<le> cap"
    and "k \<notin> (\<lambda>(_, k, _). k) ` set ops'"
  shows "get t k (put_all (ops @ (env, k, v, d) # ops') s) = (if t < d then Some v else None)"
proof -
  define s1 where "s1 = put_all ops s"
  have s1: "ok s1" "entries s1 \<le> entries s + length ops"
    using assms(1,2) by (simp_all add: s1_def put_all_ok put_all_grows)
  have "put_all (ops @ (env, k, v, d) # ops') s = put_all ops' (put env k v d s1)"
    unfolding s1_def by (induction ops s rule: put_all.induct) simp_all
  moreover have "entries (put env k v d s1) + length ops' \<le> cap"
    using put_grows [of s1 env k v d] s1 assms(2,3) by simp
  ultimately show ?thesis
    using put_all_untouched [of "put env k v d s1" ops' k t] s1 assms(2,4)
      get_put_same [of s1 env t k v d] by (simp add: put_ok)
qed

end

section \<open>The eviction policy\<close>

definition evict :: "nat \<Rightarrow> ('k \<Rightarrow> 'v \<Rightarrow> bool) \<Rightarrow> 'k order \<Rightarrow> ('k, 'v) hash_map \<Rightarrow> ('k, 'v) hash_map" where
  "evict cap alive ord m =
     (if cap \<le> length m then
        let m = hm_retain alive m in
        if cap \<le> length m then hm_remove_all (take (cap div 2) (hm_keys ord m)) m else m
      else m)"

lemma evict_ok: "hm_ok m \<Longrightarrow> hm_ok (evict cap alive ord m)"
  by (simp add: evict_def Let_def)

lemma evict_subset: "set (evict cap alive ord m) \<subseteq> set m"
  by (auto simp: evict_def Let_def hm_remove_all_filter hm_retain_def)

lemma evict_room:
  assumes "hm_ok m" "is_order ord" "length m \<le> cap" "2 \<le> cap"
  shows "length (evict cap alive ord m) < cap"
proof -
  let ?m = "hm_retain alive m"
  have "length ?m \<le> cap" using hm_retain_length [of alive m] assms(3) by simp
  moreover have "cap div 2 \<le> length ?m \<Longrightarrow>
      length (hm_remove_all (take (cap div 2) (hm_keys ord ?m)) ?m) = length ?m - cap div 2"
    using assms(1,2) by (intro hm_drop_keys_length) simp_all
  moreover have "0 < cap div 2" using assms(4) by simp
  ultimately show ?thesis using assms(3,4) by (auto simp: evict_def Let_def)
qed

lemma evict_below: "length m < cap \<Longrightarrow> evict cap alive ord m = m"
  by (simp add: evict_def)

lemma evict_shrinks:
  assumes "hm_ok m" "is_order ord"
  shows "length (evict cap alive ord m) \<le> length m"
proof -
  let ?m = "hm_retain alive m"
  have "cap \<le> length ?m \<Longrightarrow> length (hm_remove_all (take (cap div 2) (hm_keys ord ?m)) ?m) \<le> length ?m"
    using assms hm_drop_keys_length [of ?m ord "cap div 2"] by simp
  then show ?thesis
    using hm_retain_length [of alive m] by (auto simp: evict_def Let_def)
qed

lemma evict_get:
  "hm_ok m \<Longrightarrow> hm_get (evict cap alive ord m) k = None \<or> hm_get (evict cap alive ord m) k = hm_get m k"
  by (auto simp: evict_def Let_def hm_get_retain split: option.splits)

text \<open>When dropping the dead entries makes room, every entry that is alive is kept.\<close>

lemma evict_keeps_alive:
  assumes "hm_ok m" "length (hm_retain alive m) < cap" "hm_get m k = Some v" "alive k v"
  shows "hm_get (evict cap alive ord m) k = Some v"
  using assms by (simp add: evict_def Let_def hm_get_retain)

end
