(* ===== verification/Dns_Table.thy ===== *)
theory Dns_Table
  imports Dns_Message Expiring_Store
begin

text \<open>
  The shared IP-to-domain table \<open>DnsTable\<close> of \<^verbatim>\<open>src/src/dns.rs\<close>.  An \<open>Instant\<close> is a natural number
  of nanoseconds on the monotonic clock.  Each call of \<open>Instant::now()\<close> and each iteration over the
  hash map is an input: an \<open>insert_env\<close> holds the readings of one call of \<open>insert\<close>.
\<close>

definition SECOND :: nat where "SECOND = 1000000000"

definition from_secs :: "u32 \<Rightarrow> nat" where
  "from_secs s = unat s * SECOND"

definition MAX_CACHE_ENTRIES :: nat where "MAX_CACHE_ENTRIES = 10000"
definition TABLE_TTL_FLOOR :: u32 where "TABLE_TTL_FLOOR = 300"
definition TABLE_TTL_CEIL :: u32 where "TABLE_TTL_CEIL = 86400"

type_synonym dns_table = "(ip_addr, string \<times> nat) hash_map"

record insert_env =
  at_start :: nat
  at_evict :: nat
  key_order :: "ip_addr order"

definition new_table :: dns_table where
  "new_table = []"

definition table_lookup :: "nat \<Rightarrow> dns_table \<Rightarrow> ip_addr \<Rightarrow> string option" where
  "table_lookup now table ip =
     (case hm_get table ip of
        None \<Rightarrow> None
      | Some (domain, expires) \<Rightarrow> if expires \<le> now then None else Some domain)"

definition table_evict :: "insert_env \<Rightarrow> dns_table \<Rightarrow> dns_table" where
  "table_evict env table =
     (if MAX_CACHE_ENTRIES \<le> length table then
        let table = hm_retain (\<lambda>_ (_, exp). at_evict env < exp) table in
        if MAX_CACHE_ENTRIES \<le> length table then
          hm_remove_all (take (MAX_CACHE_ENTRIES div 2) (hm_keys (key_order env) table)) table
        else table
      else table)"

definition table_insert :: "insert_env \<Rightarrow> ip_addr \<Rightarrow> string \<Rightarrow> u32 \<Rightarrow> dns_table \<Rightarrow> dns_table" where
  "table_insert env ip domain ttl_secs table =
     (let expires = at_start env + from_secs ttl_secs in
      hm_insert ip (domain, expires) (table_evict env table))"

text \<open>\<open>u32::clamp\<close>\<close>

definition clamp :: "u32 \<Rightarrow> u32 \<Rightarrow> u32 \<Rightarrow> u32" where
  "clamp x lo hi = (if x < lo then lo else if hi < x then hi else x)"

definition table_ttl :: "bytes \<Rightarrow> u32 exec" where
  "table_ttl response = do {
     ttl \<leftarrow> extract_min_ttl response;
     Some (clamp (case ttl of None \<Rightarrow> TABLE_TTL_FLOOR | Some t \<Rightarrow> t) TABLE_TTL_FLOOR TABLE_TTL_CEIL) }"

text \<open>
  The block that every forwarding path runs on a response: parse its addresses and insert each of
  them under the query name.  The \<open>n\<close>th call of \<open>insert\<close> has the inputs \<open>envs n\<close>.
\<close>

fun insert_ips :: "(nat \<Rightarrow> insert_env) \<Rightarrow> string \<Rightarrow> u32 \<Rightarrow> ip_addr list \<Rightarrow> dns_table \<Rightarrow> dns_table" where
  "insert_ips envs name ttl [] table = table"
| "insert_ips envs name ttl (ip # ips) table =
     insert_ips (\<lambda>n. envs (Suc n)) name ttl ips (table_insert (envs 0) ip name ttl table)"

definition record_answers :: "(nat \<Rightarrow> insert_env) \<Rightarrow> string \<Rightarrow> bytes \<Rightarrow> dns_table \<Rightarrow> dns_table exec" where
  "record_answers envs name response table = do {
     resolved_ips \<leftarrow> parse_ip_records response;
     case resolved_ips of
       None \<Rightarrow> Some table
     | Some ips \<Rightarrow> do { ttl \<leftarrow> table_ttl response; Some (insert_ips envs name ttl ips table) } }"

section \<open>The table is an expiring store\<close>

definition table_put :: "insert_env \<Rightarrow> ip_addr \<Rightarrow> string \<Rightarrow> nat \<Rightarrow> dns_table \<Rightarrow> dns_table" where
  "table_put env ip domain expires table = hm_insert ip (domain, expires) (table_evict env table)"

lemma table_evict_evict:
  "table_evict env = evict MAX_CACHE_ENTRIES (\<lambda>_ (_, exp). at_evict env < exp) (key_order env)"
  by (rule ext) (simp add: table_evict_def evict_def Let_def)

lemma table_insert_put:
  "table_insert (env :: insert_env) ip domain ttl = table_put env ip domain (at_start env + from_secs ttl)"
  by (rule ext) (simp add: table_insert_def table_put_def Let_def)

interpretation tbl: expiring_store
  "\<lambda>t k m. table_lookup t m k" table_put length hm_ok "\<lambda>env. is_order (key_order env)" MAX_CACHE_ENTRIES
proof unfold_locales
  fix m :: dns_table and env :: insert_env and k v d k' t
  assume ok: "hm_ok m" and fair: "is_order (key_order env)"
  show "hm_ok (table_put env k v d m)"
    using ok by (simp add: table_put_def table_evict_evict evict_ok)
  show "length (table_put env k v d m) \<le> MAX_CACHE_ENTRIES" if "length m \<le> MAX_CACHE_ENTRIES"
    using evict_room [OF ok fair that, of "\<lambda>_ (_, exp). at_evict env < exp"]
    by (simp add: table_put_def table_evict_evict hm_insert_length MAX_CACHE_ENTRIES_def)
  show "length (table_put env k v d m) \<le> Suc (length m)"
    using evict_shrinks [OF ok fair, of MAX_CACHE_ENTRIES "\<lambda>_ (_, exp). at_evict env < exp"]
    by (simp add: table_put_def table_evict_evict hm_insert_length)
  show "table_lookup t (table_put env k v d m) k = (if t < d then Some v else None)"
    by (simp add: table_lookup_def table_put_def)
  show "table_lookup t (table_put env k v d m) k' = None \<or>
        table_lookup t (table_put env k v d m) k' = table_lookup t m k'" if "k' \<noteq> k"
    using that evict_get [OF ok, of MAX_CACHE_ENTRIES "\<lambda>_ (_, exp). at_evict env < exp" "key_order env" k']
    by (auto simp: table_lookup_def table_put_def table_evict_evict)
  show "table_lookup t (table_put env k v d m) k' = table_lookup t m k'"
    if "length m < MAX_CACHE_ENTRIES" "k' \<noteq> k"
    using that by (simp add: table_lookup_def table_put_def table_evict_evict evict_below)
qed

text \<open>A history of calls of \<open>insert\<close>, and the puts it makes.\<close>

type_synonym table_call = "insert_env \<times> ip_addr \<times> string \<times> u32"

fun table_run :: "table_call list \<Rightarrow> dns_table \<Rightarrow> dns_table" where
  "table_run [] table = table"
| "table_run ((env, ip, domain, ttl) # calls) table =
     table_run calls (table_insert env ip domain ttl table)"

definition call_put :: "table_call \<Rightarrow> insert_env \<times> ip_addr \<times> string \<times> nat" where
  "call_put = (\<lambda>(env, ip, domain, ttl). (env, ip, domain, at_start env + from_secs ttl))"

definition calls_fair :: "table_call list \<Rightarrow> bool" where
  "calls_fair calls \<longleftrightarrow> list_all (\<lambda>(env :: insert_env, _). is_order (key_order env)) calls"

lemma table_run_put_all: "table_run calls table = tbl.put_all (map call_put calls) table"
  by (induction calls table rule: table_run.induct) (simp_all add: call_put_def table_insert_put)

lemma calls_fair_all_fair: "calls_fair calls \<Longrightarrow> tbl.all_fair (map call_put calls)"
  by (induction calls) (auto simp: calls_fair_def call_put_def)

lemma insert_ips_run:
  "insert_ips envs name ttl ips table =
     table_run (map (\<lambda>n. (envs n, ips ! n, name, ttl)) [0..<length ips]) table"
proof (induction ips arbitrary: envs table)
  case (Cons ip ips)
  have "map (\<lambda>n. (envs n, (ip # ips) ! n, name, ttl)) [0..<length (ip # ips)] =
        (envs 0, ip, name, ttl) # map (\<lambda>n. (envs (Suc n), ips ! n, name, ttl)) [0..<length ips]"
    by (simp add: upt_conv_Cons map_Suc_upt [symmetric] del: upt_Suc)
  then show ?case by (simp only: insert_ips.simps Cons.IH table_run.simps)
qed simp

lemma table_ttl_no_panic [no_panic]: "runs (table_ttl response)"
  unfolding table_ttl_def by (intro no_panic) simp

lemma record_answers_no_panic [no_panic]: "runs (record_answers envs name response table)"
  unfolding record_answers_def by (auto intro!: no_panic)

lemma clamp_bounds: "lo \<le> hi \<Longrightarrow> lo \<le> clamp x lo hi \<and> clamp x lo hi \<le> hi"
  by (auto simp: clamp_def)

section \<open>Properties\<close>

lemma call_put_mem:
  "(env, ip, d, e) \<in> call_put ` set calls \<Longrightarrow>
     \<exists>ttl. (env, ip, d, ttl) \<in> set calls \<and> e = at_start env + from_secs ttl"
  by (auto simp: call_put_def)

text \<open>
  C34. Starting from an empty table, no sequence of inserts makes the table larger than
  \<open>MAX_CACHE_ENTRIES\<close>, and a lookup at time \<open>t\<close> only answers a domain that was inserted for that very
  address by a call whose deadline \<open>t\<close> has not reached.
\<close>

theorem dns_table_sound:
  assumes "calls_fair calls"
  shows "length (table_run calls new_table) \<le> MAX_CACHE_ENTRIES \<and>
         (table_lookup t (table_run calls new_table) ip = Some domain \<longrightarrow>
            (\<exists>env ttl. (env, ip, domain, ttl) \<in> set calls \<and> t < at_start env + from_secs ttl))"
proof -
  note fair = calls_fair_all_fair [OF assms]
  have "length (table_run calls new_table) \<le> MAX_CACHE_ENTRIES"
    unfolding table_run_put_all
    by (rule tbl.put_all_bounded [OF _ fair]) (simp_all add: new_table_def MAX_CACHE_ENTRIES_def)
  moreover have "\<exists>env ttl. (env, ip, domain, ttl) \<in> set calls \<and> t < at_start env + from_secs ttl"
    if "table_lookup t (table_run calls new_table) ip = Some domain"
  proof -
    have "hm_ok new_table" "table_lookup t new_table ip = None"
      by (simp_all add: new_table_def table_lookup_def)
    moreover note answer = that [unfolded table_run_put_all]
    ultimately obtain env d where "(env, ip, domain, d) \<in> call_put ` set calls" "t < d"
      using tbl.put_all_provenance [OF _ fair, of new_table t ip domain]
      by auto
    then show ?thesis using call_put_mem by blast
  qed
  ultimately show ?thesis by blast
qed

definition example_env :: "nat \<Rightarrow> insert_env" where
  "example_env t = \<lparr>at_start = t, at_evict = t, key_order = rev\<rparr>"

theorem dns_table_sound_witness:
  "length (table_run [(example_env 5, IpV4 (Ipv4 10 0 0 1), ''a'', 300)] new_table) \<le> 10000"
  using dns_table_sound [of "[(example_env 5, IpV4 (Ipv4 10 0 0 1), ''a'', 300)]"]
  by (simp add: calls_fair_def example_env_def MAX_CACHE_ENTRIES_def)

text \<open>
  Until the table has seen \<open>MAX_CACHE_ENTRIES\<close> inserts, a lookup answers the domain of the last
  insert for its address, up to the nanosecond at which that insert's TTL runs out.
\<close>

theorem dns_table_latest:
  assumes "calls_fair (calls @ (env, ip, domain, ttl) # later)"
    and "length calls + 1 + length later \<le> MAX_CACHE_ENTRIES"
    and "ip \<notin> (\<lambda>(_, ip, _). ip) ` set later"
  shows "table_lookup t (table_run (calls @ (env, ip, domain, ttl) # later) new_table) ip =
         (if t < at_start env + from_secs ttl then Some domain else None)"
proof -
  have "tbl.all_fair (map call_put calls @ (env, ip, domain, at_start env + from_secs ttl) # map call_put later)"
    using calls_fair_all_fair [OF assms(1)] by (simp add: call_put_def)
  moreover have "ip \<notin> (\<lambda>(_, k, _). k) ` set (map call_put later)"
    using assms(3) by (force simp: call_put_def)
  ultimately show ?thesis
    using tbl.put_all_latest [of new_table "map call_put calls" env ip domain
        "at_start env + from_secs ttl" "map call_put later" t] assms(2)
    by (simp add: table_run_put_all new_table_def call_put_def)
qed

theorem dns_table_latest_witness:
  "table_lookup 301000000004 (table_run
     [(example_env 1, IpV4 (Ipv4 10 0 0 1), ''old'', 300), (example_env 5, IpV4 (Ipv4 10 0 0 1), ''new'', 301),
      (example_env 9, IpV4 (Ipv4 10 0 0 2), ''x'', 300)] new_table) (IpV4 (Ipv4 10 0 0 1)) = Some ''new''"
  using dns_table_latest [of "[(example_env 1, IpV4 (Ipv4 10 0 0 1), ''old'', 300)]" "example_env 5"
      "IpV4 (Ipv4 10 0 0 1)" "''new''" 301 "[(example_env 9, IpV4 (Ipv4 10 0 0 2), ''x'', 300)]" 301000000004]
  by (simp add: calls_fair_def example_env_def MAX_CACHE_ENTRIES_def from_secs_def SECOND_def)

text \<open>
  Inserting into a table at its cap never loses an entry that has not expired, as long as some
  entry has: expired entries are evicted first, and dropping half of the keys is only the fallback.
\<close>

theorem table_insert_keeps_unexpired:
  assumes "hm_ok table" and "(ip', d', e') \<in> set table" and "e' \<le> at_evict env"
    and "length table \<le> MAX_CACHE_ENTRIES"
    and "hm_get table k = Some (d, e)" "at_evict env < e" "k \<noteq> ip"
  shows "hm_get (table_insert env ip domain ttl table) k = Some (d, e)"
proof -
  let ?alive = "\<lambda>_ (_, exp). at_evict env < exp"
  have "length (hm_retain ?alive table) < length table"
    unfolding hm_retain_def using assms(2,3) by (intro length_filter_less [of "(ip', d', e')"]) auto
  then have "hm_get (evict MAX_CACHE_ENTRIES ?alive (key_order env) table) k = Some (d, e)"
    using assms by (intro evict_keeps_alive) simp_all
  then show ?thesis
    using assms(7) by (simp add: table_insert_put table_put_def table_evict_evict)
qed

theorem table_insert_keeps_unexpired_witness:
  "hm_get (table_insert (example_env 7) (IpV4 (Ipv4 9 9 9 9)) ''n'' 300
     [(IpV4 (Ipv4 1 1 1 1), ''a'', 7), (IpV4 (Ipv4 2 2 2 2), ''b'', 8)]) (IpV4 (Ipv4 2 2 2 2)) =
   Some (''b'', 8)"
  by (rule table_insert_keeps_unexpired [of _ "IpV4 (Ipv4 1 1 1 1)" "''a''" 7])
     (simp_all add: example_env_def hm_ok_def hm_get_def MAX_CACHE_ENTRIES_def)

text \<open>
  Recording a response: after \<open>record_answers\<close> on a well-formed response, every address of its A
  and AAAA answers maps to the query name for at least the response's smallest TTL clamped to
  300..86400 seconds, and the other addresses answer as before.
\<close>

lemma insert_ips_lookup:
  assumes "hm_ok table" "length table + length ips \<le> MAX_CACHE_ENTRIES" "\<And>n. is_order (key_order (envs n))"
  shows "hm_ok (insert_ips envs name ttl ips table) \<and>
    (ip \<notin> set ips \<longrightarrow> table_lookup t (insert_ips envs name ttl ips table) ip = table_lookup t table ip) \<and>
    (ip \<in> set ips \<longrightarrow> (\<forall>n. t < at_start (envs n) + from_secs ttl) \<longrightarrow>
       table_lookup t (insert_ips envs name ttl ips table) ip = Some name)"
  using assms
proof (induction ips arbitrary: envs table)
  case (Cons x ips)
  let ?table = "table_insert (envs 0) x name ttl table"
  have *: "hm_ok ?table" "length ?table + length ips \<le> MAX_CACHE_ENTRIES"
    using Cons.prems tbl.put_grows [of table "envs 0" x name "at_start (envs 0) + from_secs ttl"]
    by (auto simp: table_insert_put tbl.put_ok)
  have **: "table_lookup t ?table ip =
      (if ip = x then if t < at_start (envs 0) + from_secs ttl then Some name else None
       else table_lookup t table ip)"
    using Cons.prems tbl.get_put_room [of table "envs 0" ip x t name "at_start (envs 0) + from_secs ttl"]
      tbl.get_put_same [of table "envs 0" t x name "at_start (envs 0) + from_secs ttl"]
    by (simp add: table_insert_put)
  show ?case
    using Cons.IH [OF *, of "\<lambda>n. envs (Suc n)"] Cons.prems(3) **
    by (cases "ip \<in> set ips"; cases "ip = x") simp_all
qed simp

theorem record_answers_correct:
  assumes "wf_message m" and "hm_ok table" and "\<And>n. is_order (key_order (envs n))"
    and "ips = concat (map rr_addrs (m_answers m))"
    and "length table + length ips \<le> MAX_CACHE_ENTRIES"
    and "ttl = Min (rr_ttl ` set (m_answers m))" and "ttl \<noteq> U32_MAX"
    and "\<And>n. t < at_start (envs n) + from_secs (clamp ttl 300 86400)"
  shows "\<exists>table'. record_answers envs name (enc_message m) table = Some table' \<and>
           (\<forall>ip \<in> set ips. table_lookup t table' ip = Some name) \<and>
           (\<forall>ip. ip \<notin> set ips \<longrightarrow> table_lookup t table' ip = table_lookup t table ip)"
proof (cases "ips = []")
  case True
  then show ?thesis
    using assms(4) parse_ip_records_enc [OF assms(1)] by (simp add: record_answers_def Let_def)
next
  case False
  then have "m_answers m \<noteq> []" using assms(4) by auto
  then have "\<exists>r \<in> set (m_answers m). rr_ttl r \<noteq> U32_MAX"
    using assms(6,7) Min_insert_max(2) by blast
  then have "table_ttl (enc_message m) = Some (clamp ttl 300 86400)"
    using assms(6) extract_min_ttl_enc [OF assms(1)]
    by (simp add: table_ttl_def TABLE_TTL_FLOOR_def TABLE_TTL_CEIL_def)
  moreover have "parse_ip_records (enc_message m) = Some (Some ips)"
    using parse_ip_records_enc [OF assms(1)] False unfolding assms(4) Let_def by (simp only: if_False)
  ultimately have "record_answers envs name (enc_message m) table =
      Some (insert_ips envs name (clamp ttl 300 86400) ips table)"
    by (simp add: record_answers_def)
  then show ?thesis
    using insert_ips_lookup [OF assms(2,5,3), where name = name and ttl = "clamp ttl 300 86400" and t = t]
      assms(8) by auto
qed

theorem record_answers_correct_witness:
  "\<exists>table. record_answers (\<lambda>n. example_env 0) ''ab.c'' (enc_message example_response) new_table = Some table \<and>
           table_lookup 299000000000 table (IpV4 (Ipv4 10 0 0 1)) = Some ''ab.c''"
proof -
  have "concat (map rr_addrs (m_answers example_response)) = [IpV4 (Ipv4 10 0 0 1)]"
    by (simp add: example_response_def rr_addrs_def DNS_CLASS_IN_def DNS_TYPE_A_def DNS_TYPE_AAAA_def)
  moreover have "Min (rr_ttl ` set (m_answers example_response)) = 40"
    by (simp add: example_response_def)
  ultimately show ?thesis
    using record_answers_correct [OF wf_example_response, of new_table "\<lambda>n. example_env 0"
        "[IpV4 (Ipv4 10 0 0 1)]" 40 299000000000 "''ab.c''"]
    by (auto simp: example_env_def new_table_def MAX_CACHE_ENTRIES_def U32_MAX_def clamp_def
        from_secs_def SECOND_def)
qed

end
