(* ===== verification/Dns_Cache.thy ===== *)
theory Dns_Cache
  imports Dns_Table
begin

text \<open>
  The TTL-aware response cache \<open>DnsCache\<close> of the DoH path of \<^verbatim>\<open>src/src/dns.rs\<close>.  A \<open>put_env\<close> holds the
  inputs of one call of \<open>put\<close>: its first reading of the clock, the reading made when the eviction
  scan looks at each key, and the iteration order of the map.
\<close>

definition MIN_TTL :: u32 where "MIN_TTL = 30"
definition MAX_TTL :: u32 where "MAX_TTL = 3600"

record cache_entry =
  ce_response :: bytes
  ce_inserted :: nat
  ce_expires :: nat

type_synonym dns_cache = "(bytes, cache_entry) hash_map"

record put_env =
  put_now :: nat
  put_clock :: "bytes \<Rightarrow> nat"
  put_order :: "bytes order"

definition new_cache :: dns_cache where
  "new_cache = []"

text \<open>\<open>elapsed().as_secs().min(u32::MAX as u64) as u32\<close>, the second reading being \<open>now\<close>.\<close>

definition elapsed_secs :: "nat \<Rightarrow> nat \<Rightarrow> u32" where
  "elapsed_secs inserted now = of_nat (min ((now - inserted) div SECOND) (unat U32_MAX))"

definition cache_get :: "nat \<Rightarrow> nat \<Rightarrow> dns_cache \<Rightarrow> bytes \<Rightarrow> u16 \<Rightarrow> bytes option exec" where
  "cache_get now now' cache key tx_id =
     (case hm_get cache key of
        None \<Rightarrow> Some None
      | Some entry \<Rightarrow>
          if ce_expires entry \<le> now then Some None
          else
            let resp = set_tx_id tx_id (ce_response entry);
                elapsed = elapsed_secs (ce_inserted entry) now' in
            if 0 < elapsed then do { (resp, _) \<leftarrow> rewrite_ttls resp elapsed; Some (Some resp) }
            else Some (Some resp))"

definition cache_evict :: "put_env \<Rightarrow> dns_cache \<Rightarrow> dns_cache" where
  "cache_evict env cache =
     (if MAX_CACHE_ENTRIES \<le> length cache then
        let stale = map fst (filter (\<lambda>(k, v). ce_expires v \<le> put_clock env k) cache);
            cache = hm_remove_all stale cache in
        if MAX_CACHE_ENTRIES \<le> length cache then
          hm_remove_all (take (MAX_CACHE_ENTRIES div 2) (hm_keys (put_order env) cache)) cache
        else cache
      else cache)"

definition cache_ttl :: "bytes \<Rightarrow> u32 exec" where
  "cache_ttl response = do {
     ttl \<leftarrow> extract_min_ttl response;
     Some (clamp (case ttl of None \<Rightarrow> MIN_TTL | Some t \<Rightarrow> t) MIN_TTL MAX_TTL) }"

definition cache_put :: "put_env \<Rightarrow> bytes \<Rightarrow> bytes \<Rightarrow> dns_cache \<Rightarrow> dns_cache exec" where
  "cache_put env key response cache = do {
     ttl \<leftarrow> cache_ttl response;
     let entry = \<lparr>ce_response = response, ce_inserted = put_now env,
                  ce_expires = put_now env + from_secs ttl\<rparr> in
     Some (hm_insert key entry (cache_evict env cache)) }"

section \<open>The cache is an expiring store\<close>

text \<open>What a lookup sees of an entry: the stored response and when it was stored.\<close>

definition cache_live :: "nat \<Rightarrow> bytes \<Rightarrow> dns_cache \<Rightarrow> (bytes \<times> nat) option" where
  "cache_live now key cache =
     (case hm_get cache key of
        None \<Rightarrow> None
      | Some e \<Rightarrow> if ce_expires e \<le> now then None else Some (ce_response e, ce_inserted e))"

definition cache_store :: "put_env \<Rightarrow> bytes \<Rightarrow> bytes \<times> nat \<Rightarrow> nat \<Rightarrow> dns_cache \<Rightarrow> dns_cache" where
  "cache_store env key v d cache =
     hm_insert key \<lparr>ce_response = fst v, ce_inserted = snd v, ce_expires = d\<rparr> (cache_evict env cache)"

definition cache_replay :: "nat \<Rightarrow> u16 \<Rightarrow> bytes \<times> nat \<Rightarrow> bytes exec" where
  "cache_replay now' tx_id v =
     (let resp = set_tx_id tx_id (fst v); elapsed = elapsed_secs (snd v) now' in
      if 0 < elapsed then do { (resp, _) \<leftarrow> rewrite_ttls resp elapsed; Some resp } else Some resp)"

lemma cache_get_live:
  "cache_get now now' cache key tx_id =
     (case cache_live now key cache of
        None \<Rightarrow> Some None | Some v \<Rightarrow> do { resp \<leftarrow> cache_replay now' tx_id v; Some (Some resp) })"
  by (auto simp: cache_get_def cache_live_def cache_replay_def Let_def split: option.split Option.bind_splits)

lemma cache_put_store:
  "cache_put env key response cache = do {
     ttl \<leftarrow> cache_ttl response;
     Some (cache_store env key (response, put_now env) (put_now env + from_secs ttl) cache) }"
  by (simp add: cache_put_def cache_store_def Let_def)

lemma cache_evict_evict:
  assumes "hm_ok cache"
  shows "cache_evict env cache =
         evict MAX_CACHE_ENTRIES (\<lambda>k v. put_clock env k < ce_expires v) (put_order env) cache"
proof -
  have "hm_remove_all (map fst (filter (\<lambda>(k, v). ce_expires v \<le> put_clock env k) cache)) cache =
        hm_retain (\<lambda>k v. put_clock env k < ce_expires v) cache"
    unfolding hm_remove_all_filter hm_retain_def
  proof (rule filter_cong [OF refl])
    fix e assume e: "e \<in> set cache"
    let ?stale = "\<lambda>e. ce_expires (snd e) \<le> put_clock env (fst e)"
    have "fst e \<in> set (map fst (filter (\<lambda>(k, v). ce_expires v \<le> put_clock env k) cache)) \<longleftrightarrow>
          (\<exists>e' \<in> set cache. fst e = fst e' \<and> ?stale e')"
      unfolding set_map set_filter image_iff case_prod_beta Bex_def mem_Collect_eq by blast
    also have "\<dots> \<longleftrightarrow> ?stale e"
    proof -
      have "inj_on fst (set cache)" using assms by (simp add: hm_ok_def distinct_map)
      with e show ?thesis by (auto dest: inj_onD)
    qed
    finally show "(fst e \<notin> set (map fst (filter (\<lambda>(k, v). ce_expires v \<le> put_clock env k) cache))) =
                  (put_clock env (fst e) < ce_expires (snd e))"
      by (simp add: not_le)
  qed
  then show ?thesis by (simp add: cache_evict_def evict_def Let_def)
qed

interpretation cst: expiring_store
  cache_live cache_store length hm_ok "\<lambda>env. is_order (put_order env)" MAX_CACHE_ENTRIES
proof unfold_locales
  fix m :: dns_cache and env :: put_env and k k' d t and v :: "bytes \<times> nat"
  let ?alive = "\<lambda>k v. put_clock env k < ce_expires v"
  assume ok: "hm_ok m" and fair: "is_order (put_order env)"
  note ev = cache_evict_evict [OF ok, of env]
  show "hm_ok (cache_store env k v d m)"
    using ok by (simp add: cache_store_def ev evict_ok)
  show "length (cache_store env k v d m) \<le> MAX_CACHE_ENTRIES" if "length m \<le> MAX_CACHE_ENTRIES"
    using evict_room [OF ok fair that, of ?alive]
    by (simp add: cache_store_def ev hm_insert_length MAX_CACHE_ENTRIES_def)
  show "length (cache_store env k v d m) \<le> Suc (length m)"
    using evict_shrinks [OF ok fair, of MAX_CACHE_ENTRIES ?alive]
    by (simp add: cache_store_def ev hm_insert_length)
  show "cache_live t k (cache_store env k v d m) = (if t < d then Some v else None)"
    by (simp add: cache_live_def cache_store_def)
  show "cache_live t k' (cache_store env k v d m) = None \<or>
        cache_live t k' (cache_store env k v d m) = cache_live t k' m" if "k' \<noteq> k"
    using that evict_get [OF ok, of MAX_CACHE_ENTRIES ?alive "put_order env" k']
    by (auto simp: cache_live_def cache_store_def ev)
  show "cache_live t k' (cache_store env k v d m) = cache_live t k' m"
    if "length m < MAX_CACHE_ENTRIES" "k' \<noteq> k"
    using that by (simp add: cache_live_def cache_store_def ev evict_below)
qed

text \<open>A history of calls of \<open>put\<close>.\<close>

type_synonym cache_call = "put_env \<times> bytes \<times> bytes"

fun cache_run :: "cache_call list \<Rightarrow> dns_cache \<Rightarrow> dns_cache exec" where
  "cache_run [] cache = Some cache"
| "cache_run ((env, key, response) # calls) cache =
     do { cache \<leftarrow> cache_put env key response cache; cache_run calls cache }"

lemma cache_ttl_no_panic [no_panic]: "runs (cache_ttl response)"
  unfolding cache_ttl_def by (intro no_panic) simp

lemma cache_put_no_panic [no_panic]: "runs (cache_put env key response cache)"
  unfolding cache_put_store by (intro no_panic) simp

lemma cache_replay_no_panic [no_panic]: "runs (cache_replay now tx v)"
  unfolding cache_replay_def Let_def by (auto intro!: no_panic split: prod.split)

lemma cache_get_no_panic [no_panic]: "runs (cache_get now now' cache key tx_id)"
  unfolding cache_get_live by (auto intro!: no_panic)

lemma cache_run_no_panic [no_panic]: "runs (cache_run calls cache)"
  by (induction calls cache rule: cache_run.induct) (auto intro!: no_panic)

text \<open>A history is a sequence of puts of the contract, one per call.\<close>

definition call_of :: "cache_call \<Rightarrow> put_env \<times> bytes \<times> (bytes \<times> nat) \<times> nat \<Rightarrow> bool" where
  "call_of call p \<longleftrightarrow> (case (call, p) of ((env, key, response), (env', key', v, d)) \<Rightarrow>
     env' = env \<and> key' = key \<and> v = (response, put_now env) \<and>
     (\<exists>ttl. cache_ttl response = Some ttl \<and> d = put_now env + from_secs ttl))"

lemma call_ofI:
  "cache_ttl response = Some ttl \<Longrightarrow>
     call_of (env, key, response) (env, key, (response, put_now env), put_now env + from_secs ttl)"
  by (simp add: call_of_def)

lemma cache_run_put_all:
  "cache_run calls cache = Some cache' \<Longrightarrow>
     \<exists>ops. cache' = cst.put_all ops cache \<and> list_all2 call_of calls ops"
proof (induction calls cache rule: cache_run.induct)
  case (2 env key response calls cache)
  from 2(2) obtain ttl where
    ttl: "cache_ttl response = Some ttl" and
    run: "cache_run calls (cache_store env key (response, put_now env) (put_now env + from_secs ttl) cache) =
          Some cache'"
    by (auto simp: cache_put_store split: Option.bind_splits)
  have "cache_put env key response cache =
        Some (cache_store env key (response, put_now env) (put_now env + from_secs ttl) cache)"
    by (simp add: cache_put_store ttl)
  from 2(1) [OF this run] obtain ops where
    "cache' = cst.put_all ops (cache_store env key (response, put_now env) (put_now env + from_secs ttl) cache)"
    "list_all2 call_of calls ops" by blast
  then show ?case
    using ttl by (intro exI [of _ "(env, key, (response, put_now env), put_now env + from_secs ttl) # ops"])
      (simp add: call_ofI)
qed simp

lemma call_of_fair:
  "list_all2 call_of calls ops \<Longrightarrow> list_all (\<lambda>(env, _). is_order (put_order env)) calls \<Longrightarrow>
     cst.all_fair ops"
  by (induction rule: list_all2_induct) (auto simp: call_of_def)

lemma call_of_mem:
  "list_all2 call_of calls ops \<Longrightarrow> p \<in> set ops \<Longrightarrow> \<exists>call \<in> set calls. call_of call p"
  by (induction rule: list_all2_induct) auto

section \<open>Transaction IDs\<close>

lemma set_tx_id_enc: "set_tx_id tx (enc_message m) = enc_message (m\<lparr>m_id := tx\<rparr>)"
  by (simp add: set_tx_id_def enc_message_def enc_header_def)

lemma wf_message_id [simp]: "wf_message (m\<lparr>m_id := tx\<rparr>) = wf_message m"
  by (simp add: wf_message_def)

lemma cache_ttl_enc:
  assumes "wf_message m" "\<exists>r \<in> set (m_answers m). rr_ttl r \<noteq> U32_MAX"
  shows "cache_ttl (enc_message m) = Some (clamp (Min (rr_ttl ` set (m_answers m))) 30 3600)"
  using assms(2) by (simp add: cache_ttl_def extract_min_ttl_enc [OF assms(1)] MIN_TTL_def MAX_TTL_def)

lemma cache_replay_enc:
  assumes "wf_message m" "elapsed_secs t0 now = k"
  shows "cache_replay now tx (enc_message m, t0) =
         Some (enc_message ((if 0 < k then age_message k m else m)\<lparr>m_id := tx\<rparr>))"
proof -
  have "age_message k (m\<lparr>m_id := tx\<rparr>) = (age_message k m)\<lparr>m_id := tx\<rparr>"
    by (simp add: age_message_def)
  then show ?thesis
    using rewrite_ttls_enc [of "m\<lparr>m_id := tx\<rparr>" k] assms
    by (simp add: cache_replay_def Let_def set_tx_id_enc)
qed

section \<open>Properties\<close>

lemma cache_put_get:
  assumes "wf_message m" and "\<exists>r \<in> set (m_answers m). rr_ttl r \<noteq> U32_MAX"
    and "ttl = clamp (Min (rr_ttl ` set (m_answers m))) 30 3600"
    and "k = elapsed_secs (put_now env) now'"
  shows "do { cache \<leftarrow> cache_put env key (enc_message m) cache; cache_get now now' cache key tx } =
         Some (if now < put_now env + from_secs ttl
               then Some (enc_message ((if 0 < k then age_message k m else m)\<lparr>m_id := tx\<rparr>)) else None)"
proof -
  have "cache_live now key (cache_store env key v d cache) = (if now < d then Some v else None)" for v d
    by (simp add: cache_live_def cache_store_def)
  then show ?thesis
    by (simp add: cache_put_store cache_ttl_enc [OF assms(1,2)] cache_get_live assms(3)
        cache_replay_enc [OF assms(1) assms(4) [symmetric]])
qed


definition example_put :: "nat \<Rightarrow> put_env" where
  "example_put t = \<lparr>put_now = t, put_clock = \<lambda>_. t, put_order = rev\<rparr>"


text \<open>
  After any history of puts the cache holds at most \<open>MAX_CACHE_ENTRIES\<close> responses, and a query is
  only answered from it with a response that was stored for a query equal to it in everything but
  the transaction ID, replayed under the new transaction ID.
\<close>

theorem cache_sound:
  assumes "list_all (\<lambda>(env, _). is_order (put_order env)) calls"
    and "list_all (\<lambda>(_, key, _). \<exists>q. 12 \<le> length q \<and> key = cache_key q) calls"
    and "12 \<le> length query"
    and "cache_run calls new_cache = Some cache"
    and "cache_get now now' cache (cache_key query) tx = Some (Some resp)"
  shows "length cache \<le> MAX_CACHE_ENTRIES \<and>
         (\<exists>env q response. (env, cache_key q, response) \<in> set calls \<and> drop 2 q = drop 2 query \<and>
            cache_replay now' tx (response, put_now env) = Some resp)"
proof -
  from cache_run_put_all [OF assms(4)] obtain ops where
    ops: "cache = cst.put_all ops new_cache" "list_all2 call_of calls ops" by blast
  note fair = call_of_fair [OF ops(2) assms(1)]
  have ok: "hm_ok new_cache" "cache_live now (cache_key query) new_cache = None"
    by (simp_all add: new_cache_def cache_live_def)
  obtain v where v: "cache_live now (cache_key query) cache = Some v" "cache_replay now' tx v = Some resp"
    using assms(5) by (auto simp: cache_get_live split: option.splits Option.bind_splits)
  with cst.put_all_provenance [OF ok(1) fair, of now "cache_key query" v] ops(1) ok(2)
  obtain env d where "(env, cache_key query, v, d) \<in> set ops" by auto
  from call_of_mem [OF ops(2) this] obtain response where
    call: "(env, cache_key query, response) \<in> set calls" "v = (response, put_now env)"
    by (auto simp: call_of_def)
  with assms(2) obtain q where q: "12 \<le> length q" "cache_key query = cache_key q"
    by (auto simp: list_all_iff)
  then have "drop 2 q = drop 2 query"
    using cache_key_eq_iff [of q query] assms(3) by simp
  moreover have "length cache \<le> MAX_CACHE_ENTRIES"
    unfolding ops(1) by (rule cst.put_all_bounded [OF ok(1) fair]) (simp add: new_cache_def)
  ultimately show ?thesis using call q v(2) by auto
qed

theorem cache_sound_witness:
  "\<exists>cache resp. cache_run [(example_put 0, cache_key (replicate 12 1), enc_message example_response)] new_cache =
       Some cache \<and>
     cache_get 5 5 cache (cache_key (2 # replicate 11 1)) 0x1234 = Some (Some resp) \<and> length cache \<le> 10000"
proof -
  let ?calls = "[(example_put 0, cache_key (replicate 12 1), enc_message example_response)]"
  obtain cache where put: "cache_put (example_put 0) (cache_key (replicate 12 1)) (enc_message example_response) new_cache =
      Some cache" using runsE [OF cache_put_no_panic] .
  then have run: "cache_run ?calls new_cache = Some cache" by simp
  have key: "cache_key (2 # replicate 11 (1 :: u8)) = cache_key (replicate 12 1)"
    by (simp add: cache_key_def numeral_nat)
  have "Min (rr_ttl ` set (m_answers example_response)) = 40"
    "\<exists>r \<in> set (m_answers example_response). rr_ttl r \<noteq> U32_MAX"
    by (simp_all add: example_response_def U32_MAX_def)
  then obtain resp where get: "cache_get 5 5 cache (cache_key (2 # replicate 11 1)) 0x1234 = Some (Some resp)"
    using cache_put_get [OF wf_example_response _ refl refl, of "example_put 0" "cache_key (replicate 12 1)"
        new_cache 5 5 "0x1234"] put key
    by (simp add: example_put_def clamp_def from_secs_def SECOND_def)
  have "length cache \<le> MAX_CACHE_ENTRIES"
    using cache_sound [OF _ _ _ run get]
    by (force simp: example_put_def)
  then show ?thesis using run get by (auto simp: MAX_CACHE_ENTRIES_def)
qed

end
