(* ===== verification/Dns_Pending.thy ===== *)
theory Dns_Pending
  imports Dns_Table
begin

text \<open>
  The map of outstanding upstream queries of \<^verbatim>\<open>src/src/dns.rs\<close> (\<open>PendingQuery\<close>, \<open>pending_insert\<close>,
  \<open>pending_take_match\<close>).  The random transaction IDs that one call of \<open>pending_insert\<close> draws, and the
  iteration order that each of its \<open>min_by_key\<close> scans meets, are inputs.
\<close>

definition PENDING_QUERY_TTL :: nat where "PENDING_QUERY_TTL = 5 * SECOND"
definition MAX_PENDING_QUERIES :: nat where "MAX_PENDING_QUERIES = 4096"

record pending_query =
  client_addr :: socket_addr
  client_tx_id :: u16
  pq_name :: string
  pq_qtype :: u16
  created :: nat

type_synonym pending_map = "(u16, pending_query) hash_map"

text \<open>\<open>now.duration_since(p.created) < PENDING_QUERY_TTL\<close>; the difference saturates at zero.\<close>

definition fresh_query :: "nat \<Rightarrow> pending_query \<Rightarrow> bool" where
  "fresh_query now p \<longleftrightarrow> now - created p < PENDING_QUERY_TTL"

text \<open>\<open>iter().min_by_key(|(_, p)| p.created)\<close>: the first of the entries with the least key.\<close>

fun min_by_created :: "pending_map \<Rightarrow> u16 list \<Rightarrow> u16 option" where
  "min_by_created pmap [] = None"
| "min_by_created pmap (k # ks) =
     (case min_by_created pmap ks of
        None \<Rightarrow> Some k
      | Some k' \<Rightarrow>
          (case (hm_get pmap k, hm_get pmap k') of
             (Some p, Some p') \<Rightarrow> if created p \<le> created p' then Some k else Some k'
           | _ \<Rightarrow> Some k))"

text \<open>
  The loop that enforces the cap; a \<open>None\<close> result is the early return of the \<open>?\<close> operator, and the
  outer \<open>None\<close> that the loop does not end.
\<close>

partial_function (option) evict_oldest ::
    "nat \<Rightarrow> (nat \<Rightarrow> u16 order) \<Rightarrow> pending_map \<Rightarrow> (bool \<times> pending_map) exec" where
  "evict_oldest i orders pmap =
     (if MAX_PENDING_QUERIES \<le> length pmap then
        (case min_by_created pmap (hm_keys (orders i) pmap) of
           None \<Rightarrow> Some (False, pmap)
         | Some oldest \<Rightarrow> evict_oldest (Suc i) orders (hm_remove oldest pmap))
      else Some (True, pmap))"

text \<open>The draws of \<open>rand::random()\<close>, until one hits a vacant entry.\<close>

fun draw_id :: "u16 list \<Rightarrow> pending_query \<Rightarrow> pending_map \<Rightarrow> u16 option \<times> pending_map" where
  "draw_id [] entry pmap = (None, pmap)"
| "draw_id (tid # ids) entry pmap =
     (if hm_get pmap tid = None then (Some tid, hm_insert tid entry pmap) else draw_id ids entry pmap)"

record pending_env =
  pe_orders :: "nat \<Rightarrow> u16 order"
  pe_random :: "nat \<Rightarrow> u16"

definition pending_insert ::
    "pending_env \<Rightarrow> pending_map \<Rightarrow> pending_query \<Rightarrow> nat \<Rightarrow> (u16 option \<times> pending_map) exec" where
  "pending_insert env map0 entry now = do {
     let swept = hm_retain (\<lambda>_ p. fresh_query now p) map0 in
     do {
       (found, map1) \<leftarrow> evict_oldest 0 (pe_orders env) swept;
       if found then Some (draw_id (map (pe_random env) [0..<64]) entry map1) else Some (None, map1)
     } }"

definition pending_take_match ::
    "pending_map \<Rightarrow> u16 \<Rightarrow> string \<Rightarrow> u16 \<Rightarrow> pending_query option \<times> pending_map" where
  "pending_take_match pmap tx_id resp_name resp_qtype =
     (case hm_get pmap tx_id of
        None \<Rightarrow> (None, pmap)
      | Some entry \<Rightarrow>
          if \<not> eq_ignore_ascii_case (pq_name entry) resp_name \<or> pq_qtype entry \<noteq> resp_qtype then (None, pmap)
          else (Some entry, hm_remove tx_id pmap))"

section \<open>The oldest entry\<close>

lemma min_by_created_None [simp]: "min_by_created m ks = None \<longleftrightarrow> ks = []"
  by (cases ks) (auto split: option.split)

lemma min_by_created_least:
  "min_by_created m ks = Some k \<Longrightarrow> \<forall>k \<in> set ks. hm_get m k \<noteq> None \<Longrightarrow>
     k \<in> set ks \<and> (\<exists>p. hm_get m k = Some p \<and>
       (\<forall>k' \<in> set ks. \<forall>p'. hm_get m k' = Some p' \<longrightarrow> created p \<le> created p'))"
proof (induction ks arbitrary: k)
  case (Cons x ks)
  show ?case
  proof (cases "min_by_created m ks")
    case None
    then show ?thesis using Cons.prems by auto
  next
    case (Some y)
    from Cons.IH [OF this] Cons.prems(2) obtain p where
      y: "y \<in> set ks" "hm_get m y = Some p"
        "\<forall>k' \<in> set ks. \<forall>p'. hm_get m k' = Some p' \<longrightarrow> created p \<le> created p'"
      by auto
    obtain q where q: "hm_get m x = Some q" using Cons.prems(2) by auto
    from Cons.prems(1) Some y(2) q have "k = (if created q \<le> created p then x else y)"
      by (auto split: if_splits)
    then show ?thesis using y q by (auto split: if_splits)
  qed
qed simp

text \<open>One round of the loop: an oldest entry leaves, all others stay.\<close>

lemma oldest_round:
  assumes "hm_ok m" "is_order ord" "m \<noteq> []"
  obtains k p where "min_by_created m (hm_keys ord m) = Some k" "hm_get m k = Some p"
    "\<And>k' p'. hm_get m k' = Some p' \<Longrightarrow> created p \<le> created p'"
proof -
  note ord = is_orderD [OF assms(2), of "map fst m"]
  have keys: "\<forall>k \<in> set (hm_keys ord m). hm_get m k \<noteq> None"
    using ord(1) by (simp add: hm_keys_def hm_get_in_iff)
  have "hm_keys ord m \<noteq> []"
    using ord(3) assms(3) by (auto simp: hm_keys_def)
  then obtain k where k: "min_by_created m (hm_keys ord m) = Some k"
    by (cases "min_by_created m (hm_keys ord m)") simp_all
  from min_by_created_least [OF this keys] obtain p where p: "hm_get m k = Some p"
    "\<forall>k' \<in> set (hm_keys ord m). \<forall>p'. hm_get m k' = Some p' \<longrightarrow> created p \<le> created p'" by blast
  have "created p \<le> created p'" if "hm_get m k' = Some p'" for k' p'
  proof -
    have "k' \<in> set (map fst m)" using that hm_get_in_iff [of m k'] by auto
    then show ?thesis using p(2) that ord(1) by (auto simp: hm_keys_def)
  qed
  with k p(1) show thesis by (rule that)
qed

text \<open>
  The loop ends; it only drops entries when the cap was reached, exactly as many as needed, and none
  of those it drops is younger than one it keeps.
\<close>

lemma evict_oldest_spec:
  assumes "hm_ok m" "\<And>i. is_order (orders i)"
  shows "\<exists>m'. evict_oldest i orders m = Some (True, m') \<and> hm_ok m' \<and>
    length m' = min (length m) (MAX_PENDING_QUERIES - 1) \<and>
    (\<forall>k p. hm_get m' k = Some p \<longrightarrow> hm_get m k = Some p) \<and>
    (\<forall>k p k' p'. hm_get m k = Some p \<and> hm_get m' k = None \<and> hm_get m' k' = Some p' \<longrightarrow>
       created p \<le> created p')"
  using assms(1)
proof (induction "length m" arbitrary: i m rule: less_induct)
  case less
  show ?case
  proof (cases "MAX_PENDING_QUERIES \<le> length m")
    case False
    then show ?thesis
      using less.prems by (auto simp: evict_oldest.simps [of i orders m])
  next
    case True
    then have "m \<noteq> []" by (auto simp: MAX_PENDING_QUERIES_def)
    then obtain k p where k: "min_by_created m (hm_keys (orders i) m) = Some k" "hm_get m k = Some p"
      "\<And>k' p'. hm_get m k' = Some p' \<Longrightarrow> created p \<le> created p'"
      using oldest_round [OF less.prems assms(2)] by blast
    have len: "Suc (length (hm_remove k m)) = length m"
      using hm_remove_length_present [OF less.prems, of k] k(2) by simp
    then obtain m' where m': "evict_oldest (Suc i) orders (hm_remove k m) = Some (True, m')" "hm_ok m'"
      "length m' = min (length (hm_remove k m)) (MAX_PENDING_QUERIES - 1)"
      "\<forall>k' p. hm_get m' k' = Some p \<longrightarrow> hm_get (hm_remove k m) k' = Some p"
      "\<forall>k1 p k' p'. hm_get (hm_remove k m) k1 = Some p \<and> hm_get m' k1 = None \<and> hm_get m' k' = Some p' \<longrightarrow>
         created p \<le> created p'"
      using less.hyps [of "hm_remove k m" "Suc i"] less.prems by auto
    have "evict_oldest i orders m = Some (True, m')"
      using True k(1) m'(1) by (simp add: evict_oldest.simps [of i orders m])
    moreover have "length m' = min (length m) (MAX_PENDING_QUERIES - 1)"
      using m'(3) len True by simp
    moreover have sub: "hm_get m k' = Some p'" if "hm_get m' k' = Some p'" for k' p'
      using m'(4) [rule_format, OF that] by (simp split: if_splits)
    moreover have "created q \<le> created q'"
      if "hm_get m k1 = Some q" "hm_get m' k1 = None" "hm_get m' k' = Some q'" for k1 k' q q'
    proof (cases "k1 = k")
      case True
      then show ?thesis using k(2) k(3) [OF sub [OF that(3)]] that(1) by simp
    next
      case False
      then show ?thesis using m'(5) [rule_format, of k1 q k' q'] that by simp
    qed
    ultimately show ?thesis using m'(2) by blast
  qed
qed

lemma draw_id_cases:
  "draw_id ids entry m = (None, m) \<and> (\<forall>tid \<in> set ids. hm_get m tid \<noteq> None) \<or>
   (\<exists>tid \<in> set ids. draw_id ids entry m = (Some tid, hm_insert tid entry m) \<and> hm_get m tid = None)"
  by (induction ids) auto

section \<open>Properties\<close>

lemma pending_insert_spec:
  assumes "hm_ok m" "\<And>i. is_order (pe_orders env i)"
  shows "\<exists>kept. hm_ok kept \<and> length kept < MAX_PENDING_QUERIES \<and>
    (\<forall>k p. hm_get kept k = Some p \<longrightarrow> hm_get m k = Some p \<and> fresh_query now p) \<and>
    (\<forall>k p. hm_get m k = Some p \<and> fresh_query now p \<and> hm_get kept k = None \<longrightarrow>
       length kept = MAX_PENDING_QUERIES - 1 \<and>
       (\<forall>k' p'. hm_get kept k' = Some p' \<longrightarrow> created p \<le> created p')) \<and>
    (pending_insert env m entry now = Some (None, kept) \<and>
       (\<forall>i < 64. hm_get kept (pe_random env i) \<noteq> None) \<or>
     (\<exists>i < 64. hm_get kept (pe_random env i) = None \<and>
        pending_insert env m entry now =
          Some (Some (pe_random env i), hm_insert (pe_random env i) entry kept)))"
proof -
  define swept where "swept = hm_retain (\<lambda>_ p. fresh_query now p) m"
  have sw: "hm_ok swept" "\<And>k p. hm_get swept k = Some p \<longleftrightarrow> hm_get m k = Some p \<and> fresh_query now p"
    using assms(1) by (auto simp: swept_def hm_get_retain split: option.splits)
  obtain kept where
    kept: "evict_oldest 0 (pe_orders env) swept = Some (True, kept)" "hm_ok kept"
      "length kept = min (length swept) (MAX_PENDING_QUERIES - 1)"
      "\<forall>k p. hm_get kept k = Some p \<longrightarrow> hm_get swept k = Some p"
      "\<forall>k p k' p'. hm_get swept k = Some p \<and> hm_get kept k = None \<and> hm_get kept k' = Some p' \<longrightarrow>
         created p \<le> created p'"
    using evict_oldest_spec [of swept "pe_orders env" 0, OF sw(1) assms(2)] by blast
  have full: "length kept = MAX_PENDING_QUERIES - 1" if "hm_get swept k = Some p" "hm_get kept k = None" for k p
  proof (rule ccontr)
    assume "length kept \<noteq> MAX_PENDING_QUERIES - 1"
    with kept(3) have "length swept < MAX_PENDING_QUERIES" by (auto simp: MAX_PENDING_QUERIES_def)
    then have "kept = swept"
      using kept(1) by (simp add: evict_oldest.simps [of 0 "pe_orders env" swept])
    with that show False by simp
  qed
  have ins: "pending_insert env m entry now = Some (draw_id (map (pe_random env) [0..<64]) entry kept)"
    by (simp add: pending_insert_def Let_def kept(1) swept_def [symmetric])
  have "length kept < MAX_PENDING_QUERIES" using kept(3) by (simp add: MAX_PENDING_QUERIES_def)
  moreover have
    "pending_insert env m entry now = Some (None, kept) \<and>
       (\<forall>i < 64. hm_get kept (pe_random env i) \<noteq> None) \<or>
     (\<exists>i < 64. hm_get kept (pe_random env i) = None \<and>
        pending_insert env m entry now =
          Some (Some (pe_random env i), hm_insert (pe_random env i) entry kept))"
    unfolding ins
    using draw_id_cases [of "map (pe_random env) [0..<64]" entry kept] by auto
  ultimately show ?thesis using kept(2,4,5) full sw(2) by (intro exI [of _ kept]) blast
qed

text \<open>
  \<open>pending_insert\<close> always returns and keeps at most \<open>MAX_PENDING_QUERIES\<close> entries.  Of the old
  entries it keeps only those younger than \<open>PENDING_QUERY_TTL\<close>, and all of them unless the cap is
  reached, when none that it evicts is younger than one it keeps; on success the entry is stored
  under a drawn transaction ID that was vacant, and it fails only if all 64 draws hit kept entries.
\<close>

theorem pending_insert_correct:
  assumes "hm_ok m" "\<And>i. is_order (pe_orders env i)"
  shows "\<exists>kept. hm_ok kept \<and> length kept < MAX_PENDING_QUERIES \<and>
    (\<forall>k p. hm_get kept k = Some p \<longrightarrow> hm_get m k = Some p \<and> fresh_query now p) \<and>
    (\<forall>k p. hm_get m k = Some p \<and> fresh_query now p \<and> hm_get kept k = None \<longrightarrow>
       length kept = MAX_PENDING_QUERIES - 1 \<and>
       (\<forall>k' p'. hm_get kept k' = Some p' \<longrightarrow> created p \<le> created p')) \<and>
    (pending_insert env m entry now = Some (None, kept) \<and>
       (\<forall>i < 64. hm_get kept (pe_random env i) \<noteq> None) \<or>
     (\<exists>i < 64. hm_get kept (pe_random env i) = None \<and>
        pending_insert env m entry now =
          Some (Some (pe_random env i), hm_insert (pe_random env i) entry kept)))"
  using assms by (rule pending_insert_spec)

definition example_query :: "nat \<Rightarrow> pending_query" where
  "example_query t = \<lparr>client_addr = SockV4 (Ipv4 10 0 0 2) 5353, client_tx_id = 7, pq_name = ''ab.c'',
     pq_qtype = 1, created = t\<rparr>"

definition example_pending_env :: pending_env where
  "example_pending_env = \<lparr>pe_orders = \<lambda>_. rev, pe_random = of_nat\<rparr>"

theorem pending_insert_correct_witness:
  "\<exists>i kept. pending_insert example_pending_env [(0, example_query 3), (1, example_query 1)] (example_query 9) 9 =
       Some (Some (of_nat i), hm_insert (of_nat i) (example_query 9) kept)"
proof -
  let ?m = "[(0, example_query 3), (1 :: u16, example_query 1)]"
  have ok: "hm_ok ?m" "\<And>i. is_order (pe_orders example_pending_env i)"
    by (simp_all add: hm_ok_def example_pending_env_def)
  have "hm_get ?m 2 = None" by (simp add: hm_get_def)
  then have "\<not> (\<forall>i < 64. hm_get kept (pe_random example_pending_env i) \<noteq> None)"
    if "\<forall>k p. hm_get kept k = Some p \<longrightarrow> hm_get ?m k = Some p \<and> fresh_query 9 p" for kept
  proof -
    have "hm_get kept 2 = None" using that \<open>hm_get ?m 2 = None\<close> by (cases "hm_get kept 2") auto
    then show ?thesis by (intro notI) (auto simp: example_pending_env_def dest: spec [of _ 2])
  qed
  then have "\<exists>i kept. pending_insert example_pending_env ?m (example_query 9) 9 =
      Some (Some (pe_random example_pending_env i),
            hm_insert (pe_random example_pending_env i) (example_query 9) kept)"
    using pending_insert_correct [OF ok, of 9 "example_query 9"] by blast
  then show ?thesis by (simp add: example_pending_env_def)
qed

text \<open>
  \<open>pending_take_match\<close> hands out an entry only to a response that carries its transaction ID, its
  type and its name up to ASCII case, and then removes exactly that entry; any other response leaves
  the map as it is.
\<close>

theorem pending_take_match_correct:
  "pending_take_match m tx_id name qtype =
     (if \<exists>p. hm_get m tx_id = Some p \<and> eq_ignore_ascii_case (pq_name p) name \<and> pq_qtype p = qtype
      then (hm_get m tx_id, hm_remove tx_id m) else (None, m)) \<and>
   hm_get (snd (pending_take_match m tx_id name qtype)) k =
     (if k = tx_id \<and> fst (pending_take_match m tx_id name qtype) \<noteq> None then None else hm_get m k)"
  by (auto simp: pending_take_match_def split: option.split)

text \<open>
  A pending query is not matched against \<open>PENDING_QUERY_TTL\<close> when its response comes: an entry of
  any age that no later insert has swept is still handed out.
\<close>

lemma pending_take_ignores_age:
  "fst (pending_take_match (hm_insert tx_id (p\<lparr>created := t\<rparr>) m) tx_id (pq_name p) (pq_qtype p)) =
     Some (p\<lparr>created := t\<rparr>)"
  by (simp add: pending_take_match_def eq_ignore_ascii_case_equiv)

end
