(* ===== verification/Dns_Udp.thy ===== *)
theory Dns_Udp
  imports Dns_Pending
begin

text \<open>
  The DNS forwarder with a UDP upstream, \<open>run_udp\<close> of \<^verbatim>\<open>src/src/dns.rs\<close>, as a machine over the
  datagrams that it receives.  Its two tasks, the loop that reads client queries and the reader of
  upstream responses, share the pending map and the table behind locks; each takes the lock of the
  pending map once per datagram, so a run of the program is an interleaving of whole datagrams.  The
  sends are recorded in the state (\<open>us_upstream\<close>, \<open>us_replies\<close>); a failing send is only logged by the
  source and leaves the state as a successful one does.
\<close>

record udp_state =
  us_running :: bool
  us_pending :: pending_map
  us_table :: dns_table
  us_upstream :: "bytes list"
  us_replies :: "(bytes \<times> socket_addr) list"

definition udp_init :: udp_state where
  "udp_init = \<lparr>us_running = True, us_pending = [], us_table = new_table, us_upstream = [], us_replies = []\<rparr>"

text \<open>One round of the main loop: a datagram from a client.\<close>

definition udp_client ::
    "bool \<Rightarrow> pending_env \<Rightarrow> nat \<Rightarrow> nat \<Rightarrow> bytes \<Rightarrow> socket_addr \<Rightarrow> udp_state \<Rightarrow> udp_state exec" where
  "udp_client strip_aaaa env t now packet client s =
     (if length packet < 12 then Some s
      else do {
        tx_id \<leftarrow> rd16 packet 0;
        name \<leftarrow> parse_query_name packet;
        qtype \<leftarrow> parse_query_type packet;
        let query_name = (case name of None \<Rightarrow> [] | Some n \<Rightarrow> n);
            qtype = (case qtype of None \<Rightarrow> 0 | Some t \<Rightarrow> t) in
        if strip_aaaa \<and> qtype = DNS_TYPE_AAAA then do {
          resp \<leftarrow> build_nodata packet;
          Some (case resp of None \<Rightarrow> s | Some r \<Rightarrow> s\<lparr>us_replies := us_replies s @ [(r, client)]\<rparr>) }
        else do {
          let entry = \<lparr>client_addr = client, client_tx_id = tx_id, pq_name = query_name,
                       pq_qtype = qtype, created = t\<rparr> in
          do {
            (upstream_tx_id, pending) \<leftarrow> pending_insert env (us_pending s) entry now;
            case upstream_tx_id of
              None \<Rightarrow> Some (s\<lparr>us_pending := pending\<rparr>)
            | Some tid \<Rightarrow> do {
                buf \<leftarrow> overwrite packet 0 (be16 tid);
                Some (s\<lparr>us_pending := pending, us_upstream := us_upstream s @ [buf]\<rparr>) }
          } }
      })"

text \<open>One round of the upstream reader.\<close>

definition udp_upstream :: "(nat \<Rightarrow> insert_env) \<Rightarrow> bytes \<Rightarrow> udp_state \<Rightarrow> udp_state exec" where
  "udp_upstream envs packet s =
     (if length packet < 12 then Some s
      else do {
        flags \<leftarrow> idx packet 2;
        if flags AND 0x80 = 0 then Some s
        else do {
          tx_id \<leftarrow> rd16 packet 0;
          name \<leftarrow> parse_query_name packet;
          case name of
            None \<Rightarrow> Some s
          | Some resp_name \<Rightarrow> do {
              qtype \<leftarrow> parse_query_type packet;
              let resp_qtype = (case qtype of None \<Rightarrow> 0 | Some t \<Rightarrow> t) in
              (case pending_take_match (us_pending s) tx_id resp_name resp_qtype of
                 (None, pending) \<Rightarrow> Some (s\<lparr>us_pending := pending\<rparr>)
               | (Some entry, pending) \<Rightarrow> do {
                   table \<leftarrow> record_answers envs resp_name packet (us_table s);
                   buf \<leftarrow> overwrite packet 0 (be16 (client_tx_id entry));
                   Some (s\<lparr>us_pending := pending, us_table := table,
                           us_replies := us_replies s @ [(buf, client_addr entry)]\<rparr>) })
            }
        }
      })"

text \<open>
  What the machine reads: a client query (with the inputs of \<open>pending_insert\<close> and the two clock
  readings), an upstream packet (with the inputs of the table inserts), or an error of one of the two
  sockets.  A receive error of the upstream socket is logged and skipped, one of the listening socket
  ends the main loop.
\<close>

datatype udp_event =
    ClientQuery pending_env nat nat bytes socket_addr
  | UpstreamPacket "nat \<Rightarrow> insert_env" bytes
  | UpstreamError
  | ClientError

fun udp_step :: "bool \<Rightarrow> udp_event \<Rightarrow> udp_state \<Rightarrow> udp_state exec" where
  "udp_step strip (ClientQuery env t now packet client) s =
     (if us_running s then udp_client strip env t now packet client s else Some s)"
| "udp_step strip (UpstreamPacket envs packet) s = udp_upstream envs packet s"
| "udp_step strip UpstreamError s = Some s"
| "udp_step strip ClientError s = Some (s\<lparr>us_running := False\<rparr>)"

fun udp_run :: "bool \<Rightarrow> udp_event list \<Rightarrow> udp_state \<Rightarrow> udp_state exec" where
  "udp_run strip [] s = Some s"
| "udp_run strip (ev # evs) s = do { s \<leftarrow> udp_step strip ev s; udp_run strip evs s }"

text \<open>\<open>udp_unspecified_addr\<close>: the local address of the upstream socket.\<close>

fun udp_unspecified_addr :: "socket_addr \<Rightarrow> socket_addr" where
  "udp_unspecified_addr (SockV4 _ _) = SockV4 ipv4_unspecified 0"
| "udp_unspecified_addr (SockV6 _ _ _ _) = SockV6 ipv6_unspecified 0 0 0"

section \<open>What an answer is\<close>

definition query_of :: "bytes \<Rightarrow> (string \<times> u16) exec" where
  "query_of q = do {
     name \<leftarrow> parse_query_name q; qtype \<leftarrow> parse_query_type q;
     Some (case name of None \<Rightarrow> [] | Some n \<Rightarrow> n, case qtype of None \<Rightarrow> 0 | Some t \<Rightarrow> t) }"

text \<open>
  \<open>response_to r q\<close>: the packet \<open>r\<close> has the response bit set and its question has the name of the
  query \<open>q\<close> up to ASCII case, and its type.
\<close>

definition response_to :: "bytes \<Rightarrow> bytes \<Rightarrow> bool" where
  "response_to r q \<longleftrightarrow> 12 \<le> length r \<and> r ! 2 AND 0x80 \<noteq> 0 \<and> parse_query_name r \<noteq> Some None \<and>
     (\<exists>n t n'. query_of q = Some (n, t) \<and> query_of r = Some (n', t) \<and> eq_ignore_ascii_case n n')"

fun fair_event :: "udp_event \<Rightarrow> bool" where
  "fair_event (ClientQuery env _ _ _ _) = (\<forall>i. is_order (pe_orders env i))"
| "fair_event (UpstreamPacket envs _) = (\<forall>i. is_order (key_order (envs i)))"
| "fair_event _ = True"

definition asked :: "udp_event list \<Rightarrow> bytes \<Rightarrow> socket_addr \<Rightarrow> bool" where
  "asked evs q client \<longleftrightarrow> 12 \<le> length q \<and> (\<exists>env t now. ClientQuery env t now q client \<in> set evs)"

text \<open>
  \<open>answered\<close>: the upstream packet \<open>r\<close> arrived after the query \<open>q\<close> of that client, answers it, and
  carries the transaction ID under which the query had been forwarded.
\<close>

definition answered :: "udp_event list \<Rightarrow> bytes list \<Rightarrow> bytes \<Rightarrow> socket_addr \<Rightarrow> bytes \<Rightarrow> bool" where
  "answered evs upstream q client r \<longleftrightarrow>
     (\<exists>before envs after. evs = before @ UpstreamPacket envs r # after \<and> asked before q client) \<and>
     response_to r q \<and> take 2 r @ drop 2 q \<in> set upstream"

definition good_reply :: "bool \<Rightarrow> udp_event list \<Rightarrow> bytes list \<Rightarrow> bytes \<Rightarrow> socket_addr \<Rightarrow> bool" where
  "good_reply strip evs upstream d client \<longleftrightarrow>
     (\<exists>q. asked evs q client \<and>
        (strip \<and> parse_query_type q = Some (Some DNS_TYPE_AAAA) \<and> build_nodata q = Some (Some d) \<or>
         (\<exists>r. answered evs upstream q client r \<and> d = take 2 q @ drop 2 r)))"

definition good_entry :: "udp_event list \<Rightarrow> bytes list \<Rightarrow> ip_addr \<Rightarrow> string \<Rightarrow> bool" where
  "good_entry evs upstream ip name \<longleftrightarrow>
     (\<exists>q client r ips. answered evs upstream q client r \<and> parse_query_name r = Some (Some name) \<and>
        parse_ip_records r = Some (Some ips) \<and> ip \<in> set ips)"

definition good_pending :: "udp_event list \<Rightarrow> bytes list \<Rightarrow> u16 \<Rightarrow> pending_query \<Rightarrow> bool" where
  "good_pending evs upstream tid p \<longleftrightarrow>
     (\<exists>q. asked evs q (client_addr p) \<and> take 2 q = be16 (client_tx_id p) \<and>
        query_of q = Some (pq_name p, pq_qtype p) \<and> be16 tid @ drop 2 q \<in> set upstream)"

fun is_query :: "udp_event \<Rightarrow> bool" where
  "is_query (ClientQuery _ _ _ _ _) = True"
| "is_query _ = False"

definition good_replies :: "bool \<Rightarrow> udp_event list \<Rightarrow> bytes list \<Rightarrow> (bytes \<times> socket_addr) list \<Rightarrow> bool" where
  "good_replies strip evs upstream rs \<longleftrightarrow> (\<forall>(d, c) \<in> set rs. good_reply strip evs upstream d c)"

definition good_table :: "udp_event list \<Rightarrow> bytes list \<Rightarrow> dns_table \<Rightarrow> bool" where
  "good_table evs upstream table \<longleftrightarrow> (\<forall>(ip, name, _) \<in> set table. good_entry evs upstream ip name)"

definition good_pendings :: "udp_event list \<Rightarrow> bytes list \<Rightarrow> pending_map \<Rightarrow> bool" where
  "good_pendings evs upstream pm \<longleftrightarrow> (\<forall>(tid, p) \<in> set pm. good_pending evs upstream tid p)"

definition udp_inv :: "bool \<Rightarrow> udp_event list \<Rightarrow> udp_state \<Rightarrow> bool" where
  "udp_inv strip evs s \<longleftrightarrow>
     hm_ok (us_pending s) \<and> hm_ok (us_table s) \<and>
     good_pendings evs (us_upstream s) (us_pending s) \<and>
     good_replies strip evs (us_upstream s) (us_replies s) \<and>
     good_table evs (us_upstream s) (us_table s) \<and>
     length (us_pending s) \<le> MAX_PENDING_QUERIES \<and> length (us_table s) \<le> MAX_CACHE_ENTRIES \<and>
     length (us_replies s) + length (us_pending s) \<le> length (filter is_query evs)"

section \<open>The invariant\<close>

lemma asked_mono: "asked evs q c \<Longrightarrow> asked (evs @ evs') q c"
  by (auto simp: asked_def)

lemma answered_mono:
  assumes "answered evs up q c r" "set up \<subseteq> set up'"
  shows "answered (evs @ evs') up' q c r"
proof -
  obtain before envs after where "evs = before @ UpstreamPacket envs r # after" "asked before q c"
    using assms(1) by (auto simp: answered_def)
  then have "evs @ evs' = before @ UpstreamPacket envs r # (after @ evs')" "asked before q c" by simp_all
  then show ?thesis using assms unfolding answered_def by blast
qed

lemma good_mono:
  assumes "set up \<subseteq> set up'"
  shows "good_reply strip evs up d c \<Longrightarrow> good_reply strip (evs @ evs') up' d c"
    and "good_entry evs up ip name \<Longrightarrow> good_entry (evs @ evs') up' ip name"
    and "good_pending evs up tid p \<Longrightarrow> good_pending (evs @ evs') up' tid p"
  using assms asked_mono [of evs _ _ evs'] answered_mono [OF _ assms, of evs _ _ _ evs']
  unfolding good_reply_def good_entry_def good_pending_def by blast+

lemma take_2_rd16: "2 \<le> length q \<Longrightarrow> rd16 q 0 = Some w \<longleftrightarrow> take 2 q = be16 w"
proof -
  assume "2 \<le> length q"
  then obtain a b q' where "q = a # b # q'" by (cases q; cases "tl q") auto
  then show ?thesis by (auto simp: rd16_def) (metis be16_cases be16_inj list.inject be16_u16_be)
qed

lemma overwrite_2: "2 \<le> length q \<Longrightarrow> overwrite q 0 (be16 w) = Some (be16 w @ drop 2 q)"
  by (simp add: overwrite_def numeral_2_eq_2)

lemma set_table_evict: "set (table_evict env m) \<subseteq> set m"
  unfolding table_evict_evict by (rule evict_subset)

lemma insert_ips_mem:
  "(ip, d, e) \<in> set (insert_ips envs name ttl ips table) \<Longrightarrow>
     (ip, d, e) \<in> set table \<or> ip \<in> set ips \<and> d = name"
proof (induction ips arbitrary: envs table)
  case (Cons x ips)
  then show ?case
    using set_table_evict [of "envs 0" table]
    by (fastforce simp: table_insert_def Let_def dest: hm_insert_mem)
qed simp

lemma record_answers_mem:
  assumes "record_answers envs name r table = Some table'" "(ip, d, e) \<in> set table'"
  shows "(ip, d, e) \<in> set table \<or>
         d = name \<and> (\<exists>ips. parse_ip_records r = Some (Some ips) \<and> ip \<in> set ips)"
  using assms by (auto simp: record_answers_def split: option.splits Option.bind_splits dest: insert_ips_mem)

lemma record_answers_ok:
  assumes "record_answers envs name r table = Some table'" "\<And>n. is_order (key_order (envs n))"
    and "hm_ok table" "length table \<le> MAX_CACHE_ENTRIES"
  shows "hm_ok table' \<and> length table' \<le> MAX_CACHE_ENTRIES"
proof -
  have "hm_ok (insert_ips envs name ttl ips table) \<and> length (insert_ips envs name ttl ips table) \<le> MAX_CACHE_ENTRIES"
    for ttl ips
  proof -
    let ?calls = "map (\<lambda>n. (envs n, ips ! n, name, ttl)) [0..<length ips]"
    have "calls_fair ?calls" using assms(2) by (simp add: calls_fair_def list_all_iff)
    then show ?thesis
      unfolding insert_ips_run table_run_put_all
      using assms(3,4) calls_fair_all_fair tbl.put_all_ok tbl.put_all_bounded by blast
  qed
  then show ?thesis using assms by (auto simp: record_answers_def split: option.splits Option.bind_splits)
qed


text \<open>What one round of the main loop does to the state, and one round of the reader.\<close>

lemma udp_client_cases:
  assumes "udp_client strip env t now q c s = Some s'" "hm_ok (us_pending s)" "\<And>i. is_order (pe_orders env i)"
  obtains "s' = s"
  | d where "12 \<le> length q" "strip" "parse_query_type q = Some (Some DNS_TYPE_AAAA)" "build_nodata q = Some (Some d)"
      "s' = s\<lparr>us_replies := us_replies s @ [(d, c)]\<rparr>"
  | kept where "12 \<le> length q" "hm_ok kept" "set kept \<subseteq> set (us_pending s)" "length kept \<le> length (us_pending s)"
      "length kept < MAX_PENDING_QUERIES" "s' = s\<lparr>us_pending := kept\<rparr>"
  | kept tid p where "12 \<le> length q" "hm_ok kept" "set kept \<subseteq> set (us_pending s)"
      "length kept \<le> length (us_pending s)" "length kept < MAX_PENDING_QUERIES" "hm_get kept tid = None"
      "client_addr p = c" "take 2 q = be16 (client_tx_id p)" "query_of q = Some (pq_name p, pq_qtype p)"
      "s' = s\<lparr>us_pending := hm_insert tid p kept, us_upstream := us_upstream s @ [be16 tid @ drop 2 q]\<rparr>"
proof (cases "length q < 12")
  case True
  then show ?thesis using assms(1) that(1) by (simp add: udp_client_def)
next
  case False
  obtain tx where tx: "rd16 q 0 = Some tx" using rd16_no_panic [of 0 q] False by (auto elim: runsE)
  then have tx2: "take 2 q = be16 tx" using take_2_rd16 [of q tx] False by simp
  obtain name where name: "parse_query_name q = Some name" using runsE [OF parse_query_name_no_panic] .
  obtain qt where qt: "parse_query_type q = Some qt" using runsE [OF parse_query_type_no_panic] .
  define n where "n = (case name of None \<Rightarrow> [] | Some n \<Rightarrow> n)"
  define ty where "ty = (case qt of None \<Rightarrow> 0 | Some t \<Rightarrow> t)"
  have qo: "query_of q = Some (n, ty)" by (simp add: query_of_def name qt n_def ty_def)
  show ?thesis
  proof (cases "strip \<and> ty = DNS_TYPE_AAAA")
    case True
    then have "qt = Some DNS_TYPE_AAAA" by (cases qt) (auto simp: ty_def DNS_TYPE_AAAA_def)
    moreover obtain resp where "build_nodata q = Some resp" using runsE [OF build_nodata_no_panic] .
    ultimately show ?thesis
      using assms(1) False True that(1,2) qt
      by (cases resp) (auto simp: udp_client_def tx name n_def [symmetric] ty_def [symmetric])
  next
    case strip: False
    define p where "p = \<lparr>client_addr = c, client_tx_id = tx, pq_name = n, pq_qtype = ty, created = t\<rparr>"
    have s': "Some s' = do {
        (upstream_tx_id, pending) \<leftarrow> pending_insert env (us_pending s) p now;
        case upstream_tx_id of
          None \<Rightarrow> Some (s\<lparr>us_pending := pending\<rparr>)
        | Some tid \<Rightarrow> do { buf \<leftarrow> overwrite q 0 (be16 tid);
            Some (s\<lparr>us_pending := pending, us_upstream := us_upstream s @ [buf]\<rparr>) } }"
      using assms(1) False strip
      by (simp add: udp_client_def tx name qt Let_def n_def [symmetric] ty_def [symmetric] p_def)
    obtain kept where kept: "hm_ok kept" "length kept < MAX_PENDING_QUERIES"
        "\<forall>k p. hm_get kept k = Some p \<longrightarrow> hm_get (us_pending s) k = Some p"
        "pending_insert env (us_pending s) p now = Some (None, kept) \<or>
         (\<exists>tid. hm_get kept tid = None \<and> pending_insert env (us_pending s) p now = Some (Some tid, hm_insert tid p kept))"
      using pending_insert_spec [OF assms(2,3), of now p] by blast
    have sub: "set kept \<subseteq> set (us_pending s)"
      using kept(1,3) by (intro hm_sub) auto
    then have len: "length kept \<le> length (us_pending s)"
      using hm_ok_length_mono kept(1) by blast
    from kept(4) show ?thesis
    proof (elim disjE exE conjE)
      assume "pending_insert env (us_pending s) p now = Some (None, kept)"
      then show ?thesis using s' that(3) [of kept] False kept sub len by simp
    next
      fix tid assume "hm_get kept tid = None"
        and "pending_insert env (us_pending s) p now = Some (Some tid, hm_insert tid p kept)"
      then show ?thesis
        using s' that(4) [of kept tid p] False kept sub len tx2 qo overwrite_2 [of q tid]
        by (simp add: p_def)
    qed
  qed
qed

lemma udp_upstream_cases:
  assumes "udp_upstream envs r s = Some s'"
  obtains "s' = s"
  | tid p name table where "12 \<le> length r" "r ! 2 AND 0x80 \<noteq> 0" "take 2 r = be16 tid"
      "hm_get (us_pending s) tid = Some p" "parse_query_name r = Some (Some name)"
      "query_of r = Some (name, pq_qtype p)" "eq_ignore_ascii_case (pq_name p) name"
      "record_answers envs name r (us_table s) = Some table"
      "s' = s\<lparr>us_pending := hm_remove tid (us_pending s), us_table := table,
             us_replies := us_replies s @ [(be16 (client_tx_id p) @ drop 2 r, client_addr p)]\<rparr>"
proof (cases "length r < 12 \<or> r ! 2 AND 0x80 = 0 \<or> parse_query_name r = Some None")
  case True
  have "s' = s"
  proof (cases "length r < 12")
    case False
    then obtain tx where "rd16 r 0 = Some tx" using rd16_no_panic [of 0 r] by (auto elim: runsE)
    then show ?thesis using True False assms by (auto simp: udp_upstream_def split: if_splits)
  qed (use assms in \<open>simp add: udp_upstream_def\<close>)
  then show ?thesis by (rule that(1))
next
  case False
  obtain tx where tx: "rd16 r 0 = Some tx" using rd16_no_panic [of 0 r] False by (auto elim: runsE)
  then have tx2: "take 2 r = be16 tx" using take_2_rd16 [of r tx] False by simp
  obtain name where name: "parse_query_name r = Some (Some name)"
    using runsE [OF parse_query_name_no_panic, of r] False by (metis not_None_eq)
  obtain qt where qt: "parse_query_type r = Some qt" using runsE [OF parse_query_type_no_panic] .
  define ty where "ty = (case qt of None \<Rightarrow> 0 | Some t \<Rightarrow> t)"
  have qo: "query_of r = Some (name, ty)" by (simp add: query_of_def name qt ty_def)
  obtain table where table: "record_answers envs name r (us_table s) = Some table"
    using runsE [OF record_answers_no_panic] .
  show ?thesis
  proof (cases "\<exists>p. hm_get (us_pending s) tx = Some p \<and> eq_ignore_ascii_case (pq_name p) name \<and> pq_qtype p = ty")
    case True
    then obtain p where p: "hm_get (us_pending s) tx = Some p" "eq_ignore_ascii_case (pq_name p) name"
        "pq_qtype p = ty" by blast
    have "s' = s\<lparr>us_pending := hm_remove tx (us_pending s), us_table := table,
             us_replies := us_replies s @ [(be16 (client_tx_id p) @ drop 2 r, client_addr p)]\<rparr>"
      using assms False p table overwrite_2 [of r "client_tx_id p"]
      by (simp add: udp_upstream_def tx name qt Let_def ty_def [symmetric] pending_take_match_def)
    then show ?thesis using that(2) False tx2 p name qo table by simp
  next
    case none: False
    then have "pending_take_match (us_pending s) tx name ty = (None, us_pending s)"
      by (auto simp: pending_take_match_def split: option.split)
    then have "s' = s"
      using assms False
      by (simp add: udp_upstream_def tx name qt Let_def ty_def [symmetric])
    then show ?thesis by (rule that(1))
  qed
qed

lemma good_lists_mono:
  assumes "set up \<subseteq> set up'"
  shows "good_replies strip evs up rs \<Longrightarrow> good_replies strip (evs @ evs') up' rs"
    and "good_table evs up tab \<Longrightarrow> good_table (evs @ evs') up' tab"
    and "good_pendings evs up pm \<Longrightarrow> good_pendings (evs @ evs') up' pm"
  using good_mono [OF assms, where evs = evs and evs' = evs']
  unfolding good_replies_def good_table_def good_pendings_def by fastforce+

lemma good_replies_append [simp]:
  "good_replies strip evs up (rs @ [(d, c)]) \<longleftrightarrow> good_replies strip evs up rs \<and> good_reply strip evs up d c"
  by (auto simp: good_replies_def)

lemma good_pendings_sub: "good_pendings evs up pm \<Longrightarrow> set pm' \<subseteq> set pm \<Longrightarrow> good_pendings evs up pm'"
  by (auto simp: good_pendings_def)

lemma good_pendings_insert:
  "good_pendings evs up pm \<Longrightarrow> good_pending evs up tid p \<Longrightarrow> good_pendings evs up (hm_insert tid p pm)"
  by (auto simp: good_pendings_def dest!: hm_insert_mem)

lemma udp_inv_unchanged:
  assumes "udp_inv strip evs s" "us_pending s' = us_pending s" "us_table s' = us_table s"
    "us_replies s' = us_replies s" "us_upstream s' = us_upstream s"
  shows "udp_inv strip (evs @ [ev]) s'"
  using assms good_lists_mono [OF subset_refl, where evs = evs and evs' = "[ev]"]
  by (simp add: udp_inv_def)

lemma udp_inv_client:
  assumes inv: "udp_inv strip evs s" and step: "udp_client strip env t now q c s = Some s'"
    and fair: "\<And>i. is_order (pe_orders env i)"
  shows "udp_inv strip (evs @ [ClientQuery env t now q c]) s'"
proof -
  let ?evs = "evs @ [ClientQuery env t now q c]"
  have ok: "hm_ok (us_pending s)" using inv by (simp add: udp_inv_def)
  have mono: "good_replies strip ?evs up (us_replies s)" "good_table ?evs up (us_table s)"
    "good_pendings ?evs up (us_pending s)" if "set (us_upstream s) \<subseteq> set up" for up
    using good_lists_mono [OF that] inv unfolding udp_inv_def by blast+
  have asked: "asked ?evs q c" if "12 \<le> length q" using that by (auto simp: asked_def)
  from step ok fair show ?thesis
  proof (cases rule: udp_client_cases)
    case 1
    then show ?thesis using inv udp_inv_unchanged by blast
  next
    case (2 d)
    then have "good_reply strip ?evs (us_upstream s) d c"
      using asked by (auto simp: good_reply_def)
    then show ?thesis using 2 mono [OF subset_refl] inv by (simp add: udp_inv_def)
  next
    case (3 kept)
    then show ?thesis
      using mono [OF subset_refl] good_pendings_sub [OF mono(3) [OF subset_refl], of kept] inv
      by (simp add: udp_inv_def)
  next
    case (4 kept tid p)
    let ?up = "us_upstream s @ [be16 tid @ drop 2 q]"
    have "good_pending ?evs ?up tid p"
      using 4 asked unfolding good_pending_def by (intro exI [of _ q]) simp
    moreover have up: "set (us_upstream s) \<subseteq> set ?up" by auto
    ultimately have "good_pendings ?evs ?up (hm_insert tid p kept)"
      using good_pendings_sub [OF mono(3) [OF up] 4(3)] by (blast intro: good_pendings_insert)
    then show ?thesis
      using 4 mono(1,2) [OF up] inv by (simp add: udp_inv_def hm_insert_length)
  qed
qed

lemma udp_inv_upstream:
  assumes inv: "udp_inv strip evs s" and step: "udp_upstream envs r s = Some s'"
    and fair: "\<And>i. is_order (key_order (envs i))"
  shows "udp_inv strip (evs @ [UpstreamPacket envs r]) s'"
proof -
  let ?evs = "evs @ [UpstreamPacket envs r]"
  have mono: "good_replies strip ?evs (us_upstream s) (us_replies s)"
    "good_table ?evs (us_upstream s) (us_table s)" "good_pendings ?evs (us_upstream s) (us_pending s)"
    using good_lists_mono [OF subset_refl] inv unfolding udp_inv_def by blast+
  from step show ?thesis
  proof (cases rule: udp_upstream_cases)
    case 1
    then show ?thesis using inv udp_inv_unchanged by blast
  next
    case (2 tid p name table)
    have "good_pending evs (us_upstream s) tid p"
      using inv hm_get_mem [OF 2(4)] by (auto simp: udp_inv_def good_pendings_def)
    then obtain q where q: "asked evs q (client_addr p)" "take 2 q = be16 (client_tx_id p)"
        "query_of q = Some (pq_name p, pq_qtype p)" "be16 tid @ drop 2 q \<in> set (us_upstream s)"
      by (auto simp: good_pending_def)
    have "response_to r q"
      using 2 q(3) by (auto simp: response_to_def)
    then have ans: "answered ?evs (us_upstream s) q (client_addr p) r"
      using q 2(3) unfolding answered_def by auto
    then have "good_reply strip ?evs (us_upstream s) (be16 (client_tx_id p) @ drop 2 r) (client_addr p)"
      using asked_mono [OF q(1)] q(2) unfolding good_reply_def by metis
    moreover have "good_table ?evs (us_upstream s) table"
      unfolding good_table_def
    proof clarify
      fix ip n e assume "(ip, n, e) \<in> set table"
      from record_answers_mem [OF 2(8) this] show "good_entry ?evs (us_upstream s) ip n"
        using mono(2) ans 2(5) by (fastforce simp: good_table_def good_entry_def)
    qed
    moreover have "hm_ok table \<and> length table \<le> MAX_CACHE_ENTRIES"
      using record_answers_ok [OF 2(8) fair] inv by (simp add: udp_inv_def)
    moreover have "Suc (length (hm_remove tid (us_pending s))) = length (us_pending s)"
      using hm_remove_length_present [of "us_pending s" tid] 2(4) inv by (auto simp: udp_inv_def)
    moreover have "good_pendings ?evs (us_upstream s) (hm_remove tid (us_pending s))"
      using mono(3) by (rule good_pendings_sub) (simp add: hm_remove_def)
    ultimately show ?thesis using 2(9) mono(1) inv by (simp add: udp_inv_def)
  qed
qed

lemma udp_inv_step:
  assumes "udp_inv strip evs s" "udp_step strip ev s = Some s'" "fair_event ev"
  shows "udp_inv strip (evs @ [ev]) s'"
  using assms udp_inv_client udp_inv_upstream udp_inv_unchanged
  by (cases ev) (auto split: if_splits)

lemma udp_inv_run:
  "udp_run strip evs' s = Some s' \<Longrightarrow> udp_inv strip evs s \<Longrightarrow> list_all fair_event evs' \<Longrightarrow>
     udp_inv strip (evs @ evs') s'"
proof (induction evs' arbitrary: evs s)
  case (Cons ev evs')
  then obtain s1 where "udp_step strip ev s = Some s1" "udp_run strip evs' s1 = Some s'"
    by (auto split: Option.bind_splits)
  then show ?case using Cons udp_inv_step [of strip evs s ev s1] by fastforce
qed simp

lemma udp_inv_init: "udp_inv strip [] udp_init"
  by (simp add: udp_inv_def udp_init_def new_table_def good_replies_def good_table_def
      good_pendings_def)

lemma udp_client_no_panic:
  assumes "hm_ok (us_pending s)" "\<And>i. is_order (pe_orders env i)"
  shows "runs (udp_client strip env t now q c s)"
proof -
  have "runs (pending_insert env (us_pending s) p now)" for p
    using pending_insert_spec [OF assms, of now p] by auto
  then show ?thesis
    unfolding udp_client_def Let_def by (auto intro!: no_panic split: prod.split)
qed

lemma udp_upstream_no_panic: "runs (udp_upstream envs r s)"
  unfolding udp_upstream_def Let_def by (auto intro!: no_panic split: prod.split option.split)

lemma udp_run_no_panic:
  "udp_inv strip evs s \<Longrightarrow> list_all fair_event evs' \<Longrightarrow> runs (udp_run strip evs' s)"
proof (induction evs' arbitrary: evs s)
  case (Cons ev evs')
  have "runs (udp_step strip ev s)"
    using Cons.prems udp_client_no_panic udp_upstream_no_panic by (cases ev) (auto simp: udp_inv_def)
  then show ?case using Cons udp_inv_step [of strip evs s ev] by (auto intro!: no_panic)
qed simp

section \<open>Properties\<close>

lemma udp_replies_good:
  "udp_inv strip evs s \<Longrightarrow> (d, c) \<in> set (us_replies s) \<Longrightarrow> good_reply strip evs (us_upstream s) d c"
  by (auto simp: udp_inv_def good_replies_def)

text \<open>
  C5. Over every run of the UDP forwarder, without a panic, each datagram sent to a client is either
  the NODATA answer to an AAAA query of that client (with \<open>--dns-strip-aaaa\<close>), or a packet that came
  from upstream after a query of that client, has the response bit, the query's question (its name
  up to ASCII case and its type) and the random transaction ID under which the query was
  forwarded; it is passed on unchanged but for the client's own transaction ID.
\<close>

theorem udp_replies_answer_queries:
  assumes "list_all fair_event evs"
  shows "\<exists>s. udp_run strip evs udp_init = Some s \<and>
    (\<forall>(d, client) \<in> set (us_replies s). \<exists>q. asked evs q client \<and>
       (strip \<and> parse_query_type q = Some (Some DNS_TYPE_AAAA) \<and> build_nodata q = Some (Some d) \<or>
        (\<exists>r. answered evs (us_upstream s) q client r \<and> d = take 2 q @ drop 2 r)))"
proof -
  obtain s where s: "udp_run strip evs udp_init = Some s"
    using runsE [OF udp_run_no_panic [OF udp_inv_init assms]] .
  then have "udp_inv strip evs s"
    using udp_inv_run [OF s udp_inv_init assms] by simp
  with s show ?thesis
    using udp_replies_good [of strip evs s] unfolding good_reply_def by blast
qed

text \<open>A query for \<open>ab.c\<close>, and the response to it that carries the random ID 0.\<close>

definition example_question :: dns_message where
  "example_question = example_response\<lparr>m_flags1 := 1, m_answers := [], m_additional := []\<rparr>"

definition example_udp_run :: "udp_event list" where
  "example_udp_run =
     [ClientQuery example_pending_env 0 0 (enc_message example_question) (SockV4 (Ipv4 10 0 0 2) 5353),
      UpstreamPacket (\<lambda>_. example_env 0) (enc_message (example_response\<lparr>m_id := 0\<rparr>)), ClientError]"

lemma fair_example_udp_run: "list_all fair_event example_udp_run"
  by (simp add: example_udp_run_def example_pending_env_def example_env_def)

theorem udp_replies_answer_queries_witness:
  "\<exists>s. udp_run True example_udp_run udp_init = Some s \<and>
       (\<forall>(d, client) \<in> set (us_replies s). \<exists>q. asked example_udp_run q client)"
  using udp_replies_answer_queries [OF fair_example_udp_run, of True] by fast

text \<open>
  C6. Over every run, the table that the proxy consults maps an address to a name only if an upstream
  packet that answered a query of a client, for that name up to ASCII case, carried that address; and
  the forwarder never sends more replies than it has received queries, never tracks more than
  \<open>MAX_PENDING_QUERIES\<close> queries, and never stores more than \<open>MAX_CACHE_ENTRIES\<close> addresses.
\<close>

theorem udp_table_not_poisoned:
  assumes "list_all fair_event evs" and "udp_run strip evs udp_init = Some s"
  shows "(table_lookup t (us_table s) ip = Some name \<longrightarrow>
            (\<exists>q client r ips. answered evs (us_upstream s) q client r \<and>
               parse_query_name r = Some (Some name) \<and>
               parse_ip_records r = Some (Some ips) \<and> ip \<in> set ips)) \<and>
         length (us_replies s) + length (us_pending s) \<le> length (filter is_query evs) \<and>
         length (us_pending s) \<le> MAX_PENDING_QUERIES \<and> length (us_table s) \<le> MAX_CACHE_ENTRIES"
proof -
  have inv: "udp_inv strip evs s"
    using udp_inv_run [OF assms(2) udp_inv_init assms(1)] by simp
  have "\<exists>q client r ips. answered evs (us_upstream s) q client r \<and>
      parse_query_name r = Some (Some name) \<and> parse_ip_records r = Some (Some ips) \<and> ip \<in> set ips"
    if lookup: "table_lookup t (us_table s) ip = Some name"
  proof -
    obtain e where "hm_get (us_table s) ip = Some (name, e)"
      using lookup by (auto simp: table_lookup_def split: option.splits if_splits)
    then have "good_entry evs (us_upstream s) ip name"
      using inv by (auto simp: udp_inv_def good_table_def dest!: hm_get_mem)
    then show ?thesis by (simp add: good_entry_def)
  qed
  then show ?thesis using inv by (simp add: udp_inv_def)
qed

theorem udp_table_not_poisoned_witness:
  "\<exists>s. udp_run False example_udp_run udp_init = Some s \<and>
       length (us_replies s) + length (us_pending s) \<le> 1"
proof -
  obtain s where s: "udp_run False example_udp_run udp_init = Some s"
    using runsE [OF udp_run_no_panic [OF udp_inv_init fair_example_udp_run]] .
  have "length (filter is_query example_udp_run) = 1" by (simp add: example_udp_run_def)
  then show ?thesis
    using udp_table_not_poisoned [OF fair_example_udp_run s] s by simp
qed

text \<open>
  A forwarded query whose response comes is answered: after a query has been sent upstream under an
  ID, a packet with the response bit, that ID and the query's question (its name up to ASCII case)
  reaches the client as it is, under the client's own transaction ID.
\<close>

definition question_name :: "dns_message \<Rightarrow> string" where
  "question_name m = (case m_questions m of [] \<Rightarrow> [] | q # _ \<Rightarrow>
     (case q_name q of Name ls _ \<Rightarrow> join ''.'' (map str_of ls)))"

definition plain_question :: "dns_message \<Rightarrow> bool" where
  "plain_question m \<longleftrightarrow> (case m_questions m of [] \<Rightarrow> False | q # _ \<Rightarrow>
     (case q_name q of Name ls e \<Rightarrow> e = Root \<and> ls \<noteq> [] \<and> list_all wf_label ls \<and> list_all utf8_ok ls))"

lemma plain_question_parses:
  assumes "plain_question m"
  shows "parse_query_name (enc_message m) = Some (Some (question_name m))"
    "query_of (enc_message m) = Some (question_name m, q_type (hd (m_questions m)))"
    "parse_query_type (enc_message m) = Some (Some (q_type (hd (m_questions m))))"
proof -
  obtain q qs ls where m: "m_questions m = q # qs" "q_name q = Name ls Root" "ls \<noteq> []"
      "list_all wf_label ls" "list_all utf8_ok ls"
    using assms by (auto simp: plain_question_def split: list.splits dns_name.splits)
  show *: "parse_query_name (enc_message m) = Some (Some (question_name m))"
    using parse_query_name_enc [OF m(1,2,4)] m by (simp add: question_name_def)
  show "query_of (enc_message m) = Some (question_name m, q_type (hd (m_questions m)))"
    "parse_query_type (enc_message m) = Some (Some (q_type (hd (m_questions m))))"
    using parse_query_type_enc [OF m(1)] m by (simp_all add: query_of_def *)
qed

lemma enc_message_flags: "length (enc_message m) \<ge> 12" "enc_message m ! 2 = m_flags1 m"
  "take 2 (enc_message m) = be16 (m_id m)"
  by (simp_all add: enc_message_def enc_header_def nth_append)

theorem udp_answers_forwarded:
  assumes "plain_question q" "plain_question r" "m_flags1 r AND 0x80 \<noteq> 0"
    and "eq_ignore_ascii_case (question_name q) (question_name r)"
    and "q_type (hd (m_questions q)) = q_type (hd (m_questions r))"
    and "hm_ok (us_pending s)" "\<And>i. is_order (pe_orders env i)"
    and "udp_client strip env t now (enc_message q) c s = Some s1"
    and "us_upstream s1 = us_upstream s @ [u]" "take 2 u = be16 (m_id r)"
  shows "\<exists>s2. udp_upstream envs (enc_message r) s1 = Some s2 \<and>
    us_replies s2 = us_replies s1 @ [(enc_message (r\<lparr>m_id := m_id q\<rparr>), c)]"
  using assms(8,6,7)
proof (cases rule: udp_client_cases)
  case (4 kept tid p)
  have u: "u = be16 tid @ drop 2 (enc_message q)"
    using 4(10) assms(9) by simp
  have id: "tid = m_id r" "client_tx_id p = m_id q"
    using assms(10) 4(8) by (simp_all add: u enc_message_flags)
  have p: "hm_get (us_pending s1) (m_id r) = Some p" using 4(10) id by simp
  have q: "pq_name p = question_name q" "pq_qtype p = q_type (hd (m_questions r))"
    using 4(9) plain_question_parses(2) [OF assms(1)] assms(5) by simp_all
  obtain table where table: "record_answers envs (question_name r) (enc_message r) (us_table s1) = Some table"
    using runsE [OF record_answers_no_panic] .
  obtain s2 where s2: "udp_upstream envs (enc_message r) s1 = Some s2"
    using runsE [OF udp_upstream_no_panic] .
  have new_id: "be16 (m_id q) @ drop 2 (enc_message r) = enc_message (r\<lparr>m_id := m_id q\<rparr>)"
    by (simp add: enc_message_def enc_header_def)
  have "rd16 (enc_message r) 0 = Some (m_id r)"
    using take_2_rd16 [of "enc_message r" "m_id r"] enc_message_flags [of r] by simp
  then have "us_replies s2 = us_replies s1 @ [(be16 (m_id q) @ drop 2 (enc_message r), c)]"
    using s2 enc_message_flags [of r] assms(3,4) p q id 4(7) table plain_question_parses(1,3) [OF assms(2)]
      overwrite_2 [of "enc_message r" "m_id q"]
    by (auto simp: udp_upstream_def Let_def pending_take_match_def)
  then show ?thesis using s2 new_id by auto
qed (use assms(9) in auto)

lemma pending_insert_empty:
  "pending_insert env [] entry now = Some (Some (pe_random env 0), [(pe_random env 0, entry)])"
proof -
  have "[0..<64] = 0 # [1..<64]" by (simp add: upt_conv_Cons)
  then show ?thesis
    by (simp add: pending_insert_def hm_retain_def evict_oldest.simps [of 0 "pe_orders env" "[]"]
        MAX_PENDING_QUERIES_def hm_insert_def)
qed

theorem udp_answers_forwarded_witness:
  "\<exists>s1 s2. udp_client True example_pending_env 0 0 (enc_message example_question) (SockV4 (Ipv4 10 0 0 2) 5353)
         udp_init = Some s1 \<and>
       udp_upstream (\<lambda>_. example_env 0) (enc_message (example_response\<lparr>m_id := 0\<rparr>)) s1 = Some s2 \<and>
       us_replies s2 = [(enc_message example_response, SockV4 (Ipv4 10 0 0 2) 5353)]"
proof -
  let ?r = "example_response\<lparr>m_id := 0\<rparr>"
  have plain: "plain_question example_question" "plain_question ?r"
    by (simp_all add: plain_question_def example_question_def example_response_def wf_label_def)
  define p where "p = \<lparr>client_addr = SockV4 (Ipv4 10 0 0 2) 5353, client_tx_id = m_id example_question,
    pq_name = question_name example_question, pq_qtype = q_type (hd (m_questions example_question)), created = 0\<rparr>"
  define s1 where "s1 = udp_init\<lparr>us_pending := [(0, p)], us_upstream := [be16 0 @ drop 2 (enc_message example_question)]\<rparr>"
  have "rd16 (enc_message example_question) 0 = Some (m_id example_question)"
    using take_2_rd16 [of "enc_message example_question" "m_id example_question"]
      enc_message_flags [of example_question] by simp
  moreover have "q_type (hd (m_questions example_question)) \<noteq> DNS_TYPE_AAAA"
    by (simp add: example_question_def example_response_def DNS_TYPE_AAAA_def)
  ultimately have s1: "udp_client True example_pending_env 0 0 (enc_message example_question)
      (SockV4 (Ipv4 10 0 0 2) 5353) udp_init = Some s1"
    using enc_message_flags(1) [of example_question] plain_question_parses(1,3) [OF plain(1)]
      overwrite_2 [of "enc_message example_question" 0]
    by (simp add: udp_client_def Let_def udp_init_def pending_insert_empty s1_def p_def example_pending_env_def)
  have fair: "\<And>i. is_order (pe_orders example_pending_env i)" by (simp add: example_pending_env_def)
  have "\<exists>s2. udp_upstream (\<lambda>_. example_env 0) (enc_message ?r) s1 = Some s2 \<and>
      us_replies s2 = us_replies s1 @
        [(enc_message (?r\<lparr>m_id := m_id example_question\<rparr>), SockV4 (Ipv4 10 0 0 2) 5353)]"
    by (rule udp_answers_forwarded [OF plain _ _ _ _ fair s1, where u = "be16 0 @ drop 2 (enc_message example_question)"])
      (simp_all add: s1_def udp_init_def example_response_def example_question_def question_name_def
        eq_ignore_ascii_case_equiv(1))
  moreover have "?r\<lparr>m_id := m_id example_question\<rparr> = example_response" "us_replies s1 = []"
    by (simp_all add: example_question_def example_response_def s1_def udp_init_def)
  ultimately show ?thesis using s1 by auto
qed

end
