(* ===== verification/Net_Stream.thy ===== *)
theory Net_Stream
  imports Prelude
begin

text \<open>
  A connected byte stream as the handshakes and the TCP DNS listener use it.  The bytes that will
  arrive come in chunks, one per \<open>read\<close>, followed by what happens when they are used up: the peer
  closes, nothing comes any more, or the connection fails.  Written bytes are collected;
  \<open>s_wfail\<close> is the number of writes that still succeed, \<open>None\<close> when all do.

  An operation ends with a value, with an error, or not at all (\<open>Hang\<close>); the source bounds the
  operations that can hang by a timeout, whose branch the model takes in that case.
\<close>

datatype read_end = Eof | Stall | Reset

record stream =
  s_in :: "bytes list"
  s_end :: read_end
  s_out :: bytes
  s_wfail :: "nat option"

datatype io_error = UnexpectedEof | IoFailed

datatype ('e, 'a) outcome = Done 'a | Error 'e | Hang

definition in_bytes :: "stream \<Rightarrow> bytes" where
  "in_bytes s = concat (s_in s)"

text \<open>A stream that will deliver the given chunks and then close, with no write failing.\<close>

definition stream_of :: "bytes list \<Rightarrow> stream" where
  "stream_of chunks = \<lparr>s_in = chunks, s_end = Eof, s_out = [], s_wfail = None\<rparr>"

fun end_outcome :: "read_end \<Rightarrow> (io_error, 'a) outcome" where
  "end_outcome Eof = Error UnexpectedEof"
| "end_outcome Stall = Hang"
| "end_outcome Reset = Error IoFailed"

text \<open>\<open>read(&mut buf[..n])\<close>: bytes of one chunk; no bytes at the end of the stream.\<close>

fun drop_empty :: "bytes list \<Rightarrow> bytes list" where
  "drop_empty [] = []"
| "drop_empty (c # cs) = (if c = [] then drop_empty cs else c # cs)"

definition io_read :: "nat \<Rightarrow> stream \<Rightarrow> (io_error, bytes) outcome \<times> stream" where
  "io_read n s =
     (case drop_empty (s_in s) of
        [] \<Rightarrow> (if s_end s = Eof then Done [] else end_outcome (s_end s), s\<lparr>s_in := []\<rparr>)
      | c # cs \<Rightarrow> (Done (take n c), s\<lparr>s_in := (if length c \<le> n then cs else drop n c # cs)\<rparr>))"

text \<open>\<open>read_exact\<close> reads across chunks.\<close>

fun drop_bytes :: "nat \<Rightarrow> bytes list \<Rightarrow> bytes list" where
  "drop_bytes n [] = []"
| "drop_bytes n (c # cs) = (if length c \<le> n then drop_bytes (n - length c) cs else drop n c # cs)"

definition io_read_exact :: "nat \<Rightarrow> stream \<Rightarrow> (io_error, bytes) outcome \<times> stream" where
  "io_read_exact n s =
     (if n \<le> length (in_bytes s) then (Done (take n (in_bytes s)), s\<lparr>s_in := drop_bytes n (s_in s)\<rparr>)
      else (end_outcome (s_end s), s\<lparr>s_in := []\<rparr>))"

definition io_write_all :: "bytes \<Rightarrow> stream \<Rightarrow> (io_error, unit) outcome \<times> stream" where
  "io_write_all bs s =
     (case s_wfail s of
        None \<Rightarrow> (Done (), s\<lparr>s_out := s_out s @ bs\<rparr>)
      | Some 0 \<Rightarrow> (Error IoFailed, s)
      | Some (Suc n) \<Rightarrow> (Done (), s\<lparr>s_out := s_out s @ bs, s_wfail := Some n\<rparr>))"

lemma concat_drop_bytes [simp]: "concat (drop_bytes n cs) = drop n (concat cs)"
  by (induction n cs rule: drop_bytes.induct) simp_all

lemma concat_drop_empty [simp]: "concat (drop_empty cs) = concat cs"
  by (induction cs) simp_all

lemma drop_empty_cases: "drop_empty cs = [] \<or> (\<exists>c cs'. drop_empty cs = c # cs' \<and> c \<noteq> [])"
  by (induction cs) auto

lemma in_bytes_stream_of [simp]: "in_bytes (stream_of chunks) = concat chunks"
  by (simp add: in_bytes_def stream_of_def)

lemma io_read_exact_Done:
  "io_read_exact n s = (Done bs, s') \<longleftrightarrow>
     n \<le> length (in_bytes s) \<and> bs = take n (in_bytes s) \<and> s' = s\<lparr>s_in := drop_bytes n (s_in s)\<rparr>"
  by (cases "s_end s") (auto simp: io_read_exact_def)

lemma io_read_exact_in_bytes:
  "io_read_exact n s = (Done bs, s') \<Longrightarrow> in_bytes s = bs @ in_bytes s' \<and> length bs = n"
  by (auto simp: io_read_exact_Done in_bytes_def)

text \<open>Reading a prefix that is there.\<close>

lemma io_read_exact_prefix:
  assumes "in_bytes s = bs @ rest" "length bs = n"
  obtains s' where "io_read_exact n s = (Done bs, s')" "in_bytes s' = rest" "s_out s' = s_out s"
    "s_end s' = s_end s" "s_wfail s' = s_wfail s"
proof -
  have "io_read_exact n s = (Done bs, s\<lparr>s_in := drop_bytes n (s_in s)\<rparr>)"
    using assms by (simp add: io_read_exact_def)
  moreover have "in_bytes (s\<lparr>s_in := drop_bytes n (s_in s)\<rparr>) = rest"
    using assms by (simp add: in_bytes_def)
  ultimately show thesis by (rule that) simp_all
qed

lemma io_write_all_fields [simp]:
  "s_in (snd (io_write_all bs s)) = s_in s" "s_end (snd (io_write_all bs s)) = s_end s"
  by (simp_all add: io_write_all_def split: option.split nat.split)

lemma io_write_all_ok [simp]:
  "s_wfail s = None \<Longrightarrow> io_write_all bs s = (Done (), s\<lparr>s_out := s_out s @ bs\<rparr>)"
  by (simp add: io_write_all_def)

lemma io_write_all_in_bytes [simp]: "in_bytes (snd (io_write_all bs s)) = in_bytes s"
  by (simp add: in_bytes_def)

lemma io_write_all_in_bytes' [simp]: "io_write_all bs s = (r, s') \<Longrightarrow> in_bytes s' = in_bytes s"
  using io_write_all_in_bytes [of bs s] by simp

lemma in_bytes_out [simp]: "in_bytes (s\<lparr>s_out := bs\<rparr>) = in_bytes s"
  by (simp add: in_bytes_def)

lemma io_read_cases:
  assumes "io_read n s = (r, s')"
  obtains "in_bytes s = []" "r = (if s_end s = Eof then Done [] else end_outcome (s_end s))" "s' = s\<lparr>s_in := []\<rparr>"
  | c cs where "c \<noteq> []" "in_bytes s = c @ concat cs" "r = Done (take n c)"
      "s' = s\<lparr>s_in := (if length c \<le> n then cs else drop n c # cs)\<rparr>"
proof -
  have *: "in_bytes s = concat (drop_empty (s_in s))" by (simp add: in_bytes_def)
  show thesis
    using drop_empty_cases [of "s_in s"]
  proof (elim disjE exE conjE)
    assume "drop_empty (s_in s) = []"
    then show thesis using assms that(1) * by (simp add: io_read_def)
  next
    fix c cs assume "drop_empty (s_in s) = c # cs" "c \<noteq> []"
    then show thesis using assms that(2) [of c cs] * by (simp add: io_read_def)
  qed
qed

lemma io_read_in_bytes: "io_read n s = (Done bs, s') \<Longrightarrow> in_bytes s = bs @ in_bytes s'"
  by (erule io_read_cases; cases "s_end s") (auto simp: in_bytes_def)

lemma io_read_length: "io_read n s = (Done bs, s') \<Longrightarrow> length bs \<le> n"
  by (erule io_read_cases; cases "s_end s") auto

lemma io_read_progress:
  "io_read n s = (Done bs, s') \<Longrightarrow> 0 < n \<Longrightarrow> bs = [] \<longleftrightarrow> in_bytes s = [] \<and> s_end s = Eof"
  by (erule io_read_cases; cases "s_end s") auto

lemma io_read_same:
  "io_read n s = (r, s') \<Longrightarrow> s_out s' = s_out s \<and> s_end s' = s_end s \<and> s_wfail s' = s_wfail s"
  by (erule io_read_cases) auto

lemma io_read_end:
  "io_read n s = (r, s') \<Longrightarrow> in_bytes s = [] \<Longrightarrow> r = (if s_end s = Eof then Done [] else end_outcome (s_end s))"
  by (erule io_read_cases) auto

lemma io_read_some:
  "io_read n s = (r, s') \<Longrightarrow> in_bytes s \<noteq> [] \<Longrightarrow> \<exists>bs. r = Done bs"
  by (erule io_read_cases) auto

end
