(* ===== verification/Dns_Tcp.thy ===== *)
theory Dns_Tcp
  imports Dns_Table Net_Stream
begin

text \<open>
  The TCP DNS listener of \<^verbatim>\<open>src/src/dns.rs\<close> (\<open>handle_tcp_dns_client\<close>, \<open>forward_tcp_dns_query\<close>,
  \<open>doh_query\<close>): RFC 7766 framing on a client connection.  Per query, the connection to the upstream
  server (or its failure), the HTTP exchange of the DoH client, and the inputs of the table inserts
  are given by a \<open>tcp_env\<close>.  The HTTP client is a library: it is a function from the URL and the body
  to a result.
\<close>

section \<open>DoH over HTTP\<close>

datatype http_result = HttpFailed | HttpTimeout | HttpStatus nat "bytes option"

definition status_is_success :: "nat \<Rightarrow> bool" where
  "status_is_success n \<longleftrightarrow> 200 \<le> n \<and> n < 300"

datatype dns_error = DohFailed | DohBadStatus nat | DohBodyFailed
  | ConnectFailed | SendFailed | RespLengthFailed | RespBodyFailed

fun doh_query :: "(string \<Rightarrow> bytes \<Rightarrow> http_result) \<Rightarrow> string \<Rightarrow> bytes \<Rightarrow> (dns_error, bytes) outcome" where
  "doh_query post url query =
     (case post url query of
        HttpFailed \<Rightarrow> Error DohFailed
      | HttpTimeout \<Rightarrow> Hang
      | HttpStatus status body \<Rightarrow>
          if \<not> status_is_success status then Error (DohBadStatus status)
          else (case body of None \<Rightarrow> Error DohBodyFailed | Some bytes \<Rightarrow> Done bytes))"

section \<open>Forwarding one query\<close>

datatype tcp_dns_upstream = TcpUpstream socket_addr | DohUpstream string

record tcp_env =
  te_connect :: "socket_addr \<Rightarrow> (io_error, stream) outcome"
  te_post :: "string \<Rightarrow> bytes \<Rightarrow> http_result"
  te_inserts :: "nat \<Rightarrow> insert_env"

text \<open>The result, and the upstream connection as it is left.\<close>

definition tcp_exchange :: "bytes \<Rightarrow> stream \<Rightarrow> (dns_error, bytes) outcome exec \<times> stream" where
  "tcp_exchange query conn =
     (case io_write_all (be16 (of_nat (length query))) conn of
        (Done _, conn) \<Rightarrow>
          (case io_write_all query conn of
             (Done _, conn) \<Rightarrow>
               (case io_read_exact 2 conn of
                  (Done len_buf, conn) \<Rightarrow>
                    (case rd16 len_buf 0 of
                       None \<Rightarrow> (None, conn)
                     | Some len \<Rightarrow>
                         (case io_read_exact (unat len) conn of
                            (Done response, conn) \<Rightarrow> (Some (Done response), conn)
                          | (Error _, conn) \<Rightarrow> (Some (Error RespBodyFailed), conn)
                          | (Hang, conn) \<Rightarrow> (Some Hang, conn)))
                | (Error _, conn) \<Rightarrow> (Some (Error RespLengthFailed), conn)
                | (Hang, conn) \<Rightarrow> (Some Hang, conn))
           | (_, conn) \<Rightarrow> (Some (Error SendFailed), conn))
      | (_, conn) \<Rightarrow> (Some (Error SendFailed), conn))"

fun forward_tcp_dns_query ::
    "tcp_env \<Rightarrow> tcp_dns_upstream \<Rightarrow> bytes \<Rightarrow> (dns_error, bytes) outcome exec" where
  "forward_tcp_dns_query env (TcpUpstream addr) query =
     (case te_connect env addr of
        Error _ \<Rightarrow> Some (Error ConnectFailed)
      | Hang \<Rightarrow> Some Hang
      | Done conn \<Rightarrow> fst (tcp_exchange query conn))"
| "forward_tcp_dns_query env (DohUpstream url) query = Some (doh_query (te_post env) url query)"

section \<open>A client connection\<close>

datatype tcp_end = Closed | LengthReadFailed | QueryTooShort | BodyTimeout | BodyReadFailed
  | WriteFailed | BadUpstreamLength

definition write_framed :: "bytes \<Rightarrow> stream \<Rightarrow> bool \<times> stream" where
  "write_framed msg s =
     (case io_write_all (be16 (of_nat (length msg))) s of
        (Done _, s) \<Rightarrow> (case io_write_all msg s of (Done _, s) \<Rightarrow> (True, s) | (_, s) \<Rightarrow> (False, s))
      | (_, s) \<Rightarrow> (False, s))"

lemma write_framed_in_bytes: "write_framed msg s = (b, s') \<Longrightarrow> in_bytes s' = in_bytes s"
  by (auto simp: write_framed_def split: prod.splits outcome.splits dest!: io_write_all_in_bytes')

text \<open>
  What the loop does with a query that has been read: its result is the end of the connection, or
  \<open>None\<close> to go on with the next query.
\<close>

definition tcp_answer ::
    "tcp_env \<Rightarrow> tcp_dns_upstream \<Rightarrow> bool \<Rightarrow> bytes \<Rightarrow> stream \<Rightarrow> dns_table \<Rightarrow> (tcp_end option \<times> stream \<times> dns_table) exec" where
  "tcp_answer env upstream strip_aaaa query s table = do {
     name \<leftarrow> parse_query_name query;
     qtype \<leftarrow> parse_query_type query;
     let query_name = (case name of None \<Rightarrow> [] | Some n \<Rightarrow> n) in
     if strip_aaaa \<and> qtype = Some DNS_TYPE_AAAA then do {
       resp \<leftarrow> build_nodata query;
       case resp of
         None \<Rightarrow> Some (None, s, table)
       | Some r \<Rightarrow>
           let (ok, s) = write_framed r s in
           Some (if ok then None else Some WriteFailed, s, table) }
     else do {
       answer \<leftarrow> forward_tcp_dns_query env upstream query;
       case answer of
         Hang \<Rightarrow> Some (Some Closed, s, table)
       | Error _ \<Rightarrow> Some (Some Closed, s, table)
       | Done response \<Rightarrow>
           if length response < 12 \<or> 65535 < length response
           then Some (Some BadUpstreamLength, s, table)
           else do {
             table \<leftarrow> record_answers (te_inserts env) query_name response table;
             let (ok, s) = write_framed response s in
             Some (if ok then None else Some WriteFailed, s, table) } } }"

text \<open>One round of the loop.  A read that hangs is ended by the idle or by the query timeout.\<close>

definition tcp_round ::
    "tcp_env \<Rightarrow> tcp_dns_upstream \<Rightarrow> bool \<Rightarrow> stream \<Rightarrow> dns_table \<Rightarrow> (tcp_end option \<times> stream \<times> dns_table) exec" where
  "tcp_round env upstream strip_aaaa s table =
     (case io_read_exact 2 s of
        (Hang, s) \<Rightarrow> Some (Some Closed, s, table)
      | (Error UnexpectedEof, s) \<Rightarrow> Some (Some Closed, s, table)
      | (Error IoFailed, s) \<Rightarrow> Some (Some LengthReadFailed, s, table)
      | (Done len_buf, s) \<Rightarrow> do {
          len \<leftarrow> rd16 len_buf 0;
          if unat len < 12 then Some (Some QueryTooShort, s, table)
          else (case io_read_exact (unat len) s of
             (Hang, s) \<Rightarrow> Some (Some BodyTimeout, s, table)
           | (Error _, s) \<Rightarrow> Some (Some BodyReadFailed, s, table)
           | (Done query, s) \<Rightarrow> tcp_answer env upstream strip_aaaa query s table) })"

lemma tcp_answer_in_bytes:
  "tcp_answer env upstream strip query s table = Some (r, s', table') \<Longrightarrow> in_bytes s' = in_bytes s"
  by (auto simp: tcp_answer_def Let_def write_framed_in_bytes
      split: Option.bind_splits option.splits outcome.splits prod.splits if_splits)

lemma tcp_round_consumes:
  assumes "tcp_round env upstream strip s table = Some (None, s', table')"
  shows "length (in_bytes s') < length (in_bytes s)"
proof -
  obtain len_buf s1 where 1: "io_read_exact 2 s = (Done len_buf, s1)"
    using assms by (auto simp: tcp_round_def split: prod.splits outcome.splits io_error.splits)
  with assms obtain query s2 n where "io_read_exact n s1 = (Done query, s2)"
      "tcp_answer env upstream strip query s2 table = Some (None, s', table')"
    by (auto simp: tcp_round_def split: prod.splits outcome.splits Option.bind_splits if_splits)
  then show ?thesis
    using io_read_exact_in_bytes [OF 1] tcp_answer_in_bytes by (auto dest!: io_read_exact_in_bytes)
qed

text \<open>The loop of \<open>handle_tcp_dns_client\<close>; its \<open>n\<close>th round meets the environment \<open>envs n\<close>.\<close>

function handle_tcp_dns_client ::
    "(nat \<Rightarrow> tcp_env) \<Rightarrow> tcp_dns_upstream \<Rightarrow> bool \<Rightarrow> stream \<Rightarrow> dns_table \<Rightarrow> (tcp_end \<times> stream \<times> dns_table) exec" where
  "handle_tcp_dns_client envs upstream strip_aaaa s table = do {
     (r, s', table') \<leftarrow> tcp_round (envs 0) upstream strip_aaaa s table;
     case r of
       Some e \<Rightarrow> Some (e, s', table')
     | None \<Rightarrow> handle_tcp_dns_client (\<lambda>n. envs (Suc n)) upstream strip_aaaa s' table' }"
  by pat_completeness auto
termination
  by (relation "measure (\<lambda>(envs, upstream, strip, s, table). length (in_bytes s))")
     (auto dest: tcp_round_consumes)

declare handle_tcp_dns_client.simps [simp del]

section \<open>The listener always returns\<close>

lemma rd16_read: "io_read_exact 2 s = (Done bs, s') \<Longrightarrow> runs (rd16 bs 0)"
  using io_read_exact_in_bytes [of 2 s bs s'] by (intro no_panic) simp

lemma case_outcome_no_panic [no_panic]:
  "(\<And>x. r = Done x \<Longrightarrow> runs (f x)) \<Longrightarrow> (\<And>e. r = Error e \<Longrightarrow> runs (g e)) \<Longrightarrow> (r = Hang \<Longrightarrow> runs h) \<Longrightarrow>
     runs (case r of Done x \<Rightarrow> f x | Error e \<Rightarrow> g e | Hang \<Rightarrow> h)"
  by (cases r) simp_all

lemma tcp_exchange_no_panic: "runs (fst (tcp_exchange query conn))"
  unfolding tcp_exchange_def
  by (auto split: prod.splits outcome.splits option.splits dest!: rd16_read)

lemma forward_no_panic [no_panic]: "runs (forward_tcp_dns_query env upstream query)"
  by (cases upstream) (auto simp: tcp_exchange_no_panic split: outcome.splits)

lemma tcp_answer_no_panic [no_panic]: "runs (tcp_answer env upstream strip query s table)"
  unfolding tcp_answer_def Let_def by (auto intro!: no_panic split: prod.splits)

lemma tcp_round_no_panic [no_panic]: "runs (tcp_round env upstream strip s table)"
  unfolding tcp_round_def
  by (auto intro!: no_panic rd16_read split: prod.splits io_error.splits)

lemma tcp_client_no_panic [no_panic]: "runs (handle_tcp_dns_client envs upstream strip s table)"
proof (induction envs upstream strip s table rule: handle_tcp_dns_client.induct)
  case (1 envs upstream strip s table)
  then show ?case
    by (subst handle_tcp_dns_client.simps) (auto intro!: no_panic split: prod.splits)
qed

section \<open>Framing\<close>

text \<open>An RFC 7766 message: its length in two bytes, then its bytes.\<close>

definition frame :: "bytes \<Rightarrow> bytes" where
  "frame msg = be16 (of_nat (length msg)) @ msg"

definition frames :: "bytes list \<Rightarrow> bytes" where
  "frames msgs = concat (map frame msgs)"

definition dns_sized :: "bytes \<Rightarrow> bool" where
  "dns_sized msg \<longleftrightarrow> 12 \<le> length msg \<and> length msg \<le> 65535"

lemma frames_simps [simp]: "frames [] = []" "frames (m # ms) = frame m @ frames ms"
  "frames (ms @ ns) = frames ms @ frames ns"
  by (simp_all add: frames_def)

lemma write_framed_ok:
  "s_wfail s = None \<Longrightarrow> write_framed msg s = (True, s\<lparr>s_out := s_out s @ frame msg\<rparr>)"
  by (simp add: write_framed_def frame_def)

lemma write_framed_True: "write_framed msg s = (True, s') \<Longrightarrow> s_out s' = s_out s @ frame msg"
  by (auto simp: write_framed_def io_write_all_def frame_def
      split: prod.splits outcome.splits option.splits nat.splits)

lemma read_frame:
  assumes "in_bytes s = frame msg @ rest" "dns_sized msg"
  obtains s1 s2 where "io_read_exact 2 s = (Done (be16 (of_nat (length msg))), s1)"
    "rd16 (be16 (of_nat (length msg))) 0 = Some (of_nat (length msg))"
    "unat (of_nat (length msg) :: u16) = length msg"
    "io_read_exact (length msg) s1 = (Done msg, s2)" "in_bytes s2 = rest"
    "s_out s2 = s_out s" "s_end s2 = s_end s" "s_wfail s2 = s_wfail s"
proof -
  obtain s1 where s1: "io_read_exact 2 s = (Done (be16 (of_nat (length msg))), s1)" "in_bytes s1 = msg @ rest"
      "s_out s1 = s_out s" "s_end s1 = s_end s" "s_wfail s1 = s_wfail s"
    using io_read_exact_prefix [of s "be16 (of_nat (length msg))" "msg @ rest" 2] assms(1)
    by (auto simp: frame_def)
  obtain s2 where "io_read_exact (length msg) s1 = (Done msg, s2)" "in_bytes s2 = rest"
      "s_out s2 = s_out s1" "s_end s2 = s_end s1" "s_wfail s2 = s_wfail s1"
    using io_read_exact_prefix [OF s1(2) refl] by blast
  moreover have "rd16 (be16 (of_nat (length msg))) 0 = Some (of_nat (length msg))"
    using rd16_append [of 0 "[]" "of_nat (length msg)" "[]"] by simp
  ultimately show thesis using that s1 assms(2) by (simp add: dns_sized_def)
qed

lemma build_nodata_sized:
  assumes "build_nodata q = Some (Some r)"
  shows "12 \<le> length r \<and> length r \<le> length q"
proof -
  from assms obtain n pos where *: "\<not> length q < 12" "skip_questions n q 12 = Some (Some pos)"
      and r: "length r = 12 + length (take (pos - 12) (drop 12 q))"
    by (auto simp: build_nodata_def build_empty_response_def
        dest!: try_opt_SomeD overwrite_length split: if_splits Option.bind_splits)
      (auto simp: slice_def dest!: overwrite_length split: if_splits)
  then show ?thesis by simp
qed

lemma tcp_answer_out:
  assumes "tcp_answer env upstream strip q s table = Some (r, s', table')" "length q \<le> 65535" "r \<noteq> Some WriteFailed"
  shows "\<exists>ms. s_out s' = s_out s @ frames ms \<and> list_all dns_sized ms"
proof -
  have one: "\<exists>ms. s_out s2 = s_out s @ frames ms \<and> list_all dns_sized ms"
    if "write_framed m s = (True, s2)" "dns_sized m" for m s2
    using that write_framed_True [of m s s2] by (intro exI [of _ "[m]"]) simp
  have none: "\<exists>ms. s_out s = s_out s @ frames ms \<and> list_all dns_sized ms"
    by (intro exI [of _ "[]"]) simp
  show ?thesis
  proof (cases "strip \<and> parse_query_type q = Some (Some DNS_TYPE_AAAA)")
    case True
    then show ?thesis
      using assms none one build_nodata_sized [of q]
      by (auto simp: tcp_answer_def Let_def dns_sized_def
          split: Option.bind_splits option.splits prod.splits if_splits)
  next
    case False
    then show ?thesis
      using assms none one
      by (auto simp: tcp_answer_def Let_def dns_sized_def not_less
          split: Option.bind_splits option.splits outcome.splits prod.splits if_splits)
  qed
qed

lemma tcp_round_out:
  assumes "tcp_round env upstream strip s table = Some (r, s', table')" "r \<noteq> Some WriteFailed"
  shows "\<exists>ms. s_out s' = s_out s @ frames ms \<and> list_all dns_sized ms"
proof -
  have none: "\<exists>ms. s_out s = s_out s @ frames ms \<and> list_all dns_sized ms"
    by (intro exI [of _ "[]"]) simp
  show ?thesis
  proof (cases "io_read_exact 2 s")
    fix r1 s1 assume r1: "io_read_exact 2 s = (r1, s1)"
    have out1: "s_out s1 = s_out s" using r1 by (auto simp: io_read_exact_def split: if_splits)
    show ?thesis
    proof (cases "\<exists>len_buf len. r1 = Done len_buf \<and> rd16 len_buf 0 = Some len \<and> 12 \<le> unat len")
      case True
      then obtain len_buf len where len: "r1 = Done len_buf" "rd16 len_buf 0 = Some len" "12 \<le> unat len"
        by blast
      obtain r2 s2 where r2: "io_read_exact (unat len) s1 = (r2, s2)" by fastforce
      have out2: "s_out s2 = s_out s1" using r2 by (auto simp: io_read_exact_def split: if_splits)
      show ?thesis
      proof (cases r2)
        case (Done query)
        then have "length query = unat len" using io_read_exact_in_bytes r2 by blast
        then have "length query \<le> 65535" using unat_u16_less [of len] by linarith
        moreover have "tcp_answer env upstream strip query s2 table = Some (r, s', table')"
          using assms(1) r1 len r2 Done by (simp add: tcp_round_def)
        ultimately show ?thesis using tcp_answer_out assms(2) out1 out2 by metis
      qed (use assms r1 len r2 out1 out2 none in \<open>auto simp: tcp_round_def\<close>)
    next
      case False
      then show ?thesis
        using assms r1 out1 none
        by (auto simp: tcp_round_def not_le split: outcome.splits io_error.splits Option.bind_splits if_splits)
    qed
  qed
qed

text \<open>What one query is answered with, when it is: NODATA if it is stripped, else the upstream's response.\<close>

definition answer_of :: "tcp_env \<Rightarrow> tcp_dns_upstream \<Rightarrow> bool \<Rightarrow> bytes \<Rightarrow> bytes \<Rightarrow> bool" where
  "answer_of env upstream strip q r \<longleftrightarrow>
     (if strip \<and> parse_query_type q = Some (Some DNS_TYPE_AAAA) then build_nodata q = Some (Some r)
      else forward_tcp_dns_query env upstream q = Some (Done r) \<and> dns_sized r)"

lemma tcp_answer_ok:
  assumes "answer_of env upstream strip q r" "s_wfail s = None"
  shows "\<exists>table'. tcp_answer env upstream strip q s table = Some (None, s\<lparr>s_out := s_out s @ frame r\<rparr>, table')"
proof -
  obtain name where name: "parse_query_name q = Some name" using runsE [OF parse_query_name_no_panic] .
  obtain qt where qt: "parse_query_type q = Some qt" using runsE [OF parse_query_type_no_panic] .
  obtain table' where "record_answers (te_inserts env) (case name of None \<Rightarrow> [] | Some n \<Rightarrow> n) r table = Some table'"
    using runsE [OF record_answers_no_panic] .
  then show ?thesis
    using assms name qt
    by (auto simp: tcp_answer_def answer_of_def write_framed_ok dns_sized_def Let_def split: if_splits)
qed

lemma tcp_round_ok:
  assumes "answer_of env upstream strip q r" "s_wfail s = None" "in_bytes s = frame q @ rest" "dns_sized q"
  shows "\<exists>s' table'. tcp_round env upstream strip s table = Some (None, s', table') \<and>
    s_out s' = s_out s @ frame r \<and> in_bytes s' = rest \<and> s_wfail s' = None \<and> s_end s' = s_end s"
proof -
  obtain s1 s2 where s: "io_read_exact 2 s = (Done (be16 (of_nat (length q))), s1)"
    "rd16 (be16 (of_nat (length q))) 0 = Some (of_nat (length q))"
    "unat (of_nat (length q) :: u16) = length q"
    "io_read_exact (length q) s1 = (Done q, s2)" "in_bytes s2 = rest"
    "s_out s2 = s_out s" "s_end s2 = s_end s" "s_wfail s2 = s_wfail s"
    using read_frame [OF assms(3,4)] .
  obtain table' where "tcp_answer env upstream strip q s2 table =
      Some (None, s2\<lparr>s_out := s_out s2 @ frame r\<rparr>, table')"
    using tcp_answer_ok [OF assms(1), of s2 table] s assms(2) by auto
  then show ?thesis
    using s assms(2,4) by (simp add: tcp_round_def dns_sized_def del: unat_of_nat)
qed

lemma tcp_round_eof:
  "in_bytes s = [] \<Longrightarrow> s_end s = Eof \<Longrightarrow>
     tcp_round env upstream strip s table = Some (Some Closed, s\<lparr>s_in := []\<rparr>, table)"
  by (simp add: tcp_round_def io_read_exact_def)

section \<open>Properties\<close>

text \<open>
  Whatever a TCP client and the upstream do, the handler of its connection comes to an end without a
  panic, and unless a write to the client failed, what it has written is a sequence of complete
  RFC 7766 messages of 12 to 65535 bytes.
\<close>

theorem tcp_listener_total:
  "\<exists>e s' table'. handle_tcp_dns_client envs upstream strip s table = Some (e, s', table') \<and>
     (e = WriteFailed \<or> (\<exists>msgs. s_out s' = s_out s @ frames msgs \<and> list_all dns_sized msgs))"
proof -
  obtain e s' table' where run: "handle_tcp_dns_client envs upstream strip s table = Some (e, s', table')"
    using runsE [OF tcp_client_no_panic, of envs upstream strip s table] by (metis prod_cases3)
  moreover have "\<exists>msgs. s_out s' = s_out s @ frames msgs \<and> list_all dns_sized msgs" if "e \<noteq> WriteFailed"
    using run that
  proof (induction envs upstream strip s table rule: handle_tcp_dns_client.induct)
    case (1 envs upstream strip s table)
    then obtain r s1 table1 where round: "tcp_round (envs 0) upstream strip s table = Some (r, s1, table1)"
      by (subst (asm) handle_tcp_dns_client.simps) (auto split: Option.bind_splits)
    note run = "1.prems"(1) [unfolded handle_tcp_dns_client.simps [of envs upstream strip s table] round]
    have "r \<noteq> Some WriteFailed" using run "1.prems"(2) by auto
    from tcp_round_out [OF round this] obtain ms where
      ms: "s_out s1 = s_out s @ frames ms" "list_all dns_sized ms" by blast
    show ?case
    proof (cases r)
      case None
      with "1.IH" [OF round refl refl None] run "1.prems"(2) obtain ms' where
        "s_out s' = s_out s1 @ frames ms'" "list_all dns_sized ms'" by auto
      then show ?thesis using ms by (intro exI [of _ "ms @ ms'"]) simp
    next
      case (Some e')
      then show ?thesis using run ms by auto
    qed
  qed
  ultimately show ?thesis by blast
qed

text \<open>
  C23. A client that sends framed queries, in whatever chunks, and then closes, gets their answers framed
  and in the order of the queries: NODATA for a stripped AAAA query, the upstream's response otherwise.
\<close>

theorem tcp_serves_in_order:
  assumes "in_bytes s = frames qs" "s_end s = Eof" "s_wfail s = None"
    and "list_all dns_sized qs" and "length rs = length qs"
    and "\<forall>n < length qs. answer_of (envs n) upstream strip (qs ! n) (rs ! n)"
  shows "\<exists>s' table'. handle_tcp_dns_client envs upstream strip s table = Some (Closed, s', table') \<and>
           s_out s' = s_out s @ frames rs"
  using assms
proof (induction qs arbitrary: rs envs s table)
  case Nil
  then show ?case by (simp add: handle_tcp_dns_client.simps [of envs] tcp_round_eof)
next
  case (Cons q qs)
  then obtain r rs' where rs: "rs = r # rs'" by (cases rs) auto
  with Cons.prems have "answer_of (envs 0) upstream strip q r" "dns_sized q" "in_bytes s = frame q @ frames qs" by auto
  with tcp_round_ok [of "envs 0" upstream strip q r s "frames qs" table] Cons.prems(2,3)
  obtain s1 table1 where round: "tcp_round (envs 0) upstream strip s table = Some (None, s1, table1)"
      "s_out s1 = s_out s @ frame r" "in_bytes s1 = frames qs" "s_wfail s1 = None" "s_end s1 = Eof" by auto
  have "\<forall>n < length qs. answer_of (envs (Suc n)) upstream strip (qs ! n) (rs' ! n)"
    using Cons.prems(6) rs by auto
  with Cons.IH [of s1 rs' "\<lambda>n. envs (Suc n)" table1] round Cons.prems rs
  obtain s' table' where "handle_tcp_dns_client (\<lambda>n. envs (Suc n)) upstream strip s1 table1 = Some (Closed, s', table')"
      "s_out s' = s_out s1 @ frames rs'" by auto
  then show ?case
    using round rs by (simp add: handle_tcp_dns_client.simps [of envs])
qed

definition example_tcp_env :: tcp_env where
  "example_tcp_env = \<lparr>te_connect = \<lambda>_. Error IoFailed,
     te_post = \<lambda>url body. HttpStatus 200 (Some (enc_message example_response)), te_inserts = \<lambda>_. example_env 0\<rparr>"

lemma dns_sized_examples: "dns_sized (enc_message example_response)" "dns_sized (replicate 12 0)"
  by (simp_all add: dns_sized_def example_response_def enc_message_def enc_question_def enc_rr_def enc_label_def)

theorem tcp_serves_in_order_witness:
  "\<exists>s' table. handle_tcp_dns_client (\<lambda>_. example_tcp_env) (DohUpstream ''https://d/'') False
       (stream_of [[0], 12 # replicate 12 0]) new_table = Some (Closed, s', table) \<and>
     s_out s' = frame (enc_message example_response)"
proof -
  define q :: bytes where "q = replicate 12 0"
  define r where "r = enc_message example_response"
  define s where "s = stream_of [[0], 12 # q]"
  have sized: "dns_sized q" "dns_sized r" by (simp_all only: q_def r_def dns_sized_examples)
  have frames: "in_bytes s = frames [q]"
    by (simp add: s_def q_def frame_def be16_def)
  have answer: "answer_of example_tcp_env (DohUpstream ''https://d/'') False q r"
    using sized by (simp add: answer_of_def example_tcp_env_def status_is_success_def r_def)
  have s: "s_end s = Eof" "s_wfail s = None" "s_out s = []" by (simp_all add: s_def stream_of_def)
  have "\<exists>s' table. handle_tcp_dns_client (\<lambda>_. example_tcp_env) (DohUpstream ''https://d/'') False s new_table =
      Some (Closed, s', table) \<and> s_out s' = s_out s @ frames [r]"
    by (rule tcp_serves_in_order [OF frames s(1,2)]) (simp_all add: sized answer)
  then show ?thesis by (simp add: s_def [symmetric] q_def [symmetric] r_def [symmetric] s(3))
qed

text \<open>
  Forwarding over TCP frames the query on the upstream connection and returns exactly the bytes of
  the response that the upstream frames, in whatever chunks they come and whatever follows them.
\<close>

theorem tcp_forward_roundtrip:
  assumes "te_connect env addr = Done conn" "s_wfail conn = None"
    and "in_bytes conn = frame response @ rest" "length response \<le> 65535"
  shows "forward_tcp_dns_query env (TcpUpstream addr) query = Some (Done response) \<and>
         s_out (snd (tcp_exchange query conn)) = s_out conn @ frame query"
proof -
  let ?conn = "conn\<lparr>s_out := s_out conn @ frame query\<rparr>"
  have "in_bytes ?conn = be16 (of_nat (length response)) @ response @ rest"
    using assms(3) by (simp add: frame_def)
  then obtain c1 where c1: "io_read_exact 2 ?conn = (Done (be16 (of_nat (length response))), c1)"
      "in_bytes c1 = response @ rest" "s_out c1 = s_out ?conn"
    using io_read_exact_prefix [of ?conn "be16 (of_nat (length response))" "response @ rest" 2] by auto
  obtain c2 where c2: "io_read_exact (length response) c1 = (Done response, c2)" "s_out c2 = s_out c1"
    using io_read_exact_prefix [OF c1(2) refl] by blast
  have "rd16 (be16 (of_nat (length response))) 0 = Some (of_nat (length response))"
    using rd16_append [of 0 "[]" "of_nat (length response)" "[]"] by simp
  moreover have "unat (of_nat (length response) :: u16) = length response" using assms(4) by simp
  ultimately have "tcp_exchange query conn = (Some (Done response), c2)"
    using assms(2) c1 c2 by (simp add: tcp_exchange_def frame_def del: unat_of_nat)
  then show ?thesis using assms(1) c1 c2 by simp
qed

theorem tcp_forward_roundtrip_witness:
  "forward_tcp_dns_query (example_tcp_env\<lparr>te_connect := \<lambda>_. Done (stream_of [[0], [2, 7], [8, 9]])\<rparr>)
     (TcpUpstream (SockV4 (Ipv4 8 8 8 8) 53)) [1, 2, 3] = Some (Done [7, 8])"
proof -
  have "in_bytes (stream_of [[0], [2, 7], [8, 9]]) = frame [7, 8] @ [9]"
    by (simp add: frame_def be16_def)
  then show ?thesis
    using tcp_forward_roundtrip [of "example_tcp_env\<lparr>te_connect := \<lambda>_. Done (stream_of [[0], [2, 7], [8, 9]])\<rparr>"
        "SockV4 (Ipv4 8 8 8 8) 53" "stream_of [[0], [2, 7], [8, 9]]" "[7, 8]" "[9]" "[1, 2, 3]"]
    by (simp add: stream_of_def)
qed

end
