(* ===== verification/Dns_Doh.thy ===== *)
theory Dns_Doh
  imports Dns_Cache
begin

text \<open>
  The DNS forwarder with a DoH upstream (\<open>run_doh\<close> and \<open>QueryCoalescer\<close> of \<^verbatim>\<open>src/src/dns.rs\<close>) as a
  machine whose steps are the accesses to shared state: the main loop, one fetching task per query
  sent upstream, and one task per client that joined a query in flight run concurrently, and a run of
  the program is an interleaving of their steps.

  A fetching task owns the broadcast channel that it registered, so that the number of the task is
  also the number of the channel.  A receiver remembers how many messages had been sent when it
  subscribed and only sees later ones; the channel is closed when the task has ended and the
  coalescer has dropped its copy of the sender.  The HTTP exchange is an input: the response body,
  or \<open>None\<close> for any failure of \<open>doh_query\<close>.
\<close>

section \<open>State\<close>

datatype main_phase = Receiving | Checking bytes socket_addr | Joining bytes socket_addr
  | Registering bytes socket_addr | Stopped

datatype fetch_phase = Asking | Caching bytes | Completing "bytes option" | Broadcasting "bytes option"
  | Recording bytes | Replying bytes | Finished

record fetch_task =
  ft_packet :: bytes
  ft_client :: socket_addr
  ft_phase :: fetch_phase
  ft_sent :: "bytes list"

record join_task =
  jt_chan :: nat
  jt_pos :: nat
  jt_query :: bytes
  jt_client :: socket_addr
  jt_done :: bool

text \<open>
  \<open>ds_seen\<close> and \<open>ds_answers\<close> record the history: the queries received, and what upstream answered
  to which of them.
\<close>

record doh_state =
  ds_main :: main_phase
  ds_cache :: dns_cache
  ds_table :: dns_table
  ds_in_flight :: "(bytes, nat) hash_map"
  ds_fetch :: "fetch_task list"
  ds_joins :: "join_task list"
  ds_replies :: "(bytes \<times> socket_addr) list"
  ds_seen :: "(bytes \<times> socket_addr) list"
  ds_answers :: "(bytes \<times> bytes option) list"

definition doh_init :: doh_state where
  "doh_init = \<lparr>ds_main = Receiving, ds_cache = new_cache, ds_table = new_table, ds_in_flight = [],
     ds_fetch = [], ds_joins = [], ds_replies = [], ds_seen = [], ds_answers = []\<rparr>"

section \<open>The coalescer\<close>

definition try_join :: "doh_state \<Rightarrow> bytes \<Rightarrow> (nat \<times> nat) option" where
  "try_join s key =
     (case hm_get (ds_in_flight s) key of
        None \<Rightarrow> None
      | Some chan \<Rightarrow> Some (chan, length (ft_sent (ds_fetch s ! chan))))"

definition register :: "bytes \<Rightarrow> nat \<Rightarrow> doh_state \<Rightarrow> doh_state" where
  "register key chan s = s\<lparr>ds_in_flight := hm_insert key chan (ds_in_flight s)\<rparr>"

definition complete :: "bytes \<Rightarrow> doh_state \<Rightarrow> doh_state" where
  "complete key s = s\<lparr>ds_in_flight := hm_remove key (ds_in_flight s)\<rparr>"

definition chan_closed :: "doh_state \<Rightarrow> nat \<Rightarrow> bool" where
  "chan_closed s chan \<longleftrightarrow>
     ft_phase (ds_fetch s ! chan) = Finished \<and> list_all (\<lambda>(_, c). c \<noteq> chan) (ds_in_flight s)"

section \<open>Steps\<close>

definition name_of :: "bytes \<Rightarrow> string exec" where
  "name_of packet = do { n \<leftarrow> parse_query_name packet; Some (case n of None \<Rightarrow> [] | Some n \<Rightarrow> n) }"

definition tx_id_of :: "bytes \<Rightarrow> u16 exec" where
  "tx_id_of packet = rd16 packet 0"

definition reply :: "bytes \<Rightarrow> socket_addr \<Rightarrow> doh_state \<Rightarrow> doh_state" where
  "reply d client s = s\<lparr>ds_replies := ds_replies s @ [(d, client)]\<rparr>"

text \<open>The main loop: receive, look in the cache, try to join, register and spawn a fetch.\<close>

definition doh_receive :: "bool \<Rightarrow> bytes \<Rightarrow> socket_addr \<Rightarrow> doh_state \<Rightarrow> doh_state exec" where
  "doh_receive strip_aaaa packet client s0 =
     (let s = s0\<lparr>ds_seen := ds_seen s0 @ [(packet, client)]\<rparr> in
      if length packet < 12 then Some s
      else do {
        qtype \<leftarrow> parse_query_type packet;
        if strip_aaaa \<and> qtype = Some DNS_TYPE_AAAA then do {
          resp \<leftarrow> build_nodata packet;
          Some (case resp of None \<Rightarrow> s | Some r \<Rightarrow> reply r client s) }
        else Some (s\<lparr>ds_main := Checking packet client\<rparr>) })"

definition doh_check ::
    "nat \<Rightarrow> nat \<Rightarrow> (nat \<Rightarrow> insert_env) \<Rightarrow> bytes \<Rightarrow> socket_addr \<Rightarrow> doh_state \<Rightarrow> doh_state exec" where
  "doh_check now now' envs packet client s = do {
     query_name \<leftarrow> name_of packet;
     tx_id \<leftarrow> tx_id_of packet;
     hit \<leftarrow> cache_get now now' (ds_cache s) (cache_key packet) tx_id;
     case hit of
       None \<Rightarrow> Some (s\<lparr>ds_main := Joining packet client\<rparr>)
     | Some cached \<Rightarrow> do {
         table \<leftarrow> record_answers envs query_name cached (ds_table s);
         Some (reply cached client (s\<lparr>ds_table := table, ds_main := Receiving\<rparr>)) } }"

definition doh_join :: "bytes \<Rightarrow> socket_addr \<Rightarrow> doh_state \<Rightarrow> doh_state" where
  "doh_join packet client s =
     (case try_join s (cache_key packet) of
        None \<Rightarrow> s\<lparr>ds_main := Registering packet client\<rparr>
      | Some (chan, pos) \<Rightarrow>
          s\<lparr>ds_main := Receiving,
            ds_joins := ds_joins s @ [\<lparr>jt_chan = chan, jt_pos = pos, jt_query = packet, jt_client = client,
                                      jt_done = False\<rparr>]\<rparr>)"

definition doh_register :: "bytes \<Rightarrow> socket_addr \<Rightarrow> doh_state \<Rightarrow> doh_state" where
  "doh_register packet client s0 =
     (let s = register (cache_key packet) (length (ds_fetch s0)) s0 in
      s\<lparr>ds_main := Receiving,
        ds_fetch := ds_fetch s @ [\<lparr>ft_packet = packet, ft_client = client, ft_phase = Asking, ft_sent = []\<rparr>]\<rparr>)"

definition set_task :: "nat \<Rightarrow> fetch_phase \<Rightarrow> doh_state \<Rightarrow> doh_state" where
  "set_task i ph s = s\<lparr>ds_fetch := (ds_fetch s)[i := (ds_fetch s ! i)\<lparr>ft_phase := ph\<rparr>]\<rparr>"

definition broadcast :: "nat \<Rightarrow> bytes \<Rightarrow> doh_state \<Rightarrow> doh_state" where
  "broadcast i r s = s\<lparr>ds_fetch := (ds_fetch s)[i := (ds_fetch s ! i)\<lparr>ft_sent := ft_sent (ds_fetch s ! i) @ [r]\<rparr>]\<rparr>"

text \<open>A fetching task: the answer of \<open>doh_query\<close> comes in, and then one step per access to shared state.\<close>

definition doh_answer :: "nat \<Rightarrow> bytes option \<Rightarrow> doh_state \<Rightarrow> doh_state" where
  "doh_answer i result s0 =
     (let s = s0\<lparr>ds_answers := ds_answers s0 @ [(ft_packet (ds_fetch s0 ! i), result)]\<rparr> in
      case result of Some response \<Rightarrow> set_task i (Caching response) s | None \<Rightarrow> set_task i (Completing None) s)"

definition doh_advance :: "put_env \<Rightarrow> (nat \<Rightarrow> insert_env) \<Rightarrow> nat \<Rightarrow> doh_state \<Rightarrow> doh_state exec" where
  "doh_advance penv envs i s =
     (let t = ds_fetch s ! i in
      case ft_phase t of
        Caching response \<Rightarrow> do {
          resolved_ips \<leftarrow> parse_ip_records response;
          cache \<leftarrow> (if resolved_ips \<noteq> None then cache_put penv (cache_key (ft_packet t)) response (ds_cache s)
                   else Some (ds_cache s));
          Some (set_task i (Completing (Some response)) (s\<lparr>ds_cache := cache\<rparr>)) }
      | Completing result \<Rightarrow> Some (set_task i (Broadcasting result) (complete (cache_key (ft_packet t)) s))
      | Broadcasting (Some response) \<Rightarrow> Some (set_task i (Recording response) (broadcast i response s))
      | Broadcasting None \<Rightarrow> do {
          resp \<leftarrow> build_servfail (ft_packet t);
          Some (case resp of
                  None \<Rightarrow> set_task i Finished s
                | Some servfail \<Rightarrow> set_task i (Replying servfail) (broadcast i servfail s)) }
      | Recording response \<Rightarrow> do {
          query_name \<leftarrow> name_of (ft_packet t);
          table \<leftarrow> record_answers envs query_name response (ds_table s);
          Some (set_task i (Replying response) (s\<lparr>ds_table := table\<rparr>)) }
      | Replying response \<Rightarrow> Some (set_task i Finished (reply response (ft_client t) s))
      | _ \<Rightarrow> Some s)"

text \<open>A joined client: \<open>rx.recv()\<close> yields a message sent after the subscription, or the closing.\<close>

definition doh_recv :: "(nat \<Rightarrow> insert_env) \<Rightarrow> nat \<Rightarrow> doh_state \<Rightarrow> doh_state exec" where
  "doh_recv envs j s =
     (let t = ds_joins s ! j;
          sent = ft_sent (ds_fetch s ! jt_chan t);
          finish = (\<lambda>s. s\<lparr>ds_joins := (ds_joins s)[j := t\<lparr>jt_done := True\<rparr>]\<rparr>) in
      if jt_pos t < length sent then do {
        tx_id \<leftarrow> tx_id_of (jt_query t);
        query_name \<leftarrow> name_of (jt_query t);
        let resp = set_tx_id tx_id (sent ! jt_pos t) in do {
          table \<leftarrow> record_answers envs query_name resp (ds_table s);
          Some (finish (reply resp (jt_client t) (s\<lparr>ds_table := table\<rparr>))) } }
      else Some (finish s))"

datatype doh_event =
    Receive bytes socket_addr
  | ReceiveError
  | Check nat nat "nat \<Rightarrow> insert_env"
  | Join
  | Register
  | Answer nat "bytes option"
  | Advance put_env "nat \<Rightarrow> insert_env" nat
  | Recv "nat \<Rightarrow> insert_env" nat

text \<open>When a step can happen: who runs next, and what an \<open>await\<close> is waiting for.\<close>

fun doh_enabled :: "doh_event \<Rightarrow> doh_state \<Rightarrow> bool" where
  "doh_enabled (Receive packet client) s = (ds_main s = Receiving)"
| "doh_enabled ReceiveError s = (ds_main s = Receiving)"
| "doh_enabled (Check now now' envs) s = (case ds_main s of Checking _ _ \<Rightarrow> True | _ \<Rightarrow> False)"
| "doh_enabled Join s = (case ds_main s of Joining _ _ \<Rightarrow> True | _ \<Rightarrow> False)"
| "doh_enabled Register s = (case ds_main s of Registering _ _ \<Rightarrow> True | _ \<Rightarrow> False)"
| "doh_enabled (Answer i r) s = (i < length (ds_fetch s) \<and> ft_phase (ds_fetch s ! i) = Asking)"
| "doh_enabled (Advance penv envs i) s =
     (i < length (ds_fetch s) \<and> ft_phase (ds_fetch s ! i) \<notin> {Asking, Finished})"
| "doh_enabled (Recv envs j) s =
     (j < length (ds_joins s) \<and> \<not> jt_done (ds_joins s ! j) \<and>
      (jt_pos (ds_joins s ! j) < length (ft_sent (ds_fetch s ! jt_chan (ds_joins s ! j))) \<or>
       chan_closed s (jt_chan (ds_joins s ! j))))"

fun doh_step :: "bool \<Rightarrow> doh_event \<Rightarrow> doh_state \<Rightarrow> doh_state exec" where
  "doh_step strip (Receive packet client) s = doh_receive strip packet client s"
| "doh_step strip ReceiveError s = Some (s\<lparr>ds_main := Stopped\<rparr>)"
| "doh_step strip (Check now now' envs) s =
     (case ds_main s of Checking packet client \<Rightarrow> doh_check now now' envs packet client s | _ \<Rightarrow> Some s)"
| "doh_step strip Join s =
     Some (case ds_main s of Joining packet client \<Rightarrow> doh_join packet client s | _ \<Rightarrow> s)"
| "doh_step strip Register s =
     Some (case ds_main s of Registering packet client \<Rightarrow> doh_register packet client s | _ \<Rightarrow> s)"
| "doh_step strip (Answer i r) s = Some (doh_answer i r s)"
| "doh_step strip (Advance penv envs i) s = doh_advance penv envs i s"
| "doh_step strip (Recv envs j) s = doh_recv envs j s"

inductive doh_reachable :: "bool \<Rightarrow> doh_state \<Rightarrow> bool" for strip where
  init: "doh_reachable strip doh_init"
| step: "doh_reachable strip s \<Longrightarrow> doh_enabled ev s \<Longrightarrow> doh_step strip ev s = Some s' \<Longrightarrow>
           doh_reachable strip s'"

section \<open>The invariant\<close>

text \<open>A fetching task whose entry the coalescer still holds.\<close>

fun in_progress :: "fetch_phase \<Rightarrow> bool" where
  "in_progress Asking = True"
| "in_progress (Caching r) = True"
| "in_progress (Completing r) = True"
| "in_progress _ = False"

text \<open>What upstream, or the forwarder for it, answered to the packet \<open>p\<close>.\<close>

definition answered_with :: "(bytes \<times> bytes option) list \<Rightarrow> bytes \<Rightarrow> bytes \<Rightarrow> bool" where
  "answered_with answers p r \<longleftrightarrow>
     (p, Some r) \<in> set answers \<or> (p, None) \<in> set answers \<and> build_servfail p = Some (Some r)"

definition flight_ok :: "(bytes, nat) hash_map \<Rightarrow> fetch_task list \<Rightarrow> bool" where
  "flight_ok fl fetch \<longleftrightarrow> hm_ok fl \<and>
     (\<forall>k c. hm_get fl k = Some c \<longleftrightarrow>
        c < length fetch \<and> k = cache_key (ft_packet (fetch ! c)) \<and> in_progress (ft_phase (fetch ! c)))"

fun phase_ok :: "(bytes \<times> bytes option) list \<Rightarrow> bytes \<Rightarrow> bytes list \<Rightarrow> fetch_phase \<Rightarrow> bool" where
  "phase_ok answers p sent Asking = (sent = [])"
| "phase_ok answers p sent (Caching r) = (sent = [] \<and> (p, Some r) \<in> set answers)"
| "phase_ok answers p sent (Completing x) = (sent = [] \<and> (p, x) \<in> set answers)"
| "phase_ok answers p sent (Broadcasting x) = (sent = [] \<and> (p, x) \<in> set answers)"
| "phase_ok answers p sent (Recording r) = (sent \<noteq> [] \<and> answered_with answers p r)"
| "phase_ok answers p sent (Replying r) = (sent \<noteq> [] \<and> answered_with answers p r)"
| "phase_ok answers p sent Finished = True"

definition task_ok :: "(bytes \<times> bytes option) list \<Rightarrow> (bytes \<times> socket_addr) list \<Rightarrow> fetch_task \<Rightarrow> bool" where
  "task_ok answers seen t \<longleftrightarrow>
     12 \<le> length (ft_packet t) \<and> (ft_packet t, ft_client t) \<in> set seen \<and>
     list_all (answered_with answers (ft_packet t)) (ft_sent t) \<and>
     phase_ok answers (ft_packet t) (ft_sent t) (ft_phase t)"

definition join_ok :: "fetch_task list \<Rightarrow> (bytes \<times> socket_addr) list \<Rightarrow> join_task \<Rightarrow> bool" where
  "join_ok fetch seen t \<longleftrightarrow>
     12 \<le> length (jt_query t) \<and> (jt_query t, jt_client t) \<in> set seen \<and> jt_pos t = 0 \<and>
     jt_chan t < length fetch \<and> drop 2 (ft_packet (fetch ! jt_chan t)) = drop 2 (jt_query t)"

text \<open>A reply to the query \<open>q\<close>, from an answer to a query that differs from it in the ID at most.\<close>

definition doh_good_reply :: "bool \<Rightarrow> (bytes \<times> bytes option) list \<Rightarrow> bytes \<Rightarrow> bytes \<Rightarrow> bool" where
  "doh_good_reply strip answers q d \<longleftrightarrow>
     strip \<and> parse_query_type q = Some (Some DNS_TYPE_AAAA) \<and> build_nodata q = Some (Some d) \<or>
     answered_with answers q d \<or>
     (\<exists>p r tx. drop 2 p = drop 2 q \<and> answered_with answers p r \<and> tx_id_of q = Some tx \<and>
        (d = set_tx_id tx r \<or>
         (\<exists>now inserted. cache_replay now tx (r, inserted) = Some d)))"

definition replies_ok :: "bool \<Rightarrow> doh_state \<Rightarrow> bool" where
  "replies_ok strip s \<longleftrightarrow>
     (\<forall>(d, c) \<in> set (ds_replies s). \<exists>q. (q, c) \<in> set (ds_seen s) \<and> 12 \<le> length q \<and>
        doh_good_reply strip (ds_answers s) q d)"

definition cache_ok :: "(bytes \<times> bytes option) list \<Rightarrow> dns_cache \<Rightarrow> bool" where
  "cache_ok answers cache \<longleftrightarrow> hm_ok cache \<and>
     (\<forall>(k, e) \<in> set cache. \<exists>p. 12 \<le> length p \<and> k = cache_key p \<and> (p, Some (ce_response e)) \<in> set answers)"

fun main_ok :: "(bytes \<times> socket_addr) list \<Rightarrow> (bytes, nat) hash_map \<Rightarrow> main_phase \<Rightarrow> bool" where
  "main_ok seen fl (Checking p c) = (12 \<le> length p \<and> (p, c) \<in> set seen)"
| "main_ok seen fl (Joining p c) = (12 \<le> length p \<and> (p, c) \<in> set seen)"
| "main_ok seen fl (Registering p c) =
     (12 \<le> length p \<and> (p, c) \<in> set seen \<and> hm_get fl (cache_key p) = None)"
| "main_ok seen fl _ = True"

definition doh_inv :: "bool \<Rightarrow> doh_state \<Rightarrow> bool" where
  "doh_inv strip s \<longleftrightarrow>
     main_ok (ds_seen s) (ds_in_flight s) (ds_main s) \<and>
     flight_ok (ds_in_flight s) (ds_fetch s) \<and>
     list_all (task_ok (ds_answers s) (ds_seen s)) (ds_fetch s) \<and>
     list_all (join_ok (ds_fetch s) (ds_seen s)) (ds_joins s) \<and>
     cache_ok (ds_answers s) (ds_cache s) \<and> replies_ok strip s"

lemma doh_inv_init: "doh_inv strip doh_init"
  by (auto simp: doh_inv_def doh_init_def flight_ok_def cache_ok_def replies_ok_def new_cache_def)

lemma answered_with_mono: "answered_with an p r \<Longrightarrow> set an \<subseteq> set an' \<Longrightarrow> answered_with an' p r"
  by (auto simp: answered_with_def)

lemma task_ok_mono:
  assumes "set an \<subseteq> set an'" "set seen \<subseteq> set seen'" "task_ok an seen t"
  shows "task_ok an' seen' t"
proof -
  have "phase_ok an' p sent ph" if "phase_ok an p sent ph" for p sent ph
    using that assms(1) by (cases ph) (auto intro: answered_with_mono)
  moreover have "list_all (answered_with an' p) rs" if "list_all (answered_with an p) rs" for p rs
    using that by (rule list.pred_mono_strong) (rule answered_with_mono [OF _ assms(1)])
  ultimately show ?thesis using assms by (auto simp: task_ok_def)
qed

lemma replies_ok_mono:
  assumes "replies_ok strip s" "ds_replies s' = ds_replies s"
    "set (ds_answers s) \<subseteq> set (ds_answers s')" "set (ds_seen s) \<subseteq> set (ds_seen s')"
  shows "replies_ok strip s'"
  using assms answered_with_mono [OF _ assms(3)] unfolding replies_ok_def doh_good_reply_def
  by (fastforce split: prod.splits)

lemma replies_ok_reply:
  assumes "replies_ok strip s" "(q, c) \<in> set (ds_seen s)" "12 \<le> length q"
    "doh_good_reply strip (ds_answers s) q d"
  shows "replies_ok strip (reply d c s)"
  using assms by (auto simp: replies_ok_def reply_def)

lemma cache_ok_mono: "cache_ok an cache \<Longrightarrow> set an \<subseteq> set an' \<Longrightarrow> cache_ok an' cache"
  by (fastforce simp: cache_ok_def)

section \<open>Every step keeps the invariant\<close>

lemma list_all_mono: "list_all P xs \<Longrightarrow> (\<And>x. P x \<Longrightarrow> Q x) \<Longrightarrow> list_all Q xs"
  by (auto simp: list_all_iff)

lemma doh_inv_frame:
  assumes "doh_inv strip s" "ds_fetch s' = ds_fetch s" "ds_in_flight s' = ds_in_flight s"
    "ds_joins s' = ds_joins s" "ds_cache s' = ds_cache s" "ds_answers s' = ds_answers s"
    "set (ds_seen s) \<subseteq> set (ds_seen s')"
    "main_ok (ds_seen s') (ds_in_flight s) (ds_main s')" "replies_ok strip s'"
  shows "doh_inv strip s'"
proof -
  have "join_ok fetch (ds_seen s') t" if "join_ok fetch (ds_seen s) t" for fetch t
    using that assms(7) by (auto simp: join_ok_def)
  then show ?thesis
    using assms list_all_mono [of "task_ok (ds_answers s) (ds_seen s)" "ds_fetch s"
        "task_ok (ds_answers s') (ds_seen s')"] task_ok_mono [of "ds_answers s" "ds_answers s'" "ds_seen s" "ds_seen s'"]
      list_all_mono [of "join_ok (ds_fetch s) (ds_seen s)" "ds_joins s" "join_ok (ds_fetch s) (ds_seen s')"]
    unfolding doh_inv_def by auto
qed

text \<open>A step of the fetching task \<open>i\<close>.\<close>

lemma doh_inv_fetch:
  assumes inv: "doh_inv strip s" and i: "i < length (ds_fetch s)"
    and fetch: "ds_fetch s' = (ds_fetch s)[i := t]" "ft_packet t = ft_packet (ds_fetch s ! i)"
    and same: "ds_joins s' = ds_joins s" "ds_seen s' = ds_seen s" "ds_main s' = ds_main s"
    and new: "set (ds_answers s) \<subseteq> set (ds_answers s')" "task_ok (ds_answers s') (ds_seen s) t"
      "cache_ok (ds_answers s') (ds_cache s')" "replies_ok strip s'"
    and flight: "flight_ok (ds_in_flight s') (ds_fetch s')"
      "\<And>k. hm_get (ds_in_flight s) k = None \<Longrightarrow> hm_get (ds_in_flight s') k = None"
  shows "doh_inv strip s'"
proof -
  have "main_ok (ds_seen s) (ds_in_flight s') (ds_main s)"
    using inv flight(2) by (cases "ds_main s") (auto simp: doh_inv_def)
  moreover have "list_all (task_ok (ds_answers s') (ds_seen s)) (ds_fetch s')"
  proof -
    have "list_all (task_ok (ds_answers s') (ds_seen s)) (ds_fetch s)"
      using inv task_ok_mono [OF new(1) subset_refl, of "ds_seen s"]
      by (auto simp: doh_inv_def list_all_iff)
    then show ?thesis
      unfolding fetch(1) using new(2) i by (auto simp: list_all_length nth_list_update)
  qed
  moreover have "join_ok (ds_fetch s') (ds_seen s) j" if "join_ok (ds_fetch s) (ds_seen s) j" for j
    using that fetch i by (auto simp: join_ok_def nth_list_update)
  then have "list_all (join_ok (ds_fetch s') (ds_seen s)) (ds_joins s)"
    using inv by (auto simp: doh_inv_def list_all_iff)
  ultimately show ?thesis using new(3,4) flight(1) same by (simp add: doh_inv_def)
qed

lemma flight_ok_same:
  assumes "flight_ok fl fetch" "i < length fetch" "ft_packet t = ft_packet (fetch ! i)"
    "in_progress (ft_phase t) = in_progress (ft_phase (fetch ! i))"
  shows "flight_ok fl (fetch[i := t])"
  using assms by (auto simp: flight_ok_def nth_list_update)

lemma flight_ok_complete:
  assumes ok: "flight_ok fl fetch" and i: "i < length fetch" "in_progress (ft_phase (fetch ! i))"
    and t: "ft_packet t = ft_packet (fetch ! i)" "\<not> in_progress (ft_phase t)"
  shows "flight_ok (hm_remove (cache_key (ft_packet (fetch ! i))) fl) (fetch[i := t])"
proof -
  let ?key = "cache_key (ft_packet (fetch ! i))"
  have get: "hm_get fl k = Some c \<longleftrightarrow>
      c < length fetch \<and> k = cache_key (ft_packet (fetch ! c)) \<and> in_progress (ft_phase (fetch ! c))" for k c
    using ok by (simp add: flight_ok_def)
  have "c = i" if "c < length fetch" "cache_key (ft_packet (fetch ! c)) = ?key" "in_progress (ft_phase (fetch ! c))" for c
    using get [of ?key c] get [of ?key i] that i by simp
  then have "hm_get (hm_remove ?key fl) k = Some c \<longleftrightarrow>
      c < length fetch \<and> k = cache_key (ft_packet (fetch[i := t] ! c)) \<and> in_progress (ft_phase (fetch[i := t] ! c))" for k c
    using get [of k c] i t by (auto simp: nth_list_update)
  then show ?thesis using ok by (simp add: flight_ok_def)
qed

lemma doh_inv_task:
  "doh_inv strip s \<Longrightarrow> i < length (ds_fetch s) \<Longrightarrow> task_ok (ds_answers s) (ds_seen s) (ds_fetch s ! i)"
  by (simp add: doh_inv_def list_all_length)

lemma doh_inv_receive:
  assumes inv: "doh_inv strip s" and main: "ds_main s = Receiving"
    and step: "doh_receive strip packet client s = Some s'"
  shows "doh_inv strip s'"
proof -
  define s1 where "s1 = s\<lparr>ds_seen := ds_seen s @ [(packet, client)]\<rparr>"
  have "replies_ok strip s" using inv by (simp add: doh_inv_def)
  then have rep: "replies_ok strip s1" by (rule replies_ok_mono) (auto simp: s1_def)
  have s1: "doh_inv strip s1"
    by (rule doh_inv_frame [OF inv]) (use main rep in \<open>auto simp: s1_def\<close>)
  show ?thesis
  proof (cases "length packet < 12")
    case True
    then show ?thesis using step s1 by (simp add: doh_receive_def s1_def)
  next
    case False
    obtain qt where qt: "parse_query_type packet = Some qt" using runsE [OF parse_query_type_no_panic] .
    show ?thesis
    proof (cases "strip \<and> qt = Some DNS_TYPE_AAAA")
      case True
      obtain resp where resp: "build_nodata packet = Some resp" using runsE [OF build_nodata_no_panic] .
      show ?thesis
      proof (cases resp)
        case None
        then show ?thesis using step False True qt resp s1 by (simp add: doh_receive_def s1_def)
      next
        case (Some d)
        have "doh_good_reply strip (ds_answers s1) packet d"
          using True qt resp Some by (simp add: doh_good_reply_def)
        then have "replies_ok strip (reply d client s1)"
          using rep False by (intro replies_ok_reply [where q = packet]) (simp_all add: s1_def)
        moreover have "s' = reply d client s1"
          using step False True qt resp Some by (simp add: doh_receive_def s1_def [symmetric] Let_def)
        ultimately show ?thesis
          using main by (intro doh_inv_frame [OF s1]) (simp_all add: reply_def s1_def)
      qed
    next
      case strip: False
      then have "s' = s1\<lparr>ds_main := Checking packet client\<rparr>"
        using step False qt by (auto simp: doh_receive_def s1_def [symmetric] Let_def split: if_splits)
      moreover have "replies_ok strip (s1\<lparr>ds_main := Checking packet client\<rparr>)"
        using rep by (rule replies_ok_mono) simp_all
      ultimately show ?thesis
        using False by (intro doh_inv_frame [OF s1]) (simp_all add: s1_def)
    qed
  qed
qed

lemma cache_get_answered:
  assumes "cache_ok an cache" "12 \<le> length q" "tx_id_of q = Some tx"
    and "cache_get now now' cache (cache_key q) tx = Some (Some d)"
  shows "doh_good_reply strip an q d"
proof -
  obtain r t0 where live: "cache_live now (cache_key q) cache = Some (r, t0)" "cache_replay now' tx (r, t0) = Some d"
    using assms(4) by (auto simp: cache_get_live split: option.splits Option.bind_splits)
  then obtain e where e: "hm_get cache (cache_key q) = Some e" "ce_response e = r"
    by (auto simp: cache_live_def split: option.splits if_splits)
  from assms(1) hm_get_mem [OF e(1)] obtain p where
    p: "12 \<le> length p" "cache_key q = cache_key p" "(p, Some r) \<in> set an"
    using e(2) by (fastforce simp: cache_ok_def)
  have "drop 2 p = drop 2 q" using cache_key_eq_iff [of q p] p(1,2) assms(2) by simp
  then show ?thesis
    using p(3) live(2) assms(3) by (auto simp: doh_good_reply_def answered_with_def)
qed

lemma doh_inv_check:
  assumes inv: "doh_inv strip s" and main: "ds_main s = Checking packet client"
    and step: "doh_check now now' envs packet client s = Some s'"
  shows "doh_inv strip s'"
proof -
  have rep: "replies_ok strip s" and cache: "cache_ok (ds_answers s) (ds_cache s)"
    and packet: "12 \<le> length packet" "(packet, client) \<in> set (ds_seen s)"
    using inv main by (simp_all add: doh_inv_def)
  obtain tx hit where tx: "tx_id_of packet = Some tx"
      "cache_get now now' (ds_cache s) (cache_key packet) tx = Some hit"
    using step by (auto simp: doh_check_def split: Option.bind_splits)
  show ?thesis
  proof (cases hit)
    case None
    then have "s' = s\<lparr>ds_main := Joining packet client\<rparr>"
      using step tx by (auto simp: doh_check_def split: Option.bind_splits)
    moreover have "replies_ok strip (s\<lparr>ds_main := Joining packet client\<rparr>)"
      using rep by (rule replies_ok_mono) simp_all
    ultimately show ?thesis using packet by (intro doh_inv_frame [OF inv]) simp_all
  next
    case (Some d)
    then obtain table where s': "s' = reply d client (s\<lparr>ds_table := table, ds_main := Receiving\<rparr>)"
      using step tx by (auto simp: doh_check_def split: Option.bind_splits)
    have "replies_ok strip (s\<lparr>ds_table := table, ds_main := Receiving\<rparr>)"
      using rep by (rule replies_ok_mono) simp_all
    then have "replies_ok strip s'"
      unfolding s' using packet cache_get_answered [OF cache packet(1) tx(1)] tx(2) Some
      by (intro replies_ok_reply [where q = packet]) simp_all
    then show ?thesis by (intro doh_inv_frame [OF inv]) (simp_all add: s' reply_def)
  qed
qed

lemma drop_2_key: "12 \<le> length p \<Longrightarrow> 12 \<le> length q \<Longrightarrow> cache_key p = cache_key q \<longleftrightarrow> drop 2 p = drop 2 q"
  by (rule cache_key_eq_iff) simp_all

lemma doh_inv_join:
  assumes inv: "doh_inv strip s" and main: "ds_main s = Joining packet client"
  shows "doh_inv strip (doh_join packet client s)"
proof -
  have packet: "12 \<le> length packet" "(packet, client) \<in> set (ds_seen s)"
    using inv main by (simp_all add: doh_inv_def)
  have "replies_ok strip s" using inv by (simp add: doh_inv_def)
  then have rep: "replies_ok strip s'" if "ds_replies s' = ds_replies s" "ds_answers s' = ds_answers s" "ds_seen s' = ds_seen s" for s'
    using replies_ok_mono [of strip s s'] that by simp
  show ?thesis
  proof (cases "hm_get (ds_in_flight s) (cache_key packet)")
    case None
    then have "doh_join packet client s = s\<lparr>ds_main := Registering packet client\<rparr>"
      by (simp add: doh_join_def try_join_def)
    then show ?thesis using packet None by (simp add: rep doh_inv_frame [OF inv])
  next
    case (Some c)
    let ?t = "\<lparr>jt_chan = c, jt_pos = length (ft_sent (ds_fetch s ! c)), jt_query = packet, jt_client = client,
               jt_done = False\<rparr>"
    have join: "doh_join packet client s = s\<lparr>ds_main := Receiving, ds_joins := ds_joins s @ [?t]\<rparr>"
      using Some by (simp add: doh_join_def try_join_def)
    have c: "c < length (ds_fetch s)" "cache_key packet = cache_key (ft_packet (ds_fetch s ! c))"
        "in_progress (ft_phase (ds_fetch s ! c))"
      using inv Some by (auto simp: doh_inv_def flight_ok_def)
    from doh_inv_task [OF inv c(1)] c(3) have t: "ft_sent (ds_fetch s ! c) = []" "12 \<le> length (ft_packet (ds_fetch s ! c))"
      by (cases "ft_phase (ds_fetch s ! c)"; simp add: task_ok_def)+
    then have "join_ok (ds_fetch s) (ds_seen s) ?t"
      using c packet drop_2_key [of packet "ft_packet (ds_fetch s ! c)"] by (simp add: join_ok_def)
    then show ?thesis
      unfolding join using inv rep [of "s\<lparr>ds_main := Receiving, ds_joins := ds_joins s @ [?t]\<rparr>"]
      by (simp add: doh_inv_def)
  qed
qed

lemma doh_inv_register:
  assumes inv: "doh_inv strip s" and main: "ds_main s = Registering packet client"
  shows "doh_inv strip (doh_register packet client s)"
proof -
  have packet: "12 \<le> length packet" "(packet, client) \<in> set (ds_seen s)"
      "hm_get (ds_in_flight s) (cache_key packet) = None"
    using inv main by (simp_all add: doh_inv_def)
  let ?fetch = "ds_fetch s @ [\<lparr>ft_packet = packet, ft_client = client, ft_phase = Asking, ft_sent = []\<rparr>]"
  let ?fl = "hm_insert (cache_key packet) (length (ds_fetch s)) (ds_in_flight s)"
  have reg: "doh_register packet client s = s\<lparr>ds_in_flight := ?fl, ds_main := Receiving, ds_fetch := ?fetch\<rparr>"
    by (simp add: doh_register_def register_def Let_def)
  have get: "hm_get (ds_in_flight s) k = Some c \<longleftrightarrow>
      c < length (ds_fetch s) \<and> k = cache_key (ft_packet (ds_fetch s ! c)) \<and> in_progress (ft_phase (ds_fetch s ! c))" for k c
    using inv by (simp add: doh_inv_def flight_ok_def)
  have "hm_get ?fl k = Some c \<longleftrightarrow>
      c < length ?fetch \<and> k = cache_key (ft_packet (?fetch ! c)) \<and> in_progress (ft_phase (?fetch ! c))" for k c
    using get [of k c] get [of "cache_key packet" c] packet(3) by (auto simp: nth_append less_Suc_eq)
  then have "flight_ok ?fl ?fetch" using inv by (simp add: doh_inv_def flight_ok_def)
  moreover have "join_ok ?fetch (ds_seen s) t" if "join_ok (ds_fetch s) (ds_seen s) t" for t
    using that by (auto simp: join_ok_def nth_append)
  then have "list_all (join_ok ?fetch (ds_seen s)) (ds_joins s)"
    using inv by (auto simp: doh_inv_def list_all_iff)
  moreover have "replies_ok strip s" using inv by (simp add: doh_inv_def)
  then have "replies_ok strip (doh_register packet client s)"
    by (rule replies_ok_mono) (simp_all add: reg)
  ultimately show ?thesis
    using inv packet unfolding reg by (simp add: doh_inv_def task_ok_def)
qed

lemma set_task_fetch: "ds_fetch (set_task i ph s) = (ds_fetch s)[i := (ds_fetch s ! i)\<lparr>ft_phase := ph\<rparr>]"
  by (simp add: set_task_def)

lemma doh_inv_answer:
  assumes inv: "doh_inv strip s" and i: "i < length (ds_fetch s)" "ft_phase (ds_fetch s ! i) = Asking"
  shows "doh_inv strip (doh_answer i result s)"
proof -
  let ?t = "ds_fetch s ! i"
  define ph where "ph = (case result of Some response \<Rightarrow> Caching response | None \<Rightarrow> Completing None)"
  define s1 where "s1 = s\<lparr>ds_answers := ds_answers s @ [(ft_packet ?t, result)],
      ds_fetch := (ds_fetch s)[i := ?t\<lparr>ft_phase := ph\<rparr>]\<rparr>"
  have s1: "doh_answer i result s = s1"
    by (simp add: doh_answer_def set_task_def s1_def ph_def Let_def split: option.split)
  have ans: "set (ds_answers s) \<subseteq> set (ds_answers s1)" by (auto simp: s1_def)
  from task_ok_mono [OF ans subset_refl doh_inv_task [OF inv i(1)]]
  have task: "task_ok (ds_answers s1) (ds_seen s) (?t\<lparr>ft_phase := ph\<rparr>)"
    using i(2) by (auto simp: task_ok_def ph_def s1_def split: option.split)
  have "in_progress ph" by (simp add: ph_def split: option.split)
  then have "flight_ok (ds_in_flight s) (ds_fetch s1)"
    using inv i by (auto simp: s1_def doh_inv_def intro!: flight_ok_same)
  moreover have "replies_ok strip s1"
    using inv ans by (intro replies_ok_mono [where s = s and s' = s1]) (auto simp: s1_def doh_inv_def)
  moreover have "cache_ok (ds_answers s1) (ds_cache s)"
    using inv ans by (auto simp: doh_inv_def intro: cache_ok_mono)
  ultimately show ?thesis
    unfolding s1 using ans task
    by (intro doh_inv_fetch [OF inv i(1), of s1 "?t\<lparr>ft_phase := ph\<rparr>"]) (simp_all add: s1_def)
qed

lemma cache_put_ok:
  assumes "cache_ok an cache" "(p, Some r) \<in> set an" "12 \<le> length p"
    and "cache_put env (cache_key p) r cache = Some cache'"
  shows "cache_ok an cache'"
proof -
  obtain e where e: "cache' = hm_insert (cache_key p) e (cache_evict env cache)" "ce_response e = r"
    using assms(4) by (auto simp: cache_put_def Let_def split: Option.bind_splits)
  have ok: "hm_ok cache" using assms(1) by (simp add: cache_ok_def)
  have "set (cache_evict env cache) \<subseteq> set cache" "hm_ok (cache_evict env cache)"
    unfolding cache_evict_evict [OF ok] by (rule evict_subset, rule evict_ok [OF ok])
  then show ?thesis
    using assms(1-3) e by (fastforce simp: cache_ok_def dest: hm_insert_mem)
qed

text \<open>Each step of a fetching task: the task and the shared state after it.\<close>

lemma doh_inv_advance:
  assumes inv: "doh_inv strip s" and i: "i < length (ds_fetch s)"
    and ph: "ft_phase (ds_fetch s ! i) \<notin> {Asking, Finished}"
    and step: "doh_advance penv envs i s = Some s'"
  shows "doh_inv strip s'"
proof -
  let ?t = "ds_fetch s ! i"
  let ?p = "ft_packet ?t"
  note task = doh_inv_task [OF inv i]
  have flight: "flight_ok (ds_in_flight s) (ds_fetch s)" and cache: "cache_ok (ds_answers s) (ds_cache s)"
    and rep: "replies_ok strip s"
    using inv by (simp_all add: doh_inv_def)
  have rep': "replies_ok strip s1" if "ds_replies s1 = ds_replies s" "ds_answers s1 = ds_answers s" "ds_seen s1 = ds_seen s" for s1
    using replies_ok_mono [OF rep, of s1] that by simp
  have p: "12 \<le> length ?p" "(?p, ft_client ?t) \<in> set (ds_seen s)" using task by (simp_all add: task_ok_def)
  note simps = doh_advance_def Let_def set_task_def complete_def broadcast_def reply_def nth_list_update
  show ?thesis
  proof (cases "ft_phase ?t")
    case (Caching r)
    then obtain cache' where s': "s' = set_task i (Completing (Some r)) (s\<lparr>ds_cache := cache'\<rparr>)"
        "cache' = ds_cache s \<or> cache_put penv (cache_key ?p) r (ds_cache s) = Some cache'"
      using step by (auto simp: doh_advance_def Let_def split: Option.bind_splits if_splits)
    have "(?p, Some r) \<in> set (ds_answers s)" using task Caching by (simp add: task_ok_def)
    then have "cache_ok (ds_answers s) cache'" using s'(2) cache cache_put_ok [OF cache _ p(1)] by blast
    moreover have "flight_ok (ds_in_flight s) (ds_fetch s')"
      using flight i Caching by (auto simp: s' simps intro!: flight_ok_same)
    ultimately show ?thesis
      using task Caching
      by (intro doh_inv_fetch [OF inv i, of s' "?t\<lparr>ft_phase := Completing (Some r)\<rparr>"] rep')
        (simp_all add: s' simps task_ok_def)
  next
    case (Completing x)
    then have s': "s' = set_task i (Broadcasting x) (complete (cache_key ?p) s)"
      using step by (simp add: doh_advance_def Let_def)
    have "flight_ok (hm_remove (cache_key ?p) (ds_in_flight s)) (ds_fetch s')"
      using flight_ok_complete [OF flight i, of "?t\<lparr>ft_phase := Broadcasting x\<rparr>"] Completing by (simp add: s' simps)
    then show ?thesis
      using task Completing cache
      by (intro doh_inv_fetch [OF inv i, of s' "?t\<lparr>ft_phase := Broadcasting x\<rparr>"] rep')
        (simp_all add: s' simps task_ok_def)
  next
    case (Broadcasting x)
    show ?thesis
    proof (cases "\<exists>r ph'. answered_with (ds_answers s) ?p r \<and> (ph' = Recording r \<or> ph' = Replying r) \<and>
        s' = set_task i ph' (broadcast i r s)")
      case True
      then obtain r ph' where r: "answered_with (ds_answers s) ?p r" "ph' = Recording r \<or> ph' = Replying r"
        and s': "s' = set_task i ph' (broadcast i r s)" by blast
      have "flight_ok (ds_in_flight s) (ds_fetch s')"
        using flight i Broadcasting r(2) by (auto simp: s' simps intro!: flight_ok_same)
      then show ?thesis
        using task Broadcasting cache r i
        by (intro doh_inv_fetch [OF inv i, of s' "?t\<lparr>ft_sent := ft_sent ?t @ [r], ft_phase := ph'\<rparr>"] rep')
          (auto simp: s' simps task_ok_def)
    next
      case False
      have x: "(?p, x) \<in> set (ds_answers s)" using task Broadcasting by (simp add: task_ok_def)
      then have s': "s' = set_task i Finished s"
        using step Broadcasting False
        by (cases x) (auto simp: doh_advance_def Let_def answered_with_def split: Option.bind_splits option.splits)
      have "flight_ok (ds_in_flight s) (ds_fetch s')"
        using flight i Broadcasting by (auto simp: s' simps intro!: flight_ok_same)
      then show ?thesis
        using task cache
        by (intro doh_inv_fetch [OF inv i, of s' "?t\<lparr>ft_phase := Finished\<rparr>"] rep') (auto simp: s' simps task_ok_def)
    qed
  next
    case (Recording r)
    then obtain table where s': "s' = set_task i (Replying r) (s\<lparr>ds_table := table\<rparr>)"
      using step by (auto simp: doh_advance_def Let_def split: Option.bind_splits)
    have "flight_ok (ds_in_flight s) (ds_fetch s')"
      using flight i Recording by (auto simp: s' simps intro!: flight_ok_same)
    then show ?thesis
      using task Recording cache
      by (intro doh_inv_fetch [OF inv i, of s' "?t\<lparr>ft_phase := Replying r\<rparr>"] rep')
        (simp_all add: s' simps task_ok_def)
  next
    case (Replying r)
    then have s': "s' = set_task i Finished (reply r (ft_client ?t) s)"
      using step by (simp add: doh_advance_def Let_def)
    have "doh_good_reply strip (ds_answers s) ?p r"
      using task Replying by (simp add: task_ok_def doh_good_reply_def)
    then have "replies_ok strip (reply r (ft_client ?t) s)"
      using p by (intro replies_ok_reply [OF rep])
    then have "replies_ok strip s'"
      by (rule replies_ok_mono) (simp_all add: s' set_task_def)
    moreover have "flight_ok (ds_in_flight s) (ds_fetch s')"
      using flight i Replying by (auto simp: s' simps intro!: flight_ok_same)
    ultimately show ?thesis
      using task Replying cache
      by (intro doh_inv_fetch [OF inv i, of s' "?t\<lparr>ft_phase := Finished\<rparr>"])
        (simp_all add: s' simps task_ok_def)
  qed (use ph in simp_all)
qed

lemma doh_inv_recv:
  assumes inv: "doh_inv strip s" and j: "j < length (ds_joins s)" and step: "doh_recv envs j s = Some s'"
  shows "doh_inv strip s'"
proof -
  let ?t = "ds_joins s ! j"
  let ?f = "ds_fetch s ! jt_chan ?t"
  have t: "join_ok (ds_fetch s) (ds_seen s) ?t" and rep: "replies_ok strip s"
    using inv j by (simp_all add: doh_inv_def list_all_length)
  let ?joins = "(ds_joins s)[j := ?t\<lparr>jt_done := True\<rparr>]"
  have joins: "list_all (join_ok (ds_fetch s) (ds_seen s)) ?joins"
    using inv j t by (auto simp: doh_inv_def list_all_length nth_list_update join_ok_def)
  obtain table where s': "s' = (if jt_pos ?t < length (ft_sent ?f) then
      reply (set_tx_id (the (tx_id_of (jt_query ?t))) (ft_sent ?f ! jt_pos ?t)) (jt_client ?t) (s\<lparr>ds_table := table\<rparr>) else s)
        \<lparr>ds_joins := ?joins\<rparr>"
      "jt_pos ?t < length (ft_sent ?f) \<longrightarrow> tx_id_of (jt_query ?t) \<noteq> None"
    using step by (auto simp: doh_recv_def Let_def reply_def split: Option.bind_splits if_splits)
  have "replies_ok strip s'"
  proof (cases "jt_pos ?t < length (ft_sent ?f)")
    case True
    obtain tx where tx: "tx_id_of (jt_query ?t) = Some tx" using s'(2) True by auto
    let ?r = "ft_sent ?f ! jt_pos ?t"
    have "answered_with (ds_answers s) (ft_packet ?f) ?r"
      using doh_inv_task [OF inv, of "jt_chan ?t"] t True by (simp add: task_ok_def join_ok_def list_all_length)
    then have "doh_good_reply strip (ds_answers s) (jt_query ?t) (set_tx_id tx ?r)"
      using t tx by (auto simp: doh_good_reply_def join_ok_def)
    moreover have "replies_ok strip (s\<lparr>ds_table := table\<rparr>)"
      using rep by (rule replies_ok_mono) simp_all
    ultimately have "replies_ok strip (reply (set_tx_id tx ?r) (jt_client ?t) (s\<lparr>ds_table := table\<rparr>))"
      using t by (intro replies_ok_reply [where q = "jt_query ?t"]) (simp_all add: join_ok_def)
    then show ?thesis
      by (rule replies_ok_mono) (simp_all add: s'(1) True tx)
  next
    case False
    then show ?thesis by (intro replies_ok_mono [OF rep]) (simp_all add: s'(1))
  qed
  then show ?thesis
    using inv joins by (auto simp: doh_inv_def s'(1) reply_def)
qed

lemma doh_inv_step:
  assumes inv: "doh_inv strip s" and en: "doh_enabled ev s" and step: "doh_step strip ev s = Some s'"
  shows "doh_inv strip s'"
proof (cases ev)
  case (Receive p c)
  then show ?thesis using en step by (intro doh_inv_receive [OF inv]) simp_all
next
  case ReceiveError
  then have s': "s' = s\<lparr>ds_main := Stopped\<rparr>" using step by simp
  have "replies_ok strip s" using inv by (simp add: doh_inv_def)
  then have "replies_ok strip s'" by (rule replies_ok_mono) (simp_all add: s')
  then show ?thesis by (intro doh_inv_frame [OF inv]) (simp_all add: s')
next
  case (Check now now' envs)
  then obtain p c where "ds_main s = Checking p c" using en by (cases "ds_main s") simp_all
  then show ?thesis using step Check by (intro doh_inv_check [OF inv]) simp_all
next
  case Join
  then obtain p c where "ds_main s = Joining p c" using en by (cases "ds_main s") simp_all
  then show ?thesis using step Join doh_inv_join [OF inv] by auto
next
  case Register
  then obtain p c where "ds_main s = Registering p c" using en by (cases "ds_main s") simp_all
  then show ?thesis using step Register doh_inv_register [OF inv] by auto
next
  case (Answer i r)
  then show ?thesis using en step doh_inv_answer [OF inv] by auto
next
  case (Advance penv envs i)
  then show ?thesis using en step by (intro doh_inv_advance [OF inv]) simp_all
next
  case (Recv envs j)
  then show ?thesis using en step by (intro doh_inv_recv [OF inv]) simp_all
qed

lemma doh_inv_reachable: "doh_reachable strip s \<Longrightarrow> doh_inv strip s"
  by (induction rule: doh_reachable.induct) (auto intro: doh_inv_init doh_inv_step)

lemma doh_step_no_panic:
  assumes inv: "doh_inv strip s" and en: "doh_enabled ev s"
  shows "runs (doh_step strip ev s)"
proof -
  have name: "runs (name_of p)" for p unfolding name_of_def by (intro no_panic) simp
  have tx: "runs (tx_id_of p)" if "12 \<le> length p" for p
    unfolding tx_id_of_def using that by (intro no_panic) simp
  have "runs (doh_check now now' envs p c s)" if "12 \<le> length p" for now now' envs p c
    unfolding doh_check_def using that by (auto intro!: no_panic name tx)
  moreover have "runs (doh_recv envs j s)" if "j < length (ds_joins s)" for envs j
  proof -
    have "12 \<le> length (jt_query (ds_joins s ! j))"
      using inv that by (simp add: doh_inv_def list_all_length join_ok_def)
    then show ?thesis unfolding doh_recv_def Let_def by (auto intro!: no_panic name tx)
  qed
  moreover have "runs (doh_advance penv envs i s)" for penv envs i
    unfolding doh_advance_def Let_def by (auto intro!: no_panic name split: fetch_phase.split option.split)
  moreover have "runs (doh_receive strip p c s)" for p c
    unfolding doh_receive_def Let_def by (auto intro!: no_panic)
  ultimately show ?thesis
    using inv en by (cases ev) (auto simp: doh_inv_def split: main_phase.splits)
qed

section \<open>Runs\<close>

fun doh_run :: "bool \<Rightarrow> doh_event list \<Rightarrow> doh_state \<Rightarrow> doh_state exec" where
  "doh_run strip [] s = Some s"
| "doh_run strip (ev # evs) s = do { s \<leftarrow> doh_step strip ev s; doh_run strip evs s }"

fun doh_all_enabled :: "bool \<Rightarrow> doh_event list \<Rightarrow> doh_state \<Rightarrow> bool" where
  "doh_all_enabled strip [] s = True"
| "doh_all_enabled strip (ev # evs) s =
     (doh_enabled ev s \<and> (case doh_step strip ev s of None \<Rightarrow> False | Some s' \<Rightarrow> doh_all_enabled strip evs s'))"

lemma doh_run_reachable:
  "doh_run strip evs s = Some s' \<Longrightarrow> doh_all_enabled strip evs s \<Longrightarrow> doh_reachable strip s \<Longrightarrow> doh_reachable strip s'"
proof (induction evs arbitrary: s)
  case (Cons ev evs)
  then show ?case
    by (auto split: Option.bind_splits option.splits intro: doh_reachable.step)
qed simp

text \<open>Two clients send the same query, and the second one joins the fetch of the first.\<close>

definition short_query :: bytes where
  "short_query = replicate 12 0"

definition two_clients :: "doh_event list" where
  "two_clients =
     [Receive short_query (SockV4 (Ipv4 10 0 0 2) 1), Check 0 0 (\<lambda>_. example_env 0), Join, Register,
      Receive short_query (SockV4 (Ipv4 10 0 0 3) 2), Check 0 0 (\<lambda>_. example_env 0), Join]"

definition joined_state :: doh_state where
  "joined_state = doh_init\<lparr>ds_in_flight := [(short_query, 0)],
     ds_fetch := [\<lparr>ft_packet = short_query, ft_client = SockV4 (Ipv4 10 0 0 2) 1, ft_phase = Asking, ft_sent = []\<rparr>],
     ds_joins := [\<lparr>jt_chan = 0, jt_pos = 0, jt_query = short_query, jt_client = SockV4 (Ipv4 10 0 0 3) 2, jt_done = False\<rparr>],
     ds_seen := [(short_query, SockV4 (Ipv4 10 0 0 2) 1), (short_query, SockV4 (Ipv4 10 0 0 3) 2)]\<rparr>"

lemma short_query_parses: "parse_query_name short_query = Some None" "parse_query_type short_query = Some None"
    "name_of short_query = Some []" "tx_id_of short_query = Some 0" "length short_query = 12"
    "hm_insert short_query (0 :: nat) [] = [(short_query, 0)]"
  by (simp_all add: parse_query_name_def query_name_loop.simps [of _ 12] parse_query_type_def name_of_def tx_id_of_def
      rd16_def u16_be_def short_query_def hm_insert_def)

lemma short_query_key: "cache_key short_query = short_query" "hm_get [(short_query, 0 :: nat)] short_query = Some 0"
  by (simp_all add: cache_key_def short_query_def numeral_nat hm_get_def)

lemma two_clients_run:
  "doh_run False two_clients doh_init = Some joined_state" "doh_all_enabled False two_clients doh_init"
  by (simp_all add: two_clients_def doh_init_def joined_state_def doh_receive_def doh_check_def doh_join_def
      doh_register_def try_join_def register_def short_query_parses short_query_key cache_get_def new_cache_def Let_def)

lemma joined_state_reachable: "doh_reachable False joined_state"
  using two_clients_run doh_run_reachable doh_reachable.init by blast

section \<open>Properties\<close>

text \<open>
  The forwarder coalesces: in no reachable state are two requests in flight for queries that differ
  in the transaction ID at most.
\<close>

theorem doh_one_fetch_per_query:
  assumes "doh_reachable strip s" and "i < length (ds_fetch s)" "j < length (ds_fetch s)"
    and "in_progress (ft_phase (ds_fetch s ! i))" "in_progress (ft_phase (ds_fetch s ! j))"
    and "drop 2 (ft_packet (ds_fetch s ! i)) = drop 2 (ft_packet (ds_fetch s ! j))"
  shows "i = j"
proof -
  have inv: "doh_inv strip s" using doh_inv_reachable assms(1) .
  then have get: "hm_get (ds_in_flight s) k = Some c \<longleftrightarrow>
      c < length (ds_fetch s) \<and> k = cache_key (ft_packet (ds_fetch s ! c)) \<and> in_progress (ft_phase (ds_fetch s ! c))" for k c
    by (simp add: doh_inv_def flight_ok_def)
  have "cache_key (ft_packet (ds_fetch s ! i)) = cache_key (ft_packet (ds_fetch s ! j))"
    using doh_inv_task [OF inv assms(2)] doh_inv_task [OF inv assms(3)] assms(6) drop_2_key
    by (simp add: task_ok_def)
  then show ?thesis
    using get [of _ i] get [of _ j] assms(2-5) by (metis option.inject)
qed

theorem doh_one_fetch_per_query_witness:
  "\<exists>i. i < length (ds_fetch joined_state) \<and> in_progress (ft_phase (ds_fetch joined_state ! i)) \<and> i = 0"
proof (intro exI conjI)
  show "(0 :: nat) = 0"
    by (rule doh_one_fetch_per_query [OF joined_state_reachable]) (simp_all add: joined_state_def)
qed (simp_all add: joined_state_def)

text \<open>
  C8. No lost wake-up: a client that joined a query in flight can receive its answer (or the closing of
  the channel), or the fetch that it joined has still to broadcast: either it waits for \<open>doh_query\<close>
  or its next step is enabled.  So no client waits for a message that was sent before it subscribed.
\<close>

theorem doh_no_lost_wakeup:
  assumes "doh_reachable strip s" and "j < length (ds_joins s)" and "\<not> jt_done (ds_joins s ! j)"
    and "i = jt_chan (ds_joins s ! j)"
  shows "doh_enabled (Recv envs j) s \<or>
         ft_sent (ds_fetch s ! i) = [] \<and> (doh_enabled (Answer i r) s \<or> doh_enabled (Advance penv envs' i) s)"
proof -
  have inv: "doh_inv strip s" using doh_inv_reachable assms(1) .
  then have j: "join_ok (ds_fetch s) (ds_seen s) (ds_joins s ! j)" and flight: "flight_ok (ds_in_flight s) (ds_fetch s)"
    using assms(2) by (simp_all add: doh_inv_def list_all_length)
  then have i: "i < length (ds_fetch s)" "jt_pos (ds_joins s ! j) = 0" using assms(4) by (simp_all add: join_ok_def)
  show ?thesis
  proof (cases "ft_sent (ds_fetch s ! i) = []")
    case False
    then show ?thesis using assms(2-4) i by simp
  next
    case sent: True
    show ?thesis
    proof (cases "ft_phase (ds_fetch s ! i) = Finished")
      case True
      have "c \<noteq> i" if "(k, c) \<in> set (ds_in_flight s)" for k c
        using flight True hm_mem_get [OF _ that] by (auto simp: flight_ok_def)
      then have "chan_closed s i" using True by (auto simp: chan_closed_def list_all_iff)
      then show ?thesis using assms(2-4) by simp
    next
      case False
      then show ?thesis using sent i by auto
    qed
  qed
qed

theorem doh_no_lost_wakeup_witness:
  "doh_enabled (Answer 0 None) joined_state \<or> doh_enabled (Recv (\<lambda>_. example_env 0) 0) joined_state \<or>
   doh_enabled (Advance (example_put 0) (\<lambda>_. example_env 0) 0) joined_state"
  using doh_no_lost_wakeup [OF joined_state_reachable, of 0 0 "\<lambda>_. example_env 0" None "example_put 0"
      "\<lambda>_. example_env 0"]
  by (fastforce simp: joined_state_def)

text \<open>
  C7. Every reply of the DoH forwarder is for a query of its client: NODATA for a stripped AAAA query, or
  what upstream answered (SERVFAIL when \<open>doh_query\<close> failed) to a query that differs from it in the
  transaction ID at most, under the ID of the client's query or, for the client whose query was
  forwarded, unchanged; a replay from the cache has its TTLs aged.  No step panics.
\<close>

theorem doh_replies_sound:
  assumes "doh_reachable strip s"
  shows "(\<forall>(d, client) \<in> set (ds_replies s). \<exists>q. (q, client) \<in> set (ds_seen s) \<and>
            (strip \<and> parse_query_type q = Some (Some DNS_TYPE_AAAA) \<and> build_nodata q = Some (Some d) \<or>
             answered_with (ds_answers s) q d \<or>
             (\<exists>p r tx. drop 2 p = drop 2 q \<and> answered_with (ds_answers s) p r \<and> rd16 q 0 = Some tx \<and>
                (d = set_tx_id tx r \<or> (\<exists>now inserted. cache_replay now tx (r, inserted) = Some d))))) \<and>
         (doh_enabled ev s \<longrightarrow> runs (doh_step strip ev s))"
  using doh_inv_reachable [OF assms] doh_step_no_panic [of strip s ev]
  unfolding doh_inv_def replies_ok_def doh_good_reply_def tx_id_of_def by blast

theorem doh_replies_sound_witness:
  "runs (doh_step False (Answer 0 (Some [])) joined_state)"
  by (rule doh_replies_sound [OF joined_state_reachable, THEN conjunct2, rule_format]) (simp add: joined_state_def)



end
