(* ===== verification/Sni.thy ===== *)
theory Sni
  imports Rust_Str
begin

text \<open>
  The TLS ClientHello parser of \<^verbatim>\<open>src/src/sni.rs\<close> and its peek loop.  Offsets are \<open>usize\<close> values; an
  index, a slice or a subtraction out of range is a panic (\<open>None\<close> at the outer level).  The parsers
  return \<open>Result<Option<String>>\<close>, and their \<open>Err\<close> is never used.
\<close>

definition MAX_CLIENT_HELLO :: nat where "MAX_CLIENT_HELLO = 4096"
definition MAX_PEEK_ATTEMPTS :: nat where "MAX_PEEK_ATTEMPTS = 20"
definition TLS_RECORD_HANDSHAKE :: u8 where "TLS_RECORD_HANDSHAKE = 0x16"
definition TLS_HANDSHAKE_CLIENT_HELLO :: u8 where "TLS_HANDSHAKE_CLIENT_HELLO = 0x01"
definition TLS_EXT_SERVER_NAME :: u16 where "TLS_EXT_SERVER_NAME = 0"
definition SNI_HOST_NAME_TYPE :: u8 where "SNI_HOST_NAME_TYPE = 0"

section \<open>The server name extension\<close>

function sni_name_loop :: "bytes \<Rightarrow> nat \<Rightarrow> nat \<Rightarrow> string option exec" where
  "sni_name_loop data pos end_pos =
     (if pos + 3 \<le> end_pos then do {
        name_type \<leftarrow> idx data pos;
        name_len \<leftarrow> rd16 data (pos + 1);
        (if name_type = SNI_HOST_NAME_TYPE \<and> pos + 3 + unat name_len \<le> end_pos then do {
           name \<leftarrow> slice data (pos + 3) (pos + 3 + unat name_len);
           Some (from_utf8 name) }
         else sni_name_loop data (pos + 3 + unat name_len) end_pos) }
      else Some None)"
  by pat_completeness auto
termination
  by (relation "measure (\<lambda>(data, pos, end_pos). end_pos - pos)") auto

declare sni_name_loop.simps [simp del]

definition parse_sni_extension :: "bytes \<Rightarrow> string option exec" where
  "parse_sni_extension data =
     (if length data < 2 then Some None
      else do {
        list_len \<leftarrow> rd16 data 0;
        avail \<leftarrow> usize_sub (length data) 2;
        sni_name_loop data 2 (2 + min (unat list_len) avail) })"

section \<open>The ClientHello\<close>

function ext_loop :: "bytes \<Rightarrow> nat \<Rightarrow> nat \<Rightarrow> string option exec" where
  "ext_loop data pos extensions_end =
     (if pos + 4 \<le> extensions_end then do {
        ext_type \<leftarrow> rd16 data pos;
        ext_len \<leftarrow> rd16 data (pos + 2);
        (if ext_type = TLS_EXT_SERVER_NAME then do {
           avail \<leftarrow> usize_sub extensions_end (pos + 4);
           ext \<leftarrow> slice data (pos + 4) (pos + 4 + min (unat ext_len) avail);
           parse_sni_extension ext }
         else ext_loop data (pos + 4 + unat ext_len) extensions_end) }
      else Some None)"
  by pat_completeness auto
termination
  by (relation "measure (\<lambda>(data, pos, extensions_end). extensions_end - pos)") auto

declare ext_loop.simps [simp del]

text \<open>
  The variable part of the hello from the session ID on: three length-prefixed fields are skipped, then
  the extensions are walked.
\<close>

definition parse_hello_fields :: "bytes \<Rightarrow> nat \<Rightarrow> nat \<Rightarrow> string option exec" where
  "parse_hello_fields data record_end pos =
     (if record_end < pos + 1 then Some None else do {
      session_id_len \<leftarrow> idx data pos;
      let pos = pos + (1 + unat session_id_len) in
      if record_end < pos + 2 then Some None else do {
      cipher_suites_len \<leftarrow> rd16 data pos;
      let pos = pos + (2 + unat cipher_suites_len) in
      if record_end < pos + 1 then Some None else do {
      compression_len \<leftarrow> idx data pos;
      let pos = pos + (1 + unat compression_len) in
      if record_end < pos + 2 then Some None else do {
      extensions_len \<leftarrow> rd16 data pos;
      let pos = pos + 2 in do {
      avail \<leftarrow> usize_sub record_end pos;
      ext_loop data pos (pos + min (unat extensions_len) avail) }}}}})"

definition parse_sni_from_client_hello :: "bytes \<Rightarrow> string option exec" where
  "parse_sni_from_client_hello data =
     (if length data < 5 then Some None else do {
      content_type \<leftarrow> idx data 0;
      if content_type \<noteq> TLS_RECORD_HANDSHAKE then Some None else do {
      record_len \<leftarrow> rd16 data 3;
      avail \<leftarrow> usize_sub (length data) 5;
      let record_end = 5 + min (unat record_len) avail in
      if record_end < 5 + 4 then Some None else do {
      hs_type \<leftarrow> idx data 5;
      if hs_type \<noteq> TLS_HANDSHAKE_CLIENT_HELLO then Some None
      else if record_end < 9 + 34 then Some None
      else parse_hello_fields data record_end (9 + 34) }}})"

section \<open>The peek loop\<close>

text \<open>
  \<open>record_buffered\<close> tells whether the bytes seen so far hold the whole record, or as much of it as the
  buffer can.  \<open>peeks n\<close> is what the \<open>n\<close>th peek sees: the bytes buffered so far (at most \<open>MAX_CLIENT_HELLO\<close> of
  them), or \<open>None\<close> for an I/O error.  The result is the number of peeks made, and \<open>None\<close> for the
  I/O error or what the parser returned.
\<close>

definition record_buffered :: "bytes \<Rightarrow> bool exec" where
  "record_buffered buf =
     (if 5 \<le> length buf then do {
        record_len \<leftarrow> rd16 buf 3;
        Some (min (5 + unat record_len) MAX_CLIENT_HELLO \<le> length buf) }
      else Some False)"

function extract_sni_loop ::
    "nat \<Rightarrow> (nat \<Rightarrow> bytes option) \<Rightarrow> bytes \<Rightarrow> (nat \<times> string option option) exec" where
  "extract_sni_loop attempts peeks buf =
     (if buf = [] then Some (attempts + 1, Some None)
      else do {
        b \<leftarrow> idx buf 0;
        if b \<noteq> TLS_RECORD_HANDSHAKE then Some (attempts + 1, Some None)
        else do {
          complete \<leftarrow> record_buffered buf;
          if complete \<or> MAX_PEEK_ATTEMPTS \<le> attempts + 1
          then do { name \<leftarrow> parse_sni_from_client_hello buf; Some (attempts + 1, Some name) }
          else (case peeks (attempts + 1) of
                  None \<Rightarrow> Some (attempts + 2, None)
                | Some buf \<Rightarrow> extract_sni_loop (attempts + 1) peeks (take MAX_CLIENT_HELLO buf)) } })"
  by pat_completeness auto
termination
  by (relation "measure (\<lambda>(attempts, peeks, buf). MAX_PEEK_ATTEMPTS - attempts)") auto

declare extract_sni_loop.simps [simp del]

definition extract_sni :: "(nat \<Rightarrow> bytes option) \<Rightarrow> (nat \<times> string option option) exec" where
  "extract_sni peeks =
     (case peeks 0 of None \<Rightarrow> Some (1, None)
      | Some buf \<Rightarrow> extract_sni_loop 0 peeks (take MAX_CLIENT_HELLO buf))"

section \<open>No panics\<close>

lemma sni_name_loop_no_panic [no_panic]: "end_pos \<le> length data \<Longrightarrow> runs (sni_name_loop data pos end_pos)"
proof (induction data pos end_pos rule: sni_name_loop.induct)
  case (1 data pos end_pos)
  then show ?case by (subst sni_name_loop.simps) (auto intro!: no_panic)
qed

lemma parse_sni_extension_no_panic [no_panic]: "runs (parse_sni_extension data)"
  unfolding parse_sni_extension_def by (auto intro!: no_panic simp: usize_sub_def split: if_splits)

lemma ext_loop_no_panic [no_panic]: "e \<le> length data \<Longrightarrow> runs (ext_loop data pos e)"
proof (induction data pos e rule: ext_loop.induct)
  case (1 data pos e)
  then show ?case by (subst ext_loop.simps) (auto intro!: no_panic simp: usize_sub_def)
qed

lemma parse_hello_fields_no_panic [no_panic]:
  "e \<le> length data \<Longrightarrow> runs (parse_hello_fields data e pos)"
  unfolding parse_hello_fields_def Let_def
  by (auto intro!: no_panic simp: usize_sub_def split: if_splits)

lemma parse_sni_no_panic [no_panic]: "runs (parse_sni_from_client_hello data)"
  unfolding parse_sni_from_client_hello_def Let_def
  by (auto intro!: no_panic simp: usize_sub_def split: if_splits)

lemma record_buffered_no_panic [no_panic]: "runs (record_buffered buf)"
  unfolding record_buffered_def by (intro no_panic) simp_all

lemma extract_sni_loop_no_panic [no_panic]: "runs (extract_sni_loop attempts peeks buf)"
proof (induction attempts peeks buf rule: extract_sni_loop.induct)
  case (1 attempts peeks buf)
  then show ?case by (subst extract_sni_loop.simps) (auto intro!: no_panic split: if_splits)
qed

end
