(* ===== verification/Sni_Hello.thy ===== *)
theory Sni_Hello
  imports Sni
begin

text \<open>
  An abstract ClientHello with its wire encoding (RFC 8446, RFC 6066), the specification against which
  the parser of the theory Sni is proved: it finds the host name of the first server name extension.
\<close>

record client_hello =
  ch_record_version :: "u8 \<times> u8"
  ch_head :: bytes
  ch_session :: bytes
  ch_ciphers :: bytes
  ch_compression :: bytes
  ch_exts :: "(u16 \<times> bytes) list"

definition vec8 :: "bytes \<Rightarrow> bytes" where
  "vec8 bs = of_nat (length bs) # bs"

definition vec16 :: "bytes \<Rightarrow> bytes" where
  "vec16 bs = be16 (of_nat (length bs)) @ bs"

definition be24 :: "nat \<Rightarrow> bytes" where
  "be24 n = [of_nat (n div 65536), of_nat (n div 256), of_nat n]"

fun enc_ext :: "u16 \<times> bytes \<Rightarrow> bytes" where
  "enc_ext (t, d) = be16 t @ vec16 d"

definition enc_exts :: "(u16 \<times> bytes) list \<Rightarrow> bytes" where
  "enc_exts es = concat (map enc_ext es)"

definition enc_body :: "client_hello \<Rightarrow> bytes" where
  "enc_body h = ch_head h @ vec8 (ch_session h) @ vec16 (ch_ciphers h) @ vec8 (ch_compression h) @
     vec16 (enc_exts (ch_exts h))"

definition enc_handshake :: "client_hello \<Rightarrow> bytes" where
  "enc_handshake h = TLS_HANDSHAKE_CLIENT_HELLO # be24 (length (enc_body h)) @ enc_body h"

definition enc_record :: "client_hello \<Rightarrow> bytes" where
  "enc_record h = [TLS_RECORD_HANDSHAKE, fst (ch_record_version h), snd (ch_record_version h)] @
     vec16 (enc_handshake h)"

text \<open>A server name list: entries of a name type and a name.\<close>

fun enc_server_name :: "u8 \<times> bytes \<Rightarrow> bytes" where
  "enc_server_name (t, n) = t # vec16 n"

definition enc_server_names :: "(u8 \<times> bytes) list \<Rightarrow> bytes" where
  "enc_server_names ns = vec16 (concat (map enc_server_name ns))"

definition first_host :: "(u8 \<times> bytes) list \<Rightarrow> string option" where
  "first_host ns = (case filter (\<lambda>(t, _). t = SNI_HOST_NAME_TYPE) ns of [] \<Rightarrow> None | (_, n) # _ \<Rightarrow> from_utf8 n)"

definition wf_hello :: "client_hello \<Rightarrow> bool" where
  "wf_hello h \<longleftrightarrow> length (ch_head h) = 34 \<and> length (ch_session h) < 256 \<and> length (ch_compression h) < 256 \<and>
     length (enc_handshake h) < 65536"

lemma length_vec [simp]: "length (vec8 bs) = 1 + length bs" "length (vec16 bs) = 2 + length bs"
  by (simp_all add: vec8_def vec16_def)

lemma length_be24 [simp]: "length (be24 n) = 3"
  by (simp add: be24_def)

lemma enc_exts_simps [simp]: "enc_exts [] = []" "enc_exts (e # es) = enc_ext e @ enc_exts es"
  by (simp_all add: enc_exts_def)

lemma length_enc_ext: "(t, d) \<in> set es \<Longrightarrow> 4 + length d \<le> length (enc_exts es)"
  by (induction es) auto

section \<open>Reading length-prefixed fields\<close>

lemma idx_append_Cons: "i = length xs \<Longrightarrow> idx (xs @ a # ys) i = Some a"
  by (simp add: idx_def)

lemma read_vec8:
  "i = length xs \<Longrightarrow> length bs < 256 \<Longrightarrow> idx (xs @ vec8 bs @ ys) i = Some (of_nat (length bs))"
  by (simp add: vec8_def idx_append_Cons)

lemma read_vec16:
  "i = length xs \<Longrightarrow> rd16 (xs @ vec16 bs @ ys) i = Some (of_nat (length bs))"
  using rd16_append [of i xs "of_nat (length bs)" "bs @ ys"] by (simp add: vec16_def)

lemma unat_len: "n < 256 \<Longrightarrow> unat (of_nat n :: u8) = n" "n < 65536 \<Longrightarrow> unat (of_nat n :: u16) = n"
  by (simp_all add: unat_of_nat)

section \<open>Server names\<close>

lemma sni_name_loop_enc:
  assumes "length (concat (map enc_server_name ns)) < 65536"
  shows "sni_name_loop (xs @ concat (map enc_server_name ns)) (length xs)
           (length xs + length (concat (map enc_server_name ns))) = Some (first_host ns)"
  using assms
proof (induction ns arbitrary: xs)
  case Nil
  then show ?case by (simp add: sni_name_loop.simps [of xs] first_host_def)
next
  case (Cons e ns)
  obtain t n where e: "e = (t, n)" by fastforce
  let ?rest = "concat (map enc_server_name ns)"
  let ?data = "xs @ t # vec16 n @ ?rest"
  let ?stop = "length xs + 3 + length n + length ?rest"
  have n: "unat (of_nat (length n) :: u16) = length n" using Cons.prems e by (simp add: unat_len)
  have 1: "idx ?data (length xs) = Some t" by (simp add: idx_append_Cons)
  have 2: "rd16 ?data (length xs + 1) = Some (of_nat (length n))"
    using read_vec16 [of "length xs + 1" "xs @ [t]" n ?rest] by simp
  have 3: "slice ?data (length xs + 3) (length xs + 3 + length n) = Some n"
    using slice_append [of "xs @ t # be16 (of_nat (length n))" n ?rest] by (simp add: vec16_def)
  have lx: "length (xs @ t # vec16 n) = length xs + 3 + length n" by simp
  have 4: "sni_name_loop ?data (length xs + 3 + length n) ?stop = Some (first_host ns)"
    using Cons.IH [of "xs @ t # vec16 n", unfolded lx] Cons.prems e by simp
  have loop: "sni_name_loop ?data (length xs) ?stop =
      (if t = SNI_HOST_NAME_TYPE then Some (from_utf8 n) else Some (first_host ns))"
    by (subst sni_name_loop.simps) (simp only: 1 2 3 4 n bind.bind_lunit, simp)
  have "xs @ concat (map enc_server_name (e # ns)) = ?data"
    "length xs + length (concat (map enc_server_name (e # ns))) = ?stop"
    "Some (first_host (e # ns)) = (if t = SNI_HOST_NAME_TYPE then Some (from_utf8 n) else Some (first_host ns))"
    by (simp_all add: e first_host_def)
  then show ?case using loop by (simp only:)
qed

lemma parse_sni_extension_enc:
  assumes "length (concat (map enc_server_name ns)) < 65536"
  shows "parse_sni_extension (enc_server_names ns) = Some (first_host ns)"
proof -
  let ?ns = "concat (map enc_server_name ns)"
  have "rd16 (enc_server_names ns) 0 = Some (of_nat (length ?ns))"
    using read_vec16 [of 0 "[]" ?ns "[]"] by (simp add: enc_server_names_def)
  moreover have "unat (of_nat (length ?ns) :: u16) = length ?ns" using assms by (simp add: unat_len)
  moreover have "sni_name_loop (enc_server_names ns) 2 (2 + length ?ns) = Some (first_host ns)"
    using sni_name_loop_enc [OF assms, of "be16 (of_nat (length ?ns))"]
    by (simp add: enc_server_names_def vec16_def)
  ultimately show ?thesis
    by (simp add: parse_sni_extension_def enc_server_names_def del: unat_of_nat)
qed

section \<open>Extensions\<close>

text \<open>What the parser reports of a list of extensions.\<close>

definition hello_sni :: "(u16 \<times> bytes) list \<Rightarrow> string option exec" where
  "hello_sni es = (case filter (\<lambda>(t, _). t = TLS_EXT_SERVER_NAME) es of
      [] \<Rightarrow> Some None | (_, d) # _ \<Rightarrow> parse_sni_extension d)"

lemma ext_loop_enc:
  assumes "length (enc_exts es) < 65536"
  shows "ext_loop (xs @ enc_exts es @ ys) (length xs) (length xs + length (enc_exts es)) = hello_sni es"
  using assms
proof (induction es arbitrary: xs)
  case Nil
  then show ?case by (simp add: ext_loop.simps [of "xs @ ys"] hello_sni_def)
next
  case (Cons e es)
  obtain t d where e: "e = (t, d)" by fastforce
  let ?data = "xs @ be16 t @ vec16 d @ enc_exts es @ ys"
  let ?stop = "length xs + 4 + length d + length (enc_exts es)"
  have d: "unat (of_nat (length d) :: u16) = length d" using Cons.prems e by (simp add: unat_len)
  have 1: "rd16 ?data (length xs) = Some t" by (simp add: rd16_append)
  have 2: "rd16 ?data (length xs + 2) = Some (of_nat (length d))"
    using read_vec16 [of "length xs + 2" "xs @ be16 t" d "enc_exts es @ ys"] by simp
  have 3: "slice ?data (length xs + 4) (length xs + 4 + length d) = Some d"
    using slice_append [of "xs @ be16 t @ be16 (of_nat (length d))" d "enc_exts es @ ys"] by (simp add: vec16_def)
  have lx: "length (xs @ be16 t @ vec16 d) = length xs + 4 + length d" by simp
  have 4: "ext_loop ?data (length xs + 4 + length d) ?stop = hello_sni es"
    using Cons.IH [of "xs @ be16 t @ vec16 d", unfolded lx] Cons.prems e by simp
  have 5: "usize_sub ?stop (length xs + 4) = Some (length d + length (enc_exts es))" by simp
  have loop: "ext_loop ?data (length xs) ?stop =
      (if t = TLS_EXT_SERVER_NAME then parse_sni_extension d else hello_sni es)"
    by (subst ext_loop.simps) (simp only: 1 2 3 4 5 d bind.bind_lunit min_absorb1 le_add1, simp)
  have "xs @ enc_exts (e # es) @ ys = ?data" "length xs + length (enc_exts (e # es)) = ?stop"
    "hello_sni (e # es) = (if t = TLS_EXT_SERVER_NAME then parse_sni_extension d else hello_sni es)"
    by (simp_all add: e hello_sni_def)
  then show ?case using loop by (simp only:)
qed

section \<open>The whole record\<close>

lemma parse_hello_fields_enc:
  assumes "length xs = 9" "wf_hello h"
  shows "parse_hello_fields (xs @ enc_body h @ ys) (9 + length (enc_body h)) 43 = hello_sni (ch_exts h)"
proof -
  let ?head = "ch_head h" and ?ses = "ch_session h" and ?ci = "ch_ciphers h" and ?co = "ch_compression h"
  let ?ex = "enc_exts (ch_exts h)"
  let ?data = "xs @ enc_body h @ ys"
  let ?x1 = "xs @ ?head" and ?x2 = "xs @ ?head @ vec8 ?ses" and ?x3 = "xs @ ?head @ vec8 ?ses @ vec16 ?ci"
  let ?x4 = "xs @ ?head @ vec8 ?ses @ vec16 ?ci @ vec8 ?co"
  have body: "length (enc_body h) < 65536 - 4"
    using assms(2) by (simp add: wf_hello_def enc_handshake_def)
  have head: "length ?head = 34" "length ?ses < 256" "length ?co < 256" using assms(2) by (simp_all add: wf_hello_def)
  have len: "length (enc_body h) = 34 + (1 + length ?ses) + (2 + length ?ci) + (1 + length ?co) + (2 + length ?ex)"
    using head by (simp add: enc_body_def)
  have 1: "idx ?data 43 = Some (of_nat (length ?ses))"
    using read_vec8 [of 43 ?x1 ?ses "vec16 ?ci @ vec8 ?co @ vec16 ?ex @ ys"] assms(1) head by (simp add: enc_body_def)
  have 2: "rd16 ?data (43 + (1 + length ?ses)) = Some (of_nat (length ?ci))"
    using read_vec16 [of "43 + (1 + length ?ses)" ?x2 ?ci "vec8 ?co @ vec16 ?ex @ ys"] assms(1) head by (simp add: enc_body_def)
  have 3: "idx ?data (43 + (1 + length ?ses) + (2 + length ?ci)) = Some (of_nat (length ?co))"
    using read_vec8 [of "43 + (1 + length ?ses) + (2 + length ?ci)" ?x3 ?co "vec16 ?ex @ ys"] assms(1) head
    by (simp add: enc_body_def)
  let ?p = "43 + (1 + length ?ses) + (2 + length ?ci) + (1 + length ?co)"
  have 4: "rd16 ?data ?p = Some (of_nat (length ?ex))"
    using read_vec16 [of ?p ?x4 ?ex ys] assms(1) head by (simp add: enc_body_def)
  have un: "unat (of_nat (length ?ses) :: u8) = length ?ses" "unat (of_nat (length ?co) :: u8) = length ?co"
    "unat (of_nat (length ?ci) :: u16) = length ?ci" "unat (of_nat (length ?ex) :: u16) = length ?ex"
    using head body len by (auto intro!: unat_len)
  have 5: "ext_loop ?data (?p + 2) (?p + 2 + length ?ex) = hello_sni (ch_exts h)"
    using ext_loop_enc [of "ch_exts h" "?x4 @ be16 (of_nat (length ?ex))" ys] assms(1) head body len
    by (simp add: enc_body_def vec16_def algebra_simps)
  show ?thesis
    using 1 2 3 4 5 unfolding parse_hello_fields_def Let_def
    by (simp add: un len del: unat_of_nat)
qed

lemma parse_sni_record:
  assumes "wf_hello h"
  shows "parse_sni_from_client_hello (enc_record h @ rest) = hello_sni (ch_exts h)"
proof -
  let ?data = "enc_record h @ rest"
  let ?hs = "enc_handshake h"
  let ?v1 = "fst (ch_record_version h)" and ?v2 = "snd (ch_record_version h)"
  have hs: "length ?hs = 4 + length (enc_body h)" by (simp add: enc_handshake_def)
  have len: "length ?hs < 65536" "34 \<le> length (enc_body h)"
    using assms by (simp_all add: wf_hello_def enc_body_def)
  have 1: "idx ?data 0 = Some TLS_RECORD_HANDSHAKE" by (simp add: enc_record_def idx_def)
  have 2: "rd16 ?data 3 = Some (of_nat (length ?hs))"
    using read_vec16 [of 3 "[TLS_RECORD_HANDSHAKE, ?v1, ?v2]" ?hs rest] by (simp add: enc_record_def)
  let ?pre = "[TLS_RECORD_HANDSHAKE, ?v1, ?v2] @ be16 (of_nat (length ?hs))"
  have 3: "idx ?data 5 = Some TLS_HANDSHAKE_CLIENT_HELLO"
    using idx_append_Cons [of 5 ?pre TLS_HANDSHAKE_CLIENT_HELLO "be24 (length (enc_body h)) @ enc_body h @ rest"]
    by (simp add: enc_record_def vec16_def enc_handshake_def)
  have un: "unat (of_nat (length ?hs) :: u16) = length ?hs" using len by (simp add: unat_len)
  let ?xs = "?pre @ TLS_HANDSHAKE_CLIENT_HELLO # be24 (length (enc_body h))"
  have 4: "?data = ?xs @ enc_body h @ rest" by (simp add: enc_record_def vec16_def enc_handshake_def)
  have "parse_hello_fields ?data (9 + length (enc_body h)) 43 = hello_sni (ch_exts h)"
    unfolding 4 by (rule parse_hello_fields_enc [OF _ assms]) simp
  moreover have "length ?data = 5 + length ?hs + length rest" by (simp add: enc_record_def)
  moreover have "usize_sub (5 + length ?hs + length rest) 5 = Some (length ?hs + length rest)" by simp
  ultimately show ?thesis
    using len unfolding parse_sni_from_client_hello_def Let_def
    by (simp only: 1 2 3 un bind.bind_lunit min_absorb1 le_add1) (simp add: hs)
qed

section \<open>The peek loop\<close>

lemma extract_sni_loop_first:
  assumes "extract_sni_loop attempts peeks buf = Some (m, r)"
  obtains "m = attempts + 1"
  | "attempts + 1 < MAX_PEEK_ATTEMPTS" "peeks (attempts + 1) = None" "m = attempts + 2"
  | buf' where "attempts + 1 < MAX_PEEK_ATTEMPTS" "extract_sni_loop (attempts + 1) peeks buf' = Some (m, r)"
proof (cases "buf = []")
  case True
  then show thesis using assms that(1) by (simp add: extract_sni_loop.simps [of attempts])
next
  case ne: False
  obtain c where c: "record_buffered buf = Some c" using runsE [OF record_buffered_no_panic] .
  show thesis
  proof (cases "buf ! 0 = TLS_RECORD_HANDSHAKE \<and> \<not> (c \<or> MAX_PEEK_ATTEMPTS \<le> attempts + 1)")
    case False
    then have "m = attempts + 1"
      using assms ne c
      by (simp add: extract_sni_loop.simps [of attempts] split: if_splits Option.bind_splits)
    then show thesis by (rule that(1))
  next
    case True
    then show thesis
      using assms ne c that(2,3)
      by (simp add: extract_sni_loop.simps [of attempts] split: option.splits)
  qed
qed

lemma extract_sni_loop_bound:
  "extract_sni_loop attempts peeks buf = Some (m, r) \<Longrightarrow> attempts < MAX_PEEK_ATTEMPTS \<Longrightarrow> m \<le> MAX_PEEK_ATTEMPTS"
proof (induction "MAX_PEEK_ATTEMPTS - attempts" arbitrary: attempts buf rule: less_induct)
  case less
  from less.prems(1) show ?case
  proof (cases rule: extract_sni_loop_first)
    case (3 buf')
    then show ?thesis using less.hyps [of "attempts + 1" buf'] less.prems(2) by simp
  qed (use less.prems(2) in simp_all)
qed

text \<open>What a peek that sees a prefix of the data says about the record.\<close>

lemma record_buffered_prefix:
  fixes rest
  assumes "wf_hello h" "length (enc_record h) \<le> MAX_CLIENT_HELLO" "0 < n"
  defines "buf \<equiv> take MAX_CLIENT_HELLO (take n (enc_record h @ rest))"
  shows "buf \<noteq> [] \<and> buf ! 0 = TLS_RECORD_HANDSHAKE \<and>
         record_buffered buf = Some (length (enc_record h) \<le> n)"
proof -
  let ?hs = "enc_handshake h"
  have len: "length (enc_record h) = 5 + length ?hs" by (simp add: enc_record_def)
  have un: "unat (of_nat (length ?hs) :: u16) = length ?hs" using assms(1) by (simp add: wf_hello_def unat_len)
  have buf: "buf = take (min MAX_CLIENT_HELLO n) (enc_record h @ rest)" by (simp only: buf_def take_take)
  have "enc_record h @ rest = TLS_RECORD_HANDSHAKE # tl (enc_record h @ rest)" by (simp add: enc_record_def)
  then have "buf \<noteq> [] \<and> buf ! 0 = TLS_RECORD_HANDSHAKE"
    unfolding buf using assms(3) by (metis MAX_CLIENT_HELLO_def length_greater_0_conv list.distinct(1)
        min_less_iff_conj nth_Cons_0 nth_take take_eq_Nil2 zero_less_numeral not_gr_zero)
  moreover have "record_buffered buf = Some (length (enc_record h) \<le> n)"
  proof (cases "5 \<le> length buf")
    case True
    have "rd16 buf 3 = rd16 (enc_record h @ rest) 3"
      using True unfolding buf by (intro rd16_take) simp
    also have "\<dots> = Some (of_nat (length ?hs))"
      using read_vec16 [of 3 "[TLS_RECORD_HANDSHAKE, fst (ch_record_version h), snd (ch_record_version h)]" ?hs rest]
      by (simp add: enc_record_def)
    finally show ?thesis
      using True assms(2) len by (auto simp: record_buffered_def un buf min_def simp del: unat_of_nat)
  next
    case False
    then show ?thesis using len assms(2) by (auto simp: record_buffered_def buf min_def split: if_splits)
  qed
  ultimately show ?thesis by blast
qed

lemma extract_sni_loop_record:
  assumes "wf_hello h" "length (enc_record h) \<le> MAX_CLIENT_HELLO"
    and "\<And>n. peeks n = Some (take (f n) (enc_record h @ rest))" "\<And>n. 0 < f n"
    and "length (enc_record h) \<le> f k" "k < MAX_PEEK_ATTEMPTS" "hello_sni (ch_exts h) = Some name"
  shows "attempts \<le> k \<Longrightarrow> \<exists>m \<le> k + 1. extract_sni_loop attempts peeks
           (take MAX_CLIENT_HELLO (take (f attempts) (enc_record h @ rest))) = Some (m, Some name)"
proof (induction "k - attempts" arbitrary: attempts rule: less_induct)
  case less
  let ?buf = "take MAX_CLIENT_HELLO (take (f attempts) (enc_record h @ rest))"
  have buf: "?buf \<noteq> []" "?buf ! 0 = TLS_RECORD_HANDSHAKE"
    "record_buffered ?buf = Some (length (enc_record h) \<le> f attempts)"
    using record_buffered_prefix [OF assms(1,2) assms(4), of attempts rest] by blast+
  then have i0: "idx ?buf 0 = Some TLS_RECORD_HANDSHAKE"
    by (simp only: idx_def length_greater_0_conv not_False_eq_True if_True)
  show ?case
  proof (cases "length (enc_record h) \<le> f attempts")
    case True
    have "?buf = enc_record h @ take (min MAX_CLIENT_HELLO (f attempts) - length (enc_record h)) rest"
      using True assms(2) by (simp only: take_take take_append min.bounded_iff take_all min_diff)
    then have "parse_sni_from_client_hello ?buf = Some name"
      using parse_sni_record [OF assms(1)] assms(7) by simp
    then have "extract_sni_loop attempts peeks ?buf = Some (attempts + 1, Some name)"
      unfolding extract_sni_loop.simps [of attempts peeks ?buf] using buf(1) True
      by (simp only: i0 buf(3) bind.bind_lunit if_False refl simp_thms if_True)
    then show ?thesis using less.prems by auto
  next
    case False
    then have "attempts < k" using less.prems assms(5) le_neq_implies_less by blast
    then have more: "\<not> (length (enc_record h) \<le> f attempts \<or> MAX_PEEK_ATTEMPTS \<le> attempts + 1)"
      using False assms(6) by simp
    have "extract_sni_loop attempts peeks ?buf =
        extract_sni_loop (attempts + 1) peeks (take MAX_CLIENT_HELLO (take (f (attempts + 1)) (enc_record h @ rest)))"
      unfolding extract_sni_loop.simps [of attempts peeks ?buf]
      by (simp only: buf(1) i0 buf(3) more assms(3) bind.bind_lunit if_False simp_thms option.case)
    then show ?thesis using less.hyps [of "attempts + 1"] \<open>attempts < k\<close> by simp
  qed
qed

section \<open>Properties\<close>

lemma enc_server_names_length:
  assumes "wf_hello h" "(t, enc_server_names ns) \<in> set (ch_exts h)"
  shows "length (concat (map enc_server_name ns)) < 65536"
proof -
  have "length (enc_exts (ch_exts h)) < 65536"
    using assms(1) by (simp add: wf_hello_def enc_handshake_def enc_body_def)
  then show ?thesis using length_enc_ext [OF assms(2)] by (simp add: enc_server_names_def)
qed

text \<open>The payloads of the server name extensions, and the name that the first of them gives.\<close>

definition server_name_exts :: "client_hello \<Rightarrow> bytes list" where
  "server_name_exts h = map snd (filter (\<lambda>(t, _). t = TLS_EXT_SERVER_NAME) (ch_exts h))"

definition sni_host :: "(u8 \<times> bytes) list list \<Rightarrow> string option" where
  "sni_host nss = (case nss of [] \<Rightarrow> None | ns # _ \<Rightarrow> first_host ns)"

lemma hello_sni_host:
  assumes "wf_hello h" "server_name_exts h = map enc_server_names nss"
  shows "hello_sni (ch_exts h) = Some (sni_host nss)"
proof (cases nss)
  case Nil
  then show ?thesis using assms(2) by (auto simp: hello_sni_def server_name_exts_def sni_host_def)
next
  case (Cons ns nss')
  with assms(2) obtain t es where
    ext: "filter (\<lambda>(t, _). t = TLS_EXT_SERVER_NAME) (ch_exts h) = (t, enc_server_names ns) # es"
    by (auto simp: server_name_exts_def)
  then have "(t, enc_server_names ns) \<in> set (ch_exts h)" by (metis filter_eq_Cons_iff in_set_conv_decomp)
  with ext Cons show ?thesis
    using parse_sni_extension_enc [OF enc_server_names_length [OF assms(1)]]
    by (simp add: hello_sni_def sni_host_def)
qed

text \<open>
  The SNI extraction never panics, whatever a client sends and however the bytes arrive, and it peeks
  at the connection at most 20 times.
\<close>

theorem extract_sni_total:
  "\<exists>m r. extract_sni peeks = Some (m, r) \<and> m \<le> 20 \<and> runs (parse_sni_from_client_hello data)"
proof (cases "peeks 0")
  case None
  then show ?thesis by (simp add: extract_sni_def parse_sni_no_panic)
next
  case (Some buf)
  obtain m r where "extract_sni_loop 0 peeks (take MAX_CLIENT_HELLO buf) = Some (m, r)"
    using runsE [OF extract_sni_loop_no_panic, of 0 peeks "take MAX_CLIENT_HELLO buf"] by (metis surj_pair)
  then show ?thesis
    using Some extract_sni_loop_bound by (fastforce simp: extract_sni_def MAX_PEEK_ATTEMPTS_def parse_sni_no_panic)
qed

text \<open>
  C14. On the record of a well-formed ClientHello, with anything after it, the parser returns the first
  host name entry of the first server name extension (\<open>None\<close> without one, or if it is not UTF-8).
\<close>

theorem parse_sni_correct:
  assumes "wf_hello h" "server_name_exts h = map enc_server_names nss"
  shows "parse_sni_from_client_hello (enc_record h @ rest) = Some (sni_host nss)"
  using parse_sni_record [OF assms(1)] hello_sni_host [OF assms] by simp

definition example_hello :: client_hello where
  "example_hello = \<lparr>ch_record_version = (3, 1), ch_head = replicate 34 0, ch_session = [1], ch_ciphers = [0, 5],
     ch_compression = [0], ch_exts = [(43, [2, 3, 4]), (0, enc_server_names [(1, [9]), (0, [97, 46, 98])])]\<rparr>"

lemma wf_example_hello: "wf_hello example_hello"
  "server_name_exts example_hello = map enc_server_names [[(1, [9]), (0, [97, 46, 98])]]"
  by (simp_all add: wf_hello_def example_hello_def enc_handshake_def enc_body_def enc_server_names_def
      server_name_exts_def TLS_EXT_SERVER_NAME_def)

theorem parse_sni_correct_witness:
  "parse_sni_from_client_hello (enc_record example_hello @ [1, 2, 3]) = Some (Some ''a.b'')"
proof -
  have "sni_host [[(1, [9]), (0, [97, 46, 98])]] = Some ''a.b''"
    by (simp add: sni_host_def first_host_def SNI_HOST_NAME_TYPE_def from_utf8_def str_of_def char_of_def
        bit_numeral_rec bit_Suc_0_iff)
  then show ?thesis
    using parse_sni_correct [OF wf_example_hello, of "[1, 2, 3]"] by simp
qed

text \<open>
  C15. Segmentation does not matter: if every peek sees a non-empty prefix of the client's data, and one of
  the 20 peeks sees the whole record (of at most 4096 bytes), the loop stops at that peek at the
  latest with the name that the hello carries.
\<close>

theorem extract_sni_any_segmentation:
  assumes "wf_hello h" "server_name_exts h = map enc_server_names nss"
    and "length (enc_record h) \<le> 4096"
    and "\<And>n. peeks n = Some (take (f n) (enc_record h @ rest))" "\<And>n. 0 < f n"
    and "length (enc_record h) \<le> f k" "k < 20"
  shows "\<exists>m \<le> k + 1. extract_sni peeks = Some (m, Some (sni_host nss))"
  using extract_sni_loop_record [of h peeks f rest k "sni_host nss" 0] assms hello_sni_host [OF assms(1,2)]
  by (simp add: extract_sni_def MAX_CLIENT_HELLO_def MAX_PEEK_ATTEMPTS_def)

theorem extract_sni_any_segmentation_witness:
  "\<exists>m \<le> 4. extract_sni (\<lambda>n. Some (take (30 * n + 1) (enc_record example_hello))) = Some (m, Some (Some ''a.b''))"
proof -
  have "sni_host [[(1, [9]), (0, [97, 46, 98])]] = Some ''a.b''"
    by (simp add: sni_host_def first_host_def SNI_HOST_NAME_TYPE_def from_utf8_def str_of_def char_of_def
        bit_numeral_rec bit_Suc_0_iff)
  moreover have "length (enc_record example_hello) \<le> 91"
    by (simp add: enc_record_def example_hello_def enc_handshake_def enc_body_def enc_server_names_def)
  ultimately show ?thesis
    using extract_sni_any_segmentation [OF wf_example_hello,
        of "\<lambda>n. Some (take (30 * n + 1) (enc_record example_hello))" "\<lambda>n. 30 * n + 1" "[]" 3]
    by simp
qed

end
