(* ===== verification/Relay.thy ===== *)
theory Relay
  imports Net_Stream
begin

text \<open>
  \<open>relay_with_shutdown\<close> of \<^verbatim>\<open>src/src/proxy.rs\<close>: the loop over \<open>select!\<close> that copies both directions, and the
  grace period after the first end of stream.  The runtime decides which ready branch runs, so the
  loop is a machine whose events are what a read returns, the progress of a write and the firing of
  the timer.  A write that has not finished blocks the whole loop, the timer included.
\<close>

type_synonym u64 = "64 word"

definition RELAY_BUF_SIZE :: nat where "RELAY_BUF_SIZE = 64 * 1024"
definition SHUTDOWN_GRACE_PERIOD :: nat where "SHUTDOWN_GRACE_PERIOD = 30"

section \<open>The machine\<close>

datatype relay_phase =
    Select
  | WriteUp bytes
  | WriteDown bytes
  | Returned "io_error + u64 \<times> u64"

text \<open>
  \<open>rl_read_client\<close> and \<open>rl_read_server\<close> record what the reads returned, \<open>rl_up\<close> and \<open>rl_down\<close> what the writes
  delivered; \<open>rl_up_shut\<close> and \<open>rl_down_shut\<close> whether \<open>shutdown\<close> was called on the writing halves.
\<close>

record relay =
  rl_read_client :: bytes
  rl_read_server :: bytes
  rl_up :: bytes
  rl_down :: bytes
  rl_client_bytes :: u64
  rl_server_bytes :: u64
  rl_client_eof :: bool
  rl_server_eof :: bool
  rl_up_shut :: bool
  rl_down_shut :: bool
  rl_timer :: "nat option"
  rl_phase :: relay_phase

definition relay_init :: relay where
  "relay_init =
     \<lparr>rl_read_client = [], rl_read_server = [], rl_up = [], rl_down = [], rl_client_bytes = 0, rl_server_bytes = 0,
      rl_client_eof = False, rl_server_eof = False, rl_up_shut = False, rl_down_shut = False, rl_timer = None,
      rl_phase = Select\<rparr>"

text \<open>
  A read returns an error or some bytes (none at the end); a write finishes, or fails after some of
  its bytes.
\<close>

datatype relay_event =
    ClientRead "io_error + bytes"
  | ServerRead "io_error + bytes"
  | Written
  | WriteFails nat io_error
  | GraceFires

text \<open>The check at the head of the loop.\<close>

definition loop_head :: "relay \<Rightarrow> relay" where
  "loop_head s =
     s\<lparr>rl_phase := (if rl_client_eof s \<and> rl_server_eof s
                   then Returned (Inr (rl_client_bytes s, rl_server_bytes s)) else Select)\<rparr>"

definition start_timer :: "nat \<Rightarrow> nat \<Rightarrow> bool \<Rightarrow> relay \<Rightarrow> relay" where
  "start_timer now grace other_eof s =
     (if \<not> other_eof \<and> rl_timer s = None then s\<lparr>rl_timer := Some (now + grace)\<rparr> else s)"

definition client_read :: "nat \<Rightarrow> nat \<Rightarrow> io_error + bytes \<Rightarrow> relay \<Rightarrow> relay" where
  "client_read now grace r s =
     (case r of
        Inl e \<Rightarrow> s\<lparr>rl_phase := Returned (Inl e)\<rparr>
      | Inr bs \<Rightarrow>
          if bs = [] then
            loop_head ((start_timer now grace (rl_server_eof s) (s\<lparr>rl_client_eof := True\<rparr>))\<lparr>rl_up_shut := True\<rparr>)
          else s\<lparr>rl_read_client := rl_read_client s @ bs, rl_phase := WriteUp bs\<rparr>)"

definition server_read :: "nat \<Rightarrow> nat \<Rightarrow> io_error + bytes \<Rightarrow> relay \<Rightarrow> relay" where
  "server_read now grace r s =
     (case r of
        Inl e \<Rightarrow> s\<lparr>rl_phase := Returned (Inl e)\<rparr>
      | Inr bs \<Rightarrow>
          if bs = [] then
            loop_head ((start_timer now grace (rl_client_eof s) (s\<lparr>rl_server_eof := True\<rparr>))\<lparr>rl_down_shut := True\<rparr>)
          else s\<lparr>rl_read_server := rl_read_server s @ bs, rl_phase := WriteDown bs\<rparr>)"

definition grace_fires :: "relay \<Rightarrow> relay" where
  "grace_fires s =
     (let s = (if \<not> rl_client_eof s then s\<lparr>rl_up_shut := True, rl_client_eof := True\<rparr> else s);
          s = (if \<not> rl_server_eof s then s\<lparr>rl_down_shut := True, rl_server_eof := True\<rparr> else s) in
      loop_head s)"

text \<open>One event at a time \<open>now\<close>; \<open>None\<close> when it cannot happen.  A read returns at most \<open>buf_size\<close> bytes.\<close>

fun relay_step :: "nat \<Rightarrow> nat \<Rightarrow> nat \<Rightarrow> relay_event \<Rightarrow> relay \<Rightarrow> relay option" where
  "relay_step buf_size grace now (ClientRead r) s =
     (if rl_phase s = Select \<and> \<not> rl_client_eof s \<and> (case r of Inr bs \<Rightarrow> length bs \<le> buf_size | _ \<Rightarrow> True)
      then Some (client_read now grace r s) else None)"
| "relay_step buf_size grace now (ServerRead r) s =
     (if rl_phase s = Select \<and> \<not> rl_server_eof s \<and> (case r of Inr bs \<Rightarrow> length bs \<le> buf_size | _ \<Rightarrow> True)
      then Some (server_read now grace r s) else None)"
| "relay_step buf_size grace now Written s =
     (case rl_phase s of
        WriteUp bs \<Rightarrow>
          Some (loop_head (s\<lparr>rl_up := rl_up s @ bs, rl_client_bytes := rl_client_bytes s + of_nat (length bs)\<rparr>))
      | WriteDown bs \<Rightarrow>
          Some (loop_head (s\<lparr>rl_down := rl_down s @ bs, rl_server_bytes := rl_server_bytes s + of_nat (length bs)\<rparr>))
      | _ \<Rightarrow> None)"
| "relay_step buf_size grace now (WriteFails n e) s =
     (case rl_phase s of
        WriteUp bs \<Rightarrow> Some (s\<lparr>rl_up := rl_up s @ take n bs, rl_phase := Returned (Inl e)\<rparr>)
      | WriteDown bs \<Rightarrow> Some (s\<lparr>rl_down := rl_down s @ take n bs, rl_phase := Returned (Inl e)\<rparr>)
      | _ \<Rightarrow> None)"
| "relay_step buf_size grace now GraceFires s =
     (case rl_timer s of
        Some deadline \<Rightarrow> if rl_phase s = Select \<and> deadline \<le> now then Some (grace_fires s) else None
      | None \<Rightarrow> None)"

inductive relay_reachable :: "nat \<Rightarrow> nat \<Rightarrow> relay \<Rightarrow> bool" for buf_size grace where
  start: "relay_reachable buf_size grace relay_init"
| step: "relay_reachable buf_size grace s \<Longrightarrow> relay_step buf_size grace now e s = Some s' \<Longrightarrow>
    relay_reachable buf_size grace s'"

section \<open>The invariant\<close>

text \<open>The bytes of a write in progress.\<close>

definition in_flight_up :: "relay \<Rightarrow> bytes" where
  "in_flight_up s = (case rl_phase s of WriteUp bs \<Rightarrow> bs | _ \<Rightarrow> [])"

definition in_flight_down :: "relay \<Rightarrow> bytes" where
  "in_flight_down s = (case rl_phase s of WriteDown bs \<Rightarrow> bs | _ \<Rightarrow> [])"

definition copied :: "relay \<Rightarrow> bool" where
  "copied s \<longleftrightarrow>
     rl_read_client s = rl_up s @ in_flight_up s \<and> rl_read_server s = rl_down s @ in_flight_down s \<and>
     rl_client_bytes s = of_nat (length (rl_up s)) \<and> rl_server_bytes s = of_nat (length (rl_down s))"

text \<open>
  A returned error leaves a prefix delivered; otherwise everything read is delivered or in flight.
\<close>

definition relay_inv :: "relay \<Rightarrow> bool" where
  "relay_inv s \<longleftrightarrow>
     (case rl_phase s of
        Returned (Inl e) \<Rightarrow> (\<exists>xs ys. rl_read_client s = rl_up s @ xs \<and> rl_read_server s = rl_down s @ ys)
      | Returned (Inr (c, d)) \<Rightarrow>
          copied s \<and> rl_client_eof s \<and> rl_server_eof s \<and> c = rl_client_bytes s \<and> d = rl_server_bytes s
      | _ \<Rightarrow> copied s \<and> \<not> (rl_client_eof s \<and> rl_server_eof s) \<and>
          (rl_timer s = None \<longleftrightarrow> \<not> rl_client_eof s \<and> \<not> rl_server_eof s)) \<and>
     rl_up_shut s = rl_client_eof s \<and> rl_down_shut s = rl_server_eof s"

lemma in_flight_simps [simp]:
  "rl_phase s = Select \<Longrightarrow> in_flight_up s = []" "rl_phase s = Select \<Longrightarrow> in_flight_down s = []"
  "rl_phase s = Returned r \<Longrightarrow> in_flight_up s = []" "rl_phase s = Returned r \<Longrightarrow> in_flight_down s = []"
  "rl_phase s = WriteUp bs \<Longrightarrow> in_flight_up s = bs" "rl_phase s = WriteUp bs \<Longrightarrow> in_flight_down s = []"
  "rl_phase s = WriteDown bs \<Longrightarrow> in_flight_down s = bs" "rl_phase s = WriteDown bs \<Longrightarrow> in_flight_up s = []"
  by (simp_all add: in_flight_up_def in_flight_down_def)

lemma relay_inv_init: "relay_inv relay_init"
  by (simp add: relay_inv_def relay_init_def copied_def)

lemmas relay_step_defs = relay_inv_def copied_def loop_head_def start_timer_def Let_def

lemma relay_inv_client_read:
  "relay_inv s \<Longrightarrow> rl_phase s = Select \<Longrightarrow> \<not> rl_client_eof s \<Longrightarrow> relay_inv (client_read now grace r s)"
  by (cases r) (auto simp: client_read_def relay_step_defs)

lemma relay_inv_server_read:
  "relay_inv s \<Longrightarrow> rl_phase s = Select \<Longrightarrow> \<not> rl_server_eof s \<Longrightarrow> relay_inv (server_read now grace r s)"
  by (cases r) (auto simp: server_read_def relay_step_defs)

lemma relay_inv_grace_fires: "relay_inv s \<Longrightarrow> rl_phase s = Select \<Longrightarrow> relay_inv (grace_fires s)"
  by (auto simp: grace_fires_def relay_step_defs)

lemma relay_inv_written:
  "relay_inv s \<Longrightarrow> relay_step buf_size grace now Written s = Some s' \<Longrightarrow> relay_inv s'"
  by (auto simp: relay_step_defs split: relay_phase.splits)

lemma take_extends: "\<exists>xs. bs = take n bs @ xs"
  by (metis append_take_drop_id)

lemma relay_inv_write_fails:
  "relay_inv s \<Longrightarrow> relay_step buf_size grace now (WriteFails n e) s = Some s' \<Longrightarrow> relay_inv s'"
proof (cases "rl_phase s")
  case (WriteUp bs)
  moreover assume "relay_inv s" "relay_step buf_size grace now (WriteFails n e) s = Some s'"
  ultimately show ?thesis by (auto simp: relay_inv_def copied_def take_extends)
next
  case (WriteDown bs)
  moreover assume "relay_inv s" "relay_step buf_size grace now (WriteFails n e) s = Some s'"
  ultimately show ?thesis by (auto simp: relay_inv_def copied_def take_extends)
qed simp_all

lemma relay_inv_step:
  assumes "relay_inv s" "relay_step buf_size grace now e s = Some s'"
  shows "relay_inv s'"
proof (cases e)
  case (ClientRead r)
  with assms show ?thesis by (auto simp: relay_inv_client_read split: if_splits)
next
  case (ServerRead r)
  with assms show ?thesis by (auto simp: relay_inv_server_read split: if_splits)
next
  case Written
  with assms show ?thesis by (auto intro: relay_inv_written)
next
  case (WriteFails n e)
  with assms show ?thesis by (auto intro: relay_inv_write_fails)
next
  case GraceFires
  with assms show ?thesis by (auto simp: relay_inv_grace_fires split: option.splits if_splits)
qed

lemma relay_reachable_inv: "relay_reachable buf_size grace s \<Longrightarrow> relay_inv s"
  by (induction rule: relay_reachable.induct) (auto intro: relay_inv_init relay_inv_step)

section \<open>The grace period\<close>

lemma start_timer_keeps: "rl_timer s = Some d \<Longrightarrow> start_timer now grace b s = s"
  by (simp add: start_timer_def)

lemma relay_timer_fixed:
  assumes "relay_step buf_size grace now e s = Some s'" "rl_timer s = Some d"
  shows "rl_timer s' = Some d"
  using assms
  by (cases e) (auto simp: client_read_def server_read_def grace_fires_def loop_head_def start_timer_def Let_def
      split: if_splits sum.splits relay_phase.splits)

lemma grace_fires_returns: "\<exists>r. rl_phase (grace_fires s) = Returned (Inr r)"
  by (simp add: grace_fires_def loop_head_def Let_def)

text \<open>The timer is set at the first end of stream, to the grace period after it.\<close>

lemma relay_timer_set:
  assumes "relay_step buf_size grace now e s = Some s'" "rl_timer s = None" "rl_timer s' = Some d"
  shows "d = now + grace"
  using assms
  by (cases e) (auto simp: client_read_def server_read_def grace_fires_def loop_head_def start_timer_def Let_def
      split: if_splits sum.splits relay_phase.splits)

section \<open>Properties\<close>

text \<open>
  C3. The relay copies both directions faithfully: in every state it can reach, each side has been sent a
  prefix of what was read from the other side, and all of it apart from a write in progress unless a
  write failed; when it returns normally everything read was delivered, both sides are shut down, and
  it reports the two byte counts.
\<close>

theorem relay_copies_bytes:
  assumes "relay_reachable buf_size grace s"
  shows "(\<exists>xs ys. rl_read_client s = rl_up s @ xs \<and> rl_read_server s = rl_down s @ ys \<and>
       (case rl_phase s of
          Select \<Rightarrow> xs = [] \<and> ys = []
        | WriteUp bs \<Rightarrow> xs = bs \<and> ys = []
        | WriteDown bs \<Rightarrow> xs = [] \<and> ys = bs
        | Returned (Inr (c, d)) \<Rightarrow>
            xs = [] \<and> ys = [] \<and> rl_up_shut s \<and> rl_down_shut s \<and>
            c = of_nat (length (rl_up s)) \<and> d = of_nat (length (rl_down s))
        | Returned (Inl _) \<Rightarrow> True))"
proof -
  have inv: "relay_inv s" using assms by (rule relay_reachable_inv)
  show ?thesis
  proof (cases "rl_phase s")
    case (Returned r)
    then show ?thesis using inv by (cases r) (auto simp: relay_inv_def copied_def)
  qed (use inv in \<open>auto simp: relay_inv_def copied_def\<close>)
qed

text \<open>
  C4. After the first end of stream the relay cannot linger: whenever it waits in the loop with one side
  closed, a deadline is set, it is the grace period after that end and never moves, and once it has
  passed the timer branch can run and ends the relay.  Only a write in progress holds the timer up:
  while a peer does not take the bytes, no deadline ends the relay.
\<close>

theorem relay_grace_period:
  assumes "relay_reachable buf_size grace s"
  shows "(rl_phase s = Select \<and> (rl_client_eof s \<or> rl_server_eof s) \<longrightarrow>
      (\<exists>deadline. rl_timer s = Some deadline \<and>
        (\<forall>now. deadline \<le> now \<longrightarrow>
          (\<exists>s' r. relay_step buf_size grace now GraceFires s = Some s' \<and> rl_phase s' = Returned (Inr r))))) \<and>
    (\<forall>now e s' deadline. relay_step buf_size grace now e s = Some s' \<longrightarrow>
       (rl_timer s = Some deadline \<longrightarrow> rl_timer s' = Some deadline) \<and>
       (rl_timer s = None \<and> rl_timer s' = Some deadline \<longrightarrow> deadline = now + grace)) \<and>
    (\<forall>now bs. rl_phase s = WriteUp bs \<or> rl_phase s = WriteDown bs \<longrightarrow>
       relay_step buf_size grace now GraceFires s = None)"
proof (intro conjI impI allI)
  assume wait: "rl_phase s = Select \<and> (rl_client_eof s \<or> rl_server_eof s)"
  then obtain deadline where "rl_timer s = Some deadline"
    using relay_reachable_inv [OF assms] by (auto simp: relay_inv_def)
  then show "\<exists>deadline. rl_timer s = Some deadline \<and>
      (\<forall>now. deadline \<le> now \<longrightarrow>
        (\<exists>s' r. relay_step buf_size grace now GraceFires s = Some s' \<and> rl_phase s' = Returned (Inr r)))"
    using wait grace_fires_returns [of s] by simp
qed (auto intro: relay_timer_fixed relay_timer_set split: option.split)

text \<open>An example: the client closes, the server still sends, and the timer ends the relay.\<close>

fun relay_run :: "nat \<Rightarrow> nat \<Rightarrow> (nat \<times> relay_event) list \<Rightarrow> relay \<Rightarrow> relay option" where
  "relay_run buf_size grace [] s = Some s"
| "relay_run buf_size grace ((now, e) # es) s =
     (case relay_step buf_size grace now e s of None \<Rightarrow> None | Some s \<Rightarrow> relay_run buf_size grace es s)"

lemma relay_run_reachable:
  "relay_run buf_size grace es s = Some s' \<Longrightarrow> relay_reachable buf_size grace s \<Longrightarrow> relay_reachable buf_size grace s'"
  by (induction es arbitrary: s) (auto split: option.splits, metis relay_reachable.step)

definition demo_relay :: relay where
  "demo_relay =
     the (relay_run 64 30 [(0, ClientRead (Inr [1, 2])), (1, Written), (2, ClientRead (Inr [])), (3, ServerRead (Inr [7])), (4, Written)]
       relay_init)"

lemma demo_relay_reachable: "relay_reachable 64 30 demo_relay"
proof (rule relay_run_reachable)
  show "relay_run 64 30 [(0, ClientRead (Inr [1, 2])), (1, Written), (2, ClientRead (Inr [])), (3, ServerRead (Inr [7])), (4, Written)]
       relay_init = Some demo_relay"
    by (simp add: demo_relay_def relay_init_def client_read_def server_read_def loop_head_def start_timer_def)
qed (rule relay_reachable.start)

lemma demo_relay_state: "rl_phase demo_relay = Select" "rl_client_eof demo_relay" "rl_timer demo_relay = Some 32"
    "rl_up demo_relay = [1, 2]" "rl_read_client demo_relay = [1, 2]"
  by (simp_all add: demo_relay_def relay_init_def client_read_def server_read_def loop_head_def start_timer_def)

theorem relay_copies_bytes_witness: "rl_read_client demo_relay = rl_up demo_relay"
  using relay_copies_bytes [OF demo_relay_reachable] demo_relay_state(1) by auto

theorem relay_grace_period_witness:
  "\<exists>s' r. relay_step 64 30 32 GraceFires demo_relay = Some s' \<and> rl_phase s' = Returned (Inr r)"
  using relay_grace_period [OF demo_relay_reachable] demo_relay_state(1-3) by auto

end
