(* ===== verification/Orig_Dest.thy ===== *)
theory Orig_Dest
  imports Net_Addr
begin

text \<open>
  Kernel socket addresses, and the recovery of the original destination of a redirected connection:
  \<^verbatim>\<open>src/src/orig_dest/linux.rs\<close> (\<open>SO_ORIGINAL_DST\<close>) and \<^verbatim>\<open>src/src/orig_dest/macos.rs\<close> (\<open>DIOCNATLOOK\<close>).
  What the kernel answers is an input: the result of \<open>getsockopt\<close> on Linux, and the \<open>ioctl\<close> as a function on
  the request structure on macOS.
\<close>

section \<open>Kernel socket addresses\<close>

text \<open>Ports and addresses are the bytes in memory, which are in network order.\<close>

record sockaddr_in =
  sin_port :: "u8 \<times> u8"
  sin_addr :: "u8 \<times> u8 \<times> u8 \<times> u8"

record sockaddr_in6 =
  sin6_port :: "u8 \<times> u8"
  sin6_flowinfo :: u32
  sin6_addr :: bytes
  sin6_scope_id :: u32

datatype sockaddr_storage = AfInet sockaddr_in | AfInet6 sockaddr_in6 | AfOther

text \<open>\<open>u16::from_be\<close> and \<open>u16::to_be\<close> of the bytes in memory.\<close>

fun port_from_be :: "u8 \<times> u8 \<Rightarrow> u16" where
  "port_from_be (a, b) = u16_be a b"

definition port_to_be :: "u16 \<Rightarrow> u8 \<times> u8" where
  "port_to_be p = (of_nat (unat p div 256), of_nat (unat p mod 256))"

fun ipv4_of_mem :: "u8 \<times> u8 \<times> u8 \<times> u8 \<Rightarrow> ipv4" where
  "ipv4_of_mem (a, b, c, d) = Ipv4 a b c d"

fun ipv4_to_mem :: "ipv4 \<Rightarrow> u8 \<times> u8 \<times> u8 \<times> u8" where
  "ipv4_to_mem (Ipv4 a b c d) = (a, b, c, d)"

text \<open>\<open>Ipv6Addr::from\<close> of the 16 bytes.\<close>

definition ipv6_of_mem :: "bytes \<Rightarrow> ipv6" where
  "ipv6_of_mem b =
     Ipv6 (u16_be (b ! 0) (b ! 1)) (u16_be (b ! 2) (b ! 3)) (u16_be (b ! 4) (b ! 5)) (u16_be (b ! 6) (b ! 7))
          (u16_be (b ! 8) (b ! 9)) (u16_be (b ! 10) (b ! 11)) (u16_be (b ! 12) (b ! 13)) (u16_be (b ! 14) (b ! 15))"

lemma port_from_to_be [simp]: "port_from_be (port_to_be p) = p"
  by (simp add: port_to_be_def u16_be_be16)

lemma ipv4_of_to_mem [simp]: "ipv4_of_mem (ipv4_to_mem a) = a"
  by (cases a) simp

lemma ipv6_of_octets_mem: "length b = 16 \<Longrightarrow> ipv6_of_octets b = Some (ipv6_of_mem b)"
  by (simp add: ipv6_of_octets_def ipv6_of_mem_def rd16_def)

lemma ipv6_of_mem_octets6 [simp]: "ipv6_of_mem (octets6 a) = a"
  using ipv6_of_octets_mem [of "octets6 a"] by simp

section \<open>Linux\<close>

datatype orig_dest_error = GetsockoptFailed | LoopDetected | FamilyMismatch | NatlookFailed

type_synonym orig_dest = "orig_dest_error + socket_addr"

definition get_original_dest_v4 :: "sockaddr_in option \<Rightarrow> orig_dest" where
  "get_original_dest_v4 sockopt =
     (case sockopt of
        None \<Rightarrow> Inl GetsockoptFailed
      | Some addr \<Rightarrow> Inr (SockV4 (ipv4_of_mem (sin_addr addr)) (port_from_be (sin_port addr))))"

definition get_original_dest_v6 :: "sockaddr_in6 option \<Rightarrow> orig_dest" where
  "get_original_dest_v6 sockopt =
     (case sockopt of
        None \<Rightarrow> Inl GetsockoptFailed
      | Some addr \<Rightarrow> Inr (SockV6 (ipv6_of_mem (sin6_addr addr)) (port_from_be (sin6_port addr))
                            (sin6_flowinfo addr) (sin6_scope_id addr)))"

definition is_v4_mapped :: "socket_addr \<Rightarrow> bool" where
  "is_v4_mapped a = (case a of SockV6 ip _ _ _ \<Rightarrow> to_ipv4_mapped ip \<noteq> None | SockV4 _ _ \<Rightarrow> False)"

definition get_original_dest_linux ::
    "sockaddr_in option \<Rightarrow> sockaddr_in6 option \<Rightarrow> socket_addr \<Rightarrow> socket_addr \<Rightarrow> orig_dest" where
  "get_original_dest_linux sockopt4 sockopt6 local_addr listen_addr =
     (case (if is_v4_mapped local_addr then get_original_dest_v4 sockopt4
            else (case local_addr of
                    SockV6 _ _ _ _ \<Rightarrow> get_original_dest_v6 sockopt6
                  | SockV4 _ _ \<Rightarrow> get_original_dest_v4 sockopt4)) of
        Inl e \<Rightarrow> Inl e
      | Inr dest \<Rightarrow> if dest = listen_addr then Inl LoopDetected else Inr dest)"

section \<open>macOS\<close>

definition AF_INET :: u8 where "AF_INET = 2"
definition AF_INET6 :: u8 where "AF_INET6 = 30"
definition IPPROTO_TCP :: u8 where "IPPROTO_TCP = 6"
definition PF_OUT :: u8 where "PF_OUT = 1"

text \<open>
  The request structure; a \<open>pf_state_xport\<close> is four bytes of which the port uses the first two.
\<close>

record natlook =
  nl_saddr :: bytes
  nl_daddr :: bytes
  nl_rsaddr :: bytes
  nl_rdaddr :: bytes
  nl_sxport :: bytes
  nl_dxport :: bytes
  nl_rsxport :: bytes
  nl_rdxport :: bytes
  nl_af :: u8
  nl_proto :: u8
  nl_proto_variant :: u8
  nl_direction :: u8

definition natlook_default :: natlook where
  "natlook_default =
     \<lparr>nl_saddr = replicate 16 0, nl_daddr = replicate 16 0, nl_rsaddr = replicate 16 0, nl_rdaddr = replicate 16 0,
      nl_sxport = replicate 4 0, nl_dxport = replicate 4 0, nl_rsxport = replicate 4 0, nl_rdxport = replicate 4 0,
      nl_af = 0, nl_proto = 0, nl_proto_variant = 0, nl_direction = 0\<rparr>"

text \<open>The layout in memory: \<open>repr(C)\<close> without padding.\<close>

definition natlook_bytes :: "natlook \<Rightarrow> bytes" where
  "natlook_bytes nl =
     nl_saddr nl @ nl_daddr nl @ nl_rsaddr nl @ nl_rdaddr nl @ nl_sxport nl @ nl_dxport nl @
     nl_rsxport nl @ nl_rdxport nl @ [nl_af nl, nl_proto nl, nl_proto_variant nl, nl_direction nl]"

definition diocnatlook_ioctl :: "nat \<Rightarrow> 64 word" where
  "diocnatlook_ioctl sz = 0xC0000000 OR push_bit 16 (of_nat sz) OR push_bit 8 0x44 OR 23"

fun pad16 :: "bytes \<Rightarrow> bytes" where
  "pad16 b = b @ replicate (16 - length b) 0"

definition xport :: "u16 \<Rightarrow> bytes" where
  "xport p = [fst (port_to_be p), snd (port_to_be p), 0, 0]"

definition natlook_request :: "u8 \<Rightarrow> bytes \<Rightarrow> u16 \<Rightarrow> bytes \<Rightarrow> u16 \<Rightarrow> natlook" where
  "natlook_request af src src_port dst dst_port =
     natlook_default
       \<lparr>nl_af := af, nl_proto := IPPROTO_TCP, nl_direction := PF_OUT, nl_saddr := src, nl_sxport := xport src_port,
        nl_daddr := dst, nl_dxport := xport dst_port\<rparr>"

definition natlook_answer :: "natlook \<Rightarrow> socket_addr" where
  "natlook_answer nl =
     (let port = u16_be (nl_rdxport nl ! 0) (nl_rdxport nl ! 1); a = nl_rdaddr nl in
      if nl_af nl = AF_INET then SockV4 (Ipv4 (a ! 0) (a ! 1) (a ! 2) (a ! 3)) port
      else SockV6 (ipv6_of_mem a) port 0 0)"

text \<open>\<open>ioctl\<close> answers a request or fails; the second attempt asks for the other direction.\<close>

definition get_original_dest_pf ::
    "(natlook \<Rightarrow> natlook option) \<Rightarrow> socket_addr \<Rightarrow> socket_addr \<Rightarrow> orig_dest" where
  "get_original_dest_pf ioctl client_addr local_addr =
     (let req = (case (client_addr, local_addr) of
           (SockV4 c cp, SockV4 l lp) \<Rightarrow>
             Some (natlook_request AF_INET (pad16 (octets4 c)) cp (pad16 (octets4 l)) lp)
         | (SockV6 c cp _ _, SockV6 l lp _ _) \<Rightarrow>
             Some (natlook_request AF_INET6 (octets6 c) cp (octets6 l) lp)
         | _ \<Rightarrow> None) in
      case req of
        None \<Rightarrow> Inl FamilyMismatch
      | Some nl \<Rightarrow>
          (case ioctl nl of
             Some answer \<Rightarrow> Inr (natlook_answer (answer\<lparr>nl_af := nl_af nl\<rparr>))
           | None \<Rightarrow>
               (case ioctl (nl\<lparr>nl_direction := 0\<rparr>) of
                  Some answer \<Rightarrow> Inr (natlook_answer (answer\<lparr>nl_af := nl_af nl\<rparr>))
                | None \<Rightarrow> Inl NatlookFailed)))"

definition get_original_dest_macos ::
    "(natlook \<Rightarrow> natlook option) \<Rightarrow> socket_addr \<Rightarrow> socket_addr \<Rightarrow> socket_addr \<Rightarrow> orig_dest" where
  "get_original_dest_macos ioctl client_addr local_addr listen_addr =
     (case get_original_dest_pf ioctl client_addr local_addr of
        Inr dest \<Rightarrow> if dest = listen_addr then Inl LoopDetected else Inr dest
      | Inl e \<Rightarrow>
          if local_addr \<noteq> listen_addr \<and> sock_port local_addr \<noteq> sock_port listen_addr then Inr local_addr
          else Inl e)"

section \<open>Lemmas\<close>

lemma natlook_layout:
  assumes "length src = 16" "length dst = 16"
  shows "length (natlook_bytes (natlook_request af src sp dst dp)) = 84"
    "take 16 (natlook_bytes (natlook_request af src sp dst dp)) = src"
    "take 16 (drop 16 (natlook_bytes (natlook_request af src sp dst dp))) = dst"
    "take 2 (drop 64 (natlook_bytes (natlook_request af src sp dst dp))) = be16 sp"
    "take 2 (drop 68 (natlook_bytes (natlook_request af src sp dst dp))) = be16 dp"
    "drop 80 (natlook_bytes (natlook_request af src sp dst dp)) = [af, IPPROTO_TCP, 0, PF_OUT]"
  using assms
  by (simp_all add: natlook_bytes_def natlook_request_def natlook_default_def xport_def port_to_be_def be16_def)

lemma diocnatlook_value: "diocnatlook_ioctl 84 = 0xC0544417"
  by (simp add: diocnatlook_ioctl_def)

section \<open>Properties\<close>

text \<open>
  Whatever the kernel answers, the original destination that is proxied never equals the listen
  address; on macOS the fallback to the local address is taken only for a different port.  A
  destination that the kernel reports is returned unchanged.
\<close>

theorem original_dest_no_loop:
  "get_original_dest_linux sockopt4 sockopt6 local_addr listen_addr \<noteq> Inr listen_addr \<and>
   get_original_dest_macos ioctl client_addr local_addr listen_addr \<noteq> Inr listen_addr \<and>
   get_original_dest_linux
     (Some \<lparr>sin_port = port_to_be port, sin_addr = ipv4_to_mem ip\<rparr>) sockopt6 (SockV4 local_ip local_port) listen_addr =
     (if SockV4 ip port = listen_addr then Inl LoopDetected else Inr (SockV4 ip port)) \<and>
   get_original_dest_linux sockopt4
     (Some \<lparr>sin6_port = port_to_be port, sin6_flowinfo = flow, sin6_addr = octets6 ip6, sin6_scope_id = scope\<rparr>)
     (SockV6 ipv6_localhost local_port 0 0) listen_addr =
     (if SockV6 ip6 port flow scope = listen_addr then Inl LoopDetected else Inr (SockV6 ip6 port flow scope))"
  by (auto simp: get_original_dest_linux_def get_original_dest_macos_def get_original_dest_v4_def
      get_original_dest_v6_def is_v4_mapped_def ipv6_localhost_def split: sum.split)

end
