(* ===== verification/Rust_Text.thy ===== *)
theory Rust_Text
  imports Net_Addr
begin

text \<open>
  The string operations of Rust's standard library that the source uses: decimal and hexadecimal
  numbers, \<open>split\<close>, \<open>splitn\<close>, \<open>strip_prefix\<close>, \<open>trim\<close>, \<open>lines\<close>, and the \<open>Display\<close> forms of addresses.
\<close>

section \<open>Numbers\<close>

definition code :: "char \<Rightarrow> nat" where
  "code c = of_char c"

definition digit_char :: "nat \<Rightarrow> char" where
  "digit_char d = char_of (48 + d)"

fun dec :: "nat \<Rightarrow> string" where
  "dec n = (if n < 10 then [digit_char n] else dec (n div 10) @ [digit_char (n mod 10)])"

declare dec.simps [simp del]

definition is_digit :: "char \<Rightarrow> bool" where
  "is_digit c \<longleftrightarrow> 48 \<le> code c \<and> code c \<le> 57"

fun parse_digits :: "nat \<Rightarrow> string \<Rightarrow> nat option" where
  "parse_digits acc [] = Some acc"
| "parse_digits acc (c # cs) = (if is_digit c then parse_digits (10 * acc + (code c - 48)) cs else None)"

text \<open>
  \<open>u16::from_str\<close> and its wider sibling: an optional plus sign, at least one digit, a value in range.
\<close>

definition parse_uint :: "nat \<Rightarrow> string \<Rightarrow> nat option" where
  "parse_uint bound s =
     (let ds = (case s of c # cs \<Rightarrow> if c = CHR ''+'' then cs else s | [] \<Rightarrow> s) in
      if ds = [] then None
      else (case parse_digits 0 ds of Some n \<Rightarrow> if n < bound then Some n else None | None \<Rightarrow> None))"

definition parse_u16 :: "string \<Rightarrow> u16 option" where
  "parse_u16 s = map_option of_nat (parse_uint 65536 s)"

lemma code_char_of [simp]: "n < 256 \<Longrightarrow> code (char_of n) = n"
  by (simp add: code_def of_char_of)

lemma code_less [simp]: "code c < 256"
  by (simp add: code_def)

lemma code_inj [simp]: "code c = code d \<longleftrightarrow> c = d"
  by (simp add: code_def)

lemma is_digit_digit_char [simp]: "d < 10 \<Longrightarrow> is_digit (digit_char d)" "d < 10 \<Longrightarrow> code (digit_char d) = 48 + d"
  by (simp_all add: is_digit_def digit_char_def)

lemma dec_digits: "list_all is_digit (dec n)"
proof (induction n rule: dec.induct)
  case (1 n)
  then show ?case by (subst dec.simps) simp
qed

lemma dec_nonempty [simp]: "dec n \<noteq> []"
  by (subst dec.simps) simp

lemma parse_digits_append:
  "parse_digits acc (xs @ ys) = (case parse_digits acc xs of None \<Rightarrow> None | Some a \<Rightarrow> parse_digits a ys)"
  by (induction acc xs rule: parse_digits.induct) auto

lemma parse_digits_dec [simp]: "parse_digits 0 (dec n) = Some n"
proof (induction n rule: dec.induct)
  case (1 n)
  show ?case
  proof (cases "n < 10")
    case True
    then show ?thesis by (simp add: dec.simps [of n])
  next
    case False
    then have "parse_digits 0 (dec (n div 10)) = Some (n div 10)" by (rule "1.IH")
    moreover have "10 * (n div 10) + n mod 10 = n" by presburger
    ultimately show ?thesis using False by (simp add: dec.simps [of n] parse_digits_append)
  qed
qed

lemma parse_digits_grows: "parse_digits acc ds = Some n \<Longrightarrow> acc \<le> n"
proof (induction acc ds rule: parse_digits.induct)
  case (2 acc c cs)
  then show ?case by (auto split: if_splits)
qed simp

lemma dec_head: "\<exists>c cs. dec n = c # cs \<and> is_digit c"
  using dec_digits [of n] dec_nonempty [of n] by (cases "dec n") auto

lemma parse_uint_dec [simp]: "parse_uint bound (dec n) = (if n < bound then Some n else None)"
proof -
  obtain c cs where c: "dec n = c # cs" "is_digit c" using dec_head by blast
  then have "c \<noteq> CHR ''+''" by (auto simp: is_digit_def code_def)
  then show ?thesis using parse_digits_dec [of n] c by (simp add: parse_uint_def)
qed

lemma parse_u16_dec [simp]: "parse_u16 (dec (unat (p :: u16))) = Some p"
  by (simp add: parse_u16_def)

lemma dec_inj: "dec m = dec n \<longleftrightarrow> m = n"
  by (metis option.inject parse_digits_dec)

definition hex_digit :: "nat \<Rightarrow> char" where
  "hex_digit d = (if d < 10 then digit_char d else char_of (87 + d))"

definition hex_digit_upper :: "nat \<Rightarrow> char" where
  "hex_digit_upper d = (if d < 10 then digit_char d else char_of (55 + d))"

text \<open>\<open>{:x}\<close>: lower-case hexadecimal without leading zeros; \<open>{:02X}\<close> of a byte.\<close>

fun hex :: "nat \<Rightarrow> string" where
  "hex n = (if n < 16 then [hex_digit n] else hex (n div 16) @ [hex_digit (n mod 16)])"

declare hex.simps [simp del]

definition hex2_upper :: "u8 \<Rightarrow> string" where
  "hex2_upper b = [hex_digit_upper (unat b div 16), hex_digit_upper (unat b mod 16)]"

section \<open>Splitting and trimming\<close>

text \<open>\<open>str::split(char)\<close>: the pieces between the separators; at least one piece.\<close>

fun split_on :: "char \<Rightarrow> string \<Rightarrow> string list" where
  "split_on sep [] = [[]]"
| "split_on sep (c # cs) =
     (if c = sep then [] # split_on sep cs
      else (case split_on sep cs of [] \<Rightarrow> [[c]] | p # ps \<Rightarrow> (c # p) # ps))"

text \<open>\<open>str::splitn(n, char)\<close> for a positive \<open>n\<close>, and \<open>str::split_once(char)\<close>.\<close>

fun split_once :: "char \<Rightarrow> string \<Rightarrow> (string \<times> string) option" where
  "split_once sep [] = None"
| "split_once sep (c # cs) =
     (if c = sep then Some ([], cs)
      else (case split_once sep cs of None \<Rightarrow> None | Some (a, b) \<Rightarrow> Some (c # a, b)))"

fun splitn :: "nat \<Rightarrow> char \<Rightarrow> string \<Rightarrow> string list" where
  "splitn 0 sep s = []"
| "splitn (Suc 0) sep s = [s]"
| "splitn (Suc (Suc n)) sep s =
     (case split_once sep s of None \<Rightarrow> [s] | Some (a, b) \<Rightarrow> a # splitn (Suc n) sep b)"

definition strip_prefix :: "string \<Rightarrow> string \<Rightarrow> string option" where
  "strip_prefix p s = (if take (length p) s = p then Some (drop (length p) s) else None)"

definition starts_with :: "string \<Rightarrow> string \<Rightarrow> bool" where
  "starts_with p s \<longleftrightarrow> take (length p) s = p"

text \<open>ASCII white space, as \<open>trim\<close> strips it on the ASCII strings of the command line.\<close>

definition is_space :: "char \<Rightarrow> bool" where
  "is_space c \<longleftrightarrow> code c = 32 \<or> (9 \<le> code c \<and> code c \<le> 13)"

definition trim :: "string \<Rightarrow> string" where
  "trim s = rev (dropWhile is_space (rev (dropWhile is_space s)))"

text \<open>\<open>lines().next()\<close>: up to the first line feed, without the carriage return before it.\<close>

definition first_line :: "string \<Rightarrow> string option" where
  "first_line s =
     (if s = [] then None
      else let l = takeWhile (\<lambda>c. c \<noteq> CHR ''\<newline>'') s in
           Some (if length l < length s \<and> l \<noteq> [] \<and> last l = char_of (13 :: nat) then butlast l else l))"

text \<open>\<open>str::lines\<close>: no line after a final line feed, and no carriage return before a line feed.\<close>

definition strip_cr :: "string \<Rightarrow> string" where
  "strip_cr l = (if l \<noteq> [] \<and> last l = char_of (13 :: nat) then butlast l else l)"

definition str_lines :: "string \<Rightarrow> string list" where
  "str_lines s =
     (let ps = split_on CHR ''\<newline>'' s in
      map strip_cr (butlast ps) @ (if last ps = [] then [] else [last ps]))"

text \<open>\<open>str::split_whitespace\<close>: the runs of characters that are not white space.\<close>

fun split_ws :: "string \<Rightarrow> string \<Rightarrow> string list" where
  "split_ws cur [] = (if cur = [] then [] else [cur])"
| "split_ws cur (c # cs) =
     (if is_space c then (if cur = [] then split_ws [] cs else cur # split_ws [] cs)
      else split_ws (cur @ [c]) cs)"

definition split_whitespace :: "string \<Rightarrow> string list" where
  "split_whitespace s = split_ws [] s"

lemma split_ws_word:
  "\<forall>c \<in> set w. \<not> is_space c \<Longrightarrow> is_space c \<Longrightarrow> cur @ w \<noteq> [] \<Longrightarrow> split_ws cur (w @ c # s) = (cur @ w) # split_ws [] s"
  by (induction w arbitrary: cur) auto

lemma split_on_nonempty [simp]: "split_on sep s \<noteq> []"
  by (induction s) (auto split: list.split)

lemma join_split_on: "join [sep] (split_on sep s) = s"
proof (induction s)
  case (Cons c s)
  obtain p ps where "split_on sep s = p # ps" by (cases "split_on sep s") auto
  with Cons show ?case by (cases ps) auto
qed simp

lemma split_on_no_sep: "p \<in> set (split_on sep s) \<Longrightarrow> sep \<notin> set p"
  by (induction s arbitrary: p) (auto split: list.splits if_splits)

lemma split_on_plain: "sep \<notin> set s \<Longrightarrow> split_on sep s = [s]"
  by (induction s) auto

lemma split_on_Cons_append: "sep \<notin> set p \<Longrightarrow> split_on sep (p @ sep # s) = p # split_on sep s"
  by (induction p) auto

lemma split_on_join:
  "ps \<noteq> [] \<Longrightarrow> \<forall>p \<in> set ps. sep \<notin> set p \<Longrightarrow> split_on sep (join [sep] ps) = ps"
proof (induction ps)
  case (Cons p ps)
  then show ?case
    using split_on_Cons_append [of sep p "join [sep] ps"] by (cases ps) (auto simp: split_on_plain)
qed simp

lemma split_once_append: "sep \<notin> set p \<Longrightarrow> split_once sep (p @ sep # s) = Some (p, s)"
  by (induction p) auto

lemma split_once_None: "split_once sep s = None \<longleftrightarrow> sep \<notin> set s"
  by (induction s) (auto split: option.splits)

lemma strip_prefix_append [simp]: "strip_prefix p (p @ s) = Some s"
  by (simp add: strip_prefix_def)

lemma trim_snoc_space: "is_space c \<Longrightarrow> trim (s @ [c]) = trim s"
proof -
  assume c: "is_space c"
  show "trim (s @ [c]) = trim s"
  proof (cases "\<forall>x \<in> set s. is_space x")
    case True
    then have "dropWhile is_space s = []" by (simp add: dropWhile_eq_Nil_conv)
    moreover have "dropWhile is_space (s @ [c]) = []" using True c by (simp add: dropWhile_eq_Nil_conv)
    ultimately show ?thesis by (simp only: trim_def)
  next
    case False
    then have "dropWhile is_space (s @ [c]) = dropWhile is_space s @ [c]" by (simp add: dropWhile_append)
    then show ?thesis using c by (simp add: trim_def)
  qed
qed

lemma trim_no_space: "\<forall>c \<in> set s. \<not> is_space c \<Longrightarrow> trim s = s"
proof -
  have keep: "dropWhile is_space xs = xs" if "\<forall>c \<in> set xs. \<not> is_space c" for xs
    using that by (cases xs) auto
  assume "\<forall>c \<in> set s. \<not> is_space c"
  then show "trim s = s" using keep [of s] keep [of "rev s"] by (simp add: trim_def)
qed

section \<open>Addresses as text\<close>

fun ipv4_display :: "ipv4 \<Rightarrow> string" where
  "ipv4_display (Ipv4 a b c d) = join ''.'' (map (\<lambda>o8. dec (unat o8)) [a, b, c, d])"

fun segments6 :: "ipv6 \<Rightarrow> u16 list" where
  "segments6 (Ipv6 a b c d e f g h) = [a, b, c, d, e, f, g, h]"

text \<open>The first longest run of zero segments, as a start and a length.\<close>

fun zero_run :: "nat \<Rightarrow> nat \<times> nat \<Rightarrow> nat \<times> nat \<Rightarrow> u16 list \<Rightarrow> nat \<times> nat" where
  "zero_run i cur longest [] = longest"
| "zero_run i cur longest (s # ss) =
     (if s = 0 then
        let cur = (if snd cur = 0 then (i, 1) else (fst cur, snd cur + 1)) in
        zero_run (i + 1) cur (if snd longest < snd cur then cur else longest) ss
      else zero_run (i + 1) (0, 0) longest ss)"

definition hex_segments :: "u16 list \<Rightarrow> string" where
  "hex_segments ss = join '':'' (map (\<lambda>s. hex (unat s)) ss)"

definition ipv6_display :: "ipv6 \<Rightarrow> string" where
  "ipv6_display a =
     (case to_ipv4_mapped a of
        Some v4 \<Rightarrow> ''::ffff:'' @ ipv4_display v4
      | None \<Rightarrow>
          let ss = segments6 a; (start, len) = zero_run 0 (0, 0) (0, 0) ss in
          if 1 < len then hex_segments (take start ss) @ ''::'' @ hex_segments (drop (start + len) ss)
          else hex_segments ss)"

fun ip_display :: "ip_addr \<Rightarrow> string" where
  "ip_display (IpV4 a) = ipv4_display a"
| "ip_display (IpV6 a) = ipv6_display a"

fun sock_display :: "socket_addr \<Rightarrow> string" where
  "sock_display (SockV4 a p) = ipv4_display a @ '':'' @ dec (unat p)"
| "sock_display (SockV6 a p flow scope) =
     (if scope = 0 then ''['' @ ipv6_display a @ '']:'' @ dec (unat p)
      else ''['' @ ipv6_display a @ ''%'' @ dec (unat scope) @ '']:'' @ dec (unat p))"

text \<open>The characters that a displayed address is made of.\<close>

definition addr_char :: "char \<Rightarrow> bool" where
  "addr_char c \<longleftrightarrow> is_digit c \<or> 97 \<le> code c \<and> code c \<le> 102 \<or> c = CHR ''.'' \<or> c = CHR '':''"

lemma hex_digit_char: "d < 16 \<Longrightarrow> addr_char (hex_digit d)"
  by (simp add: hex_digit_def addr_char_def)

lemma hex_chars: "list_all addr_char (hex n)"
proof (induction n rule: hex.induct)
  case (1 n)
  then show ?case by (subst hex.simps) (simp add: hex_digit_char)
qed

lemma dec_addr_chars: "list_all addr_char (dec n)"
  using dec_digits by (rule list.pred_mono_strong) (simp add: addr_char_def)

lemma join_chars: "list_all P sep \<Longrightarrow> list_all (list_all P) xs \<Longrightarrow> list_all P (join sep xs)"
  by (induction sep xs rule: join.induct) simp_all

lemma ipv4_display_chars: "list_all addr_char (ipv4_display a)"
  by (cases a) (auto simp: dec_addr_chars addr_char_def intro!: join_chars)

lemma hex_segments_chars: "list_all addr_char (hex_segments ss)"
  unfolding hex_segments_def
  by (intro join_chars) (simp_all add: list.pred_map comp_def hex_chars list.pred_True, simp add: addr_char_def)

lemma ipv6_display_chars: "list_all addr_char (ipv6_display a)"
  by (auto simp: ipv6_display_def hex_segments_chars ipv4_display_chars addr_char_def is_digit_def code_def
      Let_def split: option.split prod.split)

lemma ip_display_chars: "list_all addr_char (ip_display a)"
  by (cases a) (simp_all add: ipv4_display_chars ipv6_display_chars)

end
