(* ===== verification/Addr_Parse.thy ===== *)
theory Addr_Parse
  imports Rust_Text
begin

text \<open>
  \<open>str::parse::<SocketAddr>()\<close> and \<open>str::parse::<IpAddr>()\<close>, the address parsers of Rust's standard
  library (\<open>core::net::parser\<close>): backtracking readers that return the rest of the input, and must
  consume all of it.
\<close>

type_synonym 'a reader = "string \<Rightarrow> ('a \<times> string) option"

definition read_char :: "char \<Rightarrow> unit reader" where
  "read_char c s = (case s of d # ds \<Rightarrow> if d = c then Some ((), ds) else None | [] \<Rightarrow> None)"

definition hex_value :: "char \<Rightarrow> nat option" where
  "hex_value c =
     (if is_digit c then Some (code c - 48)
      else if 97 \<le> code c \<and> code c \<le> 102 then Some (code c - 87)
      else if 65 \<le> code c \<and> code c \<le> 70 then Some (code c - 55)
      else None)"

definition digit_value :: "nat \<Rightarrow> char \<Rightarrow> nat option" where
  "digit_value radix c = (case hex_value c of None \<Rightarrow> None | Some d \<Rightarrow> if d < radix then Some d else None)"

text \<open>
  \<open>read_number(radix, max_digits, allow_zero_prefix)\<close> of a type with \<open>bound\<close> values: it takes every digit
  that follows, and fails on an overflow or on too many digits.
\<close>

fun read_digits :: "nat \<Rightarrow> nat option \<Rightarrow> nat \<Rightarrow> nat \<Rightarrow> nat \<Rightarrow> (nat \<times> nat) reader" where
  "read_digits radix max_digits bound acc count [] = Some ((acc, count), [])"
| "read_digits radix max_digits bound acc count (c # cs) =
     (case digit_value radix c of
        None \<Rightarrow> Some ((acc, count), c # cs)
      | Some d \<Rightarrow>
          if bound \<le> radix * acc + d then None
          else if (case max_digits of None \<Rightarrow> False | Some m \<Rightarrow> m < count + 1) then None
          else read_digits radix max_digits bound (radix * acc + d) (count + 1) cs)"

definition read_number :: "nat \<Rightarrow> nat option \<Rightarrow> nat \<Rightarrow> bool \<Rightarrow> nat reader" where
  "read_number radix max_digits bound zero_prefix s =
     (case read_digits radix max_digits bound 0 0 s of
        None \<Rightarrow> None
      | Some ((n, count), rest) \<Rightarrow>
          if count = 0 then None
          else if \<not> zero_prefix \<and> hd s = CHR ''0'' \<and> 1 < count then None
          else Some (n, rest))"

definition read_sep :: "char \<Rightarrow> nat \<Rightarrow> 'a reader \<Rightarrow> 'a reader" where
  "read_sep sep index inner s =
     (if 0 < index then (case read_char sep s of None \<Rightarrow> None | Some (_, s) \<Rightarrow> inner s) else inner s)"

definition read_octet :: "nat \<Rightarrow> nat reader" where
  "read_octet index = read_sep CHR ''.'' index (read_number 10 (Some 3) 256 False)"

definition read_ipv4 :: "ipv4 reader" where
  "read_ipv4 s =
     do { (a, s) \<leftarrow> read_octet 0 s; (b, s) \<leftarrow> read_octet 1 s; (c, s) \<leftarrow> read_octet 2 s;
          (d, s) \<leftarrow> read_octet 3 s;
          Some (Ipv4 (of_nat a) (of_nat b) (of_nat c) (of_nat d), s) }"

text \<open>\<open>read_groups\<close>: up to \<open>limit\<close> groups, the last of which may be a dotted quad for two.\<close>

fun read_groups :: "nat \<Rightarrow> nat \<Rightarrow> u16 list \<Rightarrow> string \<Rightarrow> u16 list \<times> bool \<times> string" where
  "read_groups 0 i groups s = (groups, False, s)"
| "read_groups (Suc n) i groups s =
     (case (if 0 < n then read_sep CHR '':'' i read_ipv4 s else None) of
        Some (Ipv4 a b c d, s') \<Rightarrow> (groups @ [u16_be a b, u16_be c d], True, s')
      | None \<Rightarrow>
          (case read_sep CHR '':'' i (read_number 16 (Some 4) 65536 True) s of
             None \<Rightarrow> (groups, False, s)
           | Some (g, s') \<Rightarrow> read_groups n (i + 1) (groups @ [of_nat g]) s'))"

fun ipv6_of_segments :: "u16 list \<Rightarrow> ipv6 option" where
  "ipv6_of_segments [a, b, c, d, e, f, g, h] = Some (Ipv6 a b c d e f g h)"
| "ipv6_of_segments _ = None"

definition read_ipv6 :: "ipv6 reader" where
  "read_ipv6 s0 =
     (case read_groups 8 0 [] s0 of
        (head, head_ipv4, s) \<Rightarrow>
          if length head = 8 then map_option (\<lambda>a. (a, s)) (ipv6_of_segments head)
          else if head_ipv4 then None
          else do {
            (_, s) \<leftarrow> read_char CHR '':'' s;
            (_, s) \<leftarrow> read_char CHR '':'' s;
            (case read_groups (8 - (length head + 1)) 0 [] s of
               (tail, _, s) \<Rightarrow>
                 map_option (\<lambda>a. (a, s))
                   (ipv6_of_segments (head @ replicate (8 - length head - length tail) 0 @ tail))) })"

definition read_port :: "u16 reader" where
  "read_port s =
     do { (_, s) \<leftarrow> read_char CHR '':'' s; (p, s) \<leftarrow> read_number 10 None 65536 True s; Some (of_nat p, s) }"

definition read_scope :: "u32 reader" where
  "read_scope s =
     do { (_, s) \<leftarrow> read_char CHR ''%'' s; (n, s) \<leftarrow> read_number 10 None 4294967296 True s; Some (of_nat n, s) }"

definition read_sock_v4 :: "socket_addr reader" where
  "read_sock_v4 s = do { (a, s) \<leftarrow> read_ipv4 s; (p, s) \<leftarrow> read_port s; Some (SockV4 a p, s) }"

definition read_sock_v6 :: "socket_addr reader" where
  "read_sock_v6 s =
     do { (_, s) \<leftarrow> read_char CHR ''['' s;
          (a, s) \<leftarrow> read_ipv6 s;
          let (scope, s) = (case read_scope s of None \<Rightarrow> (0, s) | Some (n, s') \<Rightarrow> (n, s')) in do {
          (_, s) \<leftarrow> read_char CHR '']'' s;
          (p, s) \<leftarrow> read_port s;
          Some (SockV6 a p 0 scope, s) } }"

definition parse_all :: "'a reader \<Rightarrow> string \<Rightarrow> 'a option" where
  "parse_all r s = (case r s of Some (x, []) \<Rightarrow> Some x | _ \<Rightarrow> None)"

definition parse_socket_addr :: "string \<Rightarrow> socket_addr option" where
  "parse_socket_addr =
     parse_all (\<lambda>s. case read_sock_v4 s of Some r \<Rightarrow> Some r | None \<Rightarrow> read_sock_v6 s)"

text \<open>An IPv4 address of more than 15 bytes is rejected before it is read.\<close>

definition parse_ipv4 :: "string \<Rightarrow> ipv4 option" where
  "parse_ipv4 s = (if 15 < length s then None else parse_all read_ipv4 s)"

definition parse_ipv6 :: "string \<Rightarrow> ipv6 option" where
  "parse_ipv6 = parse_all read_ipv6"

definition parse_ip_addr :: "string \<Rightarrow> ip_addr option" where
  "parse_ip_addr = parse_all (\<lambda>s. case read_ipv4 s of Some (a, s') \<Rightarrow> Some (IpV4 a, s')
     | None \<Rightarrow> map_option (\<lambda>(a, s'). (IpV6 a, s')) (read_ipv6 s))"

section \<open>A displayed IPv4 socket address reads back\<close>

lemma digit_value_10: "is_digit c \<Longrightarrow> digit_value 10 c = Some (code c - 48)"
  by (auto simp: digit_value_def hex_value_def is_digit_def)

definition stops :: "nat \<Rightarrow> string \<Rightarrow> bool" where
  "stops radix s \<longleftrightarrow> (case s of [] \<Rightarrow> True | c # _ \<Rightarrow> digit_value radix c = None)"

lemma read_digits_stop: "stops radix s \<Longrightarrow> read_digits radix m b acc count s = Some ((acc, count), s)"
  by (cases s) (auto simp: stops_def)

text \<open>Reading a run of decimal digits is \<open>parse_digits\<close>, as long as the value stays in range.\<close>

lemma read_digits_run:
  assumes "list_all is_digit ds" "stops 10 s" "parse_digits acc ds = Some n" "n < b" "acc < b"
    "(case m of None \<Rightarrow> True | Some k \<Rightarrow> count + length ds \<le> k)"
  shows "read_digits 10 m b acc count (ds @ s) = Some ((n, count + length ds), s)"
  using assms
proof (induction ds arbitrary: acc count)
  case Nil
  then show ?case by (simp add: read_digits_stop)
next
  case (Cons c cs)
  let ?acc = "10 * acc + (code c - 48)"
  have "?acc \<le> n" using Cons.prems(1,3) by (auto dest: parse_digits_grows)
  then show ?case
    using Cons.prems Cons.IH [of ?acc "count + 1"]
    by (auto simp: digit_value_10 split: option.splits)
qed

lemma dec_length: "n < 10 ^ Suc k \<Longrightarrow> length (dec n) \<le> Suc k"
proof (induction k arbitrary: n)
  case 0
  then show ?case by (simp add: dec.simps [of n])
next
  case (Suc k)
  then have "n div 10 < 10 ^ Suc k" by (simp add: div_less_iff_less_mult mult.commute)
  from Suc.IH [OF this] show ?case by (subst dec.simps) simp
qed

lemma dec_leading_zero: "hd (dec n) = CHR ''0'' \<Longrightarrow> n = 0"
proof (induction n rule: dec.induct)
  case (1 n)
  show ?case
  proof (cases "n < 10")
    case True
    then have "code (hd (dec n)) = 48 + n" by (simp add: dec.simps [of n])
    then show ?thesis using "1.prems" by (simp add: code_def)
  next
    case False
    then have "hd (dec n) = hd (dec (n div 10))" by (simp add: dec.simps [of n])
    then have "n div 10 = 0" using "1.IH" [OF False] "1.prems" by simp
    then show ?thesis using False by simp
  qed
qed

lemma read_number_dec:
  assumes "stops 10 s" "n < b" "case m of None \<Rightarrow> True | Some k \<Rightarrow> length (dec n) \<le> k"
  shows "read_number 10 m b zp (dec n @ s) = Some (n, s)"
proof -
  have "read_digits 10 m b 0 0 (dec n @ s) = Some ((n, length (dec n)), s)"
    using read_digits_run [OF dec_digits assms(1) parse_digits_dec assms(2), where m = m and count = 0] assms(2,3)
    by (cases m) simp_all
  moreover have "length (dec n) \<le> 1" if "hd (dec n @ s) = CHR ''0''"
    using dec_leading_zero [of n] that by (simp add: dec.simps [of 0])
  ultimately show ?thesis by (auto simp: read_number_def)
qed

lemma octet_length: "length (dec (unat (a :: u8))) \<le> 3"
proof -
  have "unat a < 1000" using unat_u8_less [of a] by linarith
  then show ?thesis using dec_length [of "unat a" 2] by (simp add: eval_nat_numeral)
qed

lemma read_octet_dec:
  "stops 10 s \<Longrightarrow> read_octet 0 (dec (unat (a :: u8)) @ s) = Some (unat a, s)"
  "stops 10 s \<Longrightarrow> 0 < i \<Longrightarrow> read_octet i (CHR ''.'' # dec (unat (a :: u8)) @ s) = Some (unat a, s)"
proof -
  have "stops 10 s \<Longrightarrow> read_number 10 (Some 3) 256 False (dec (unat a) @ s) = Some (unat a, s)"
    by (intro read_number_dec) (simp_all add: octet_length)
  then show "stops 10 s \<Longrightarrow> read_octet 0 (dec (unat a) @ s) = Some (unat a, s)"
    "stops 10 s \<Longrightarrow> 0 < i \<Longrightarrow> read_octet i (CHR ''.'' # dec (unat a) @ s) = Some (unat a, s)"
    by (simp_all add: read_octet_def read_sep_def read_char_def)
qed

lemma stops_sep: "stops 10 (CHR ''.'' # s)" "stops 10 (CHR '':'' # s)" "stops 10 []" "stops 10 (CHR ''/'' # s)"
  by (simp_all add: stops_def digit_value_def hex_value_def is_digit_def code_def)

lemma read_ipv4_display: "stops 10 s \<Longrightarrow> read_ipv4 (ipv4_display a @ s) = Some (a, s)"
  by (cases a) (simp add: read_ipv4_def read_octet_dec stops_sep)

lemma parse_ipv4_display: "parse_ipv4 (ipv4_display a) = Some a"
proof -
  obtain o1 o2 o3 o4 where a: "a = Ipv4 o1 o2 o3 o4" by (cases a)
  have "length (ipv4_display a) \<le> 15"
    using octet_length [of o1] octet_length [of o2] octet_length [of o3] octet_length [of o4] by (simp add: a)
  then show ?thesis
    using read_ipv4_display [of "[]" a] by (simp add: parse_ipv4_def parse_all_def stops_sep)
qed

lemma parse_socket_addr_v4: "parse_socket_addr (sock_display (SockV4 a p)) = Some (SockV4 a p)"
proof -
  have "read_port (CHR '':'' # dec (unat p)) = Some (p, [])"
    using read_number_dec [of "[]" "unat p" 65536 None True] by (simp add: read_port_def read_char_def stops_sep)
  then show ?thesis
    using read_ipv4_display [of "CHR '':'' # dec (unat p)" a]
    by (simp add: parse_socket_addr_def parse_all_def read_sock_v4_def stops_sep)
qed

end
