(* ===== verification/Config.thy ===== *)
theory Config
  imports Addr_Parse
begin

text \<open>
  The command-line configuration of \<^verbatim>\<open>src/src/config.rs\<close>: the option values with their parsers and
  printers, and the settings derived from them.  The resolver of the operating system
  (\<open>to_socket_addrs\<close>) and its interface list (\<open>getifaddrs\<close>) are parameters.  The flag parser itself is
  the \<open>clap\<close> library.
\<close>

section \<open>Upstreams\<close>

datatype dns_upstream = Udp socket_addr | Https string
datatype proxy_auth = NoAuth | UsernamePassword string string
datatype proxy_protocol = HttpConnect | Socks5 proxy_auth

record upstream_proxy =
  up_protocol :: proxy_protocol
  up_addr :: socket_addr

text \<open>The messages of the errors are not modelled, only which check failed.\<close>

datatype config_error = BadUserinfo | EmptyCredential | LongCredential | ResolveFailed | NoAddresses
  | BadPort | PortZero | NoPorts

type_synonym 'a config_result = "config_error + 'a"

text \<open>\<open>to_socket_addrs\<close>: an error, or the addresses it found.\<close>

type_synonym resolver = "string \<Rightarrow> socket_addr list option"

fun is_socks5 :: "upstream_proxy \<Rightarrow> bool" where
  "is_socks5 p = (case up_protocol p of Socks5 _ \<Rightarrow> True | HttpConnect \<Rightarrow> False)"

definition upstream_display :: "upstream_proxy \<Rightarrow> string" where
  "upstream_display p =
     (case up_protocol p of
        HttpConnect \<Rightarrow> ''http://'' @ sock_display (up_addr p)
      | Socks5 NoAuth \<Rightarrow> ''socks5://'' @ sock_display (up_addr p)
      | Socks5 (UsernamePassword username _) \<Rightarrow> ''socks5://'' @ username @ ''@'' @ sock_display (up_addr p))"

definition validate_socks5_credential :: "string \<Rightarrow> unit config_result" where
  "validate_socks5_credential value =
     (if length value = 0 then Inl EmptyCredential
      else if 255 < length value then Inl LongCredential else Inr ())"

definition resolve_addr :: "resolver \<Rightarrow> string \<Rightarrow> socket_addr config_result" where
  "resolve_addr resolve addr =
     (case parse_socket_addr addr of
        Some a \<Rightarrow> Inr a
      | None \<Rightarrow> (case resolve addr of
          None \<Rightarrow> Inl ResolveFailed
        | Some [] \<Rightarrow> Inl NoAddresses
        | Some (a # _) \<Rightarrow> Inr a))"

definition parse_upstream_addr :: "resolver \<Rightarrow> string \<Rightarrow> socket_addr config_result" where
  "parse_upstream_addr resolve addr = resolve_addr resolve addr"

definition resolve_dns_upstream_addr :: "resolver \<Rightarrow> string \<Rightarrow> socket_addr config_result" where
  "resolve_dns_upstream_addr resolve input = resolve_addr resolve input"

text \<open>\<open>rfind\<close> of a character: what is before and after its last occurrence.\<close>

definition rsplit_once :: "char \<Rightarrow> string \<Rightarrow> (string \<times> string) option" where
  "rsplit_once c s =
     (case split_once c (rev s) of None \<Rightarrow> None | Some (b, a) \<Rightarrow> Some (rev a, rev b))"

definition parse_socks5_auth :: "string \<Rightarrow> proxy_auth config_result" where
  "parse_socks5_auth userinfo =
     (case split_once CHR '':'' userinfo of
        None \<Rightarrow> Inl BadUserinfo
      | Some (user, pass) \<Rightarrow>
          (case validate_socks5_credential user of Inl e \<Rightarrow> Inl e | Inr _ \<Rightarrow>
          (case validate_socks5_credential pass of Inl e \<Rightarrow> Inl e | Inr _ \<Rightarrow>
             Inr (UsernamePassword user pass))))"

definition parse_upstream_proxy :: "resolver \<Rightarrow> string \<Rightarrow> upstream_proxy config_result" where
  "parse_upstream_proxy resolve s =
     (case strip_prefix ''socks5://'' s of
        Some rest \<Rightarrow>
          (case (case rsplit_once CHR ''@'' rest of
                   Some (userinfo, addr_part) \<Rightarrow>
                     (case parse_socks5_auth userinfo of Inl e \<Rightarrow> Inl e | Inr auth \<Rightarrow> Inr (auth, addr_part))
                 | None \<Rightarrow> Inr (NoAuth, rest)) of
             Inl e \<Rightarrow> Inl e
           | Inr (auth, addr_str) \<Rightarrow>
               (case parse_upstream_addr resolve addr_str of
                  Inl e \<Rightarrow> Inl e
                | Inr addr \<Rightarrow> Inr \<lparr>up_protocol = Socks5 auth, up_addr = addr\<rparr>))
      | None \<Rightarrow>
          let addr_str = (case strip_prefix ''http://'' s of Some r \<Rightarrow> r | None \<Rightarrow> s) in
          (case parse_upstream_addr resolve addr_str of
             Inl e \<Rightarrow> Inl e
           | Inr addr \<Rightarrow> Inr \<lparr>up_protocol = HttpConnect, up_addr = addr\<rparr>))"

fun dns_upstream_display :: "dns_upstream \<Rightarrow> string" where
  "dns_upstream_display (Udp addr) = sock_display addr"
| "dns_upstream_display (Https url) = url"

definition parse_dns_upstream :: "resolver \<Rightarrow> string \<Rightarrow> dns_upstream config_result" where
  "parse_dns_upstream resolve s =
     (if starts_with ''https://'' s then Inr (Https s)
      else (case resolve_dns_upstream_addr resolve s of Inl e \<Rightarrow> Inl e | Inr a \<Rightarrow> Inr (Udp a)))"

section \<open>The DoH proxy URL (\<^verbatim>\<open>dns.rs\<close>)\<close>

definition is_unreserved :: "u8 \<Rightarrow> bool" where
  "is_unreserved b \<longleftrightarrow>
     48 \<le> b \<and> b \<le> 57 \<or> 65 \<le> b \<and> b \<le> 90 \<or> 97 \<le> b \<and> b \<le> 122 \<or> b = 45 \<or> b = 46 \<or> b = 95 \<or> b = 126"

definition percent_encode_byte :: "u8 \<Rightarrow> string" where
  "percent_encode_byte b = (if is_unreserved b then [char_of (unat b)] else CHR ''%'' # hex2_upper b)"

definition percent_encode_userinfo :: "string \<Rightarrow> string" where
  "percent_encode_userinfo value = concat (map percent_encode_byte (bytes_of value))"

definition doh_proxy_url :: "upstream_proxy \<Rightarrow> string" where
  "doh_proxy_url p =
     (case up_protocol p of
        HttpConnect \<Rightarrow> ''http://'' @ sock_display (up_addr p)
      | Socks5 NoAuth \<Rightarrow> ''socks5://'' @ sock_display (up_addr p)
      | Socks5 (UsernamePassword username password) \<Rightarrow>
          ''socks5://'' @ percent_encode_userinfo username @ '':'' @ percent_encode_userinfo password @
          ''@'' @ sock_display (up_addr p))"

section \<open>Port lists\<close>

type_synonym port_list = "u16 list"

definition port_list_display :: "port_list \<Rightarrow> string" where
  "port_list_display ps = join '','' (map (\<lambda>p. dec (unat p)) ps)"

text \<open>The loop of \<open>PortList::from_str\<close>; the set of the ports seen is the set of those kept.\<close>

fun parse_ports :: "string list \<Rightarrow> u16 list \<Rightarrow> port_list config_result" where
  "parse_ports [] ports = Inr ports"
| "parse_ports (part # parts) ports =
     (case parse_u16 (trim part) of
        None \<Rightarrow> Inl BadPort
      | Some port \<Rightarrow>
          if port = 0 then Inl PortZero
          else parse_ports parts (if port \<in> set ports then ports else ports @ [port]))"

definition parse_port_list :: "string \<Rightarrow> port_list config_result" where
  "parse_port_list s =
     (case parse_ports (split_on CHR '','' s) [] of
        Inl e \<Rightarrow> Inl e
      | Inr ports \<Rightarrow> if ports = [] then Inl NoPorts else Inr ports)"

section \<open>The configuration\<close>

record config =
  cf_listen_addr :: socket_addr
  cf_upstream_proxy :: "upstream_proxy option"
  cf_log_level :: string
  cf_dns :: bool
  cf_dns_listen :: "socket_addr option"
  cf_dns_upstream :: dns_upstream
  cf_dns_strip_aaaa :: bool
  cf_interface :: string
  cf_daemon :: bool
  cf_pid_file :: string
  cf_log_file :: "string option"
  cf_local_traffic :: bool
  cf_proxy_user :: string
  cf_fwmark :: u32
  cf_gateway :: bool
  cf_sni :: bool
  cf_ports :: "port_list option"
  cf_allow_quic :: bool
  cf_install :: bool
  cf_uninstall :: bool
  cf_start :: bool
  cf_stop :: bool
  cf_setup_firewall :: bool
  cf_teardown_firewall :: bool

text \<open>A configuration for the examples.\<close>

definition demo_config :: config where
  "demo_config =
     \<lparr>cf_listen_addr = SockV4 (Ipv4 0 0 0 0) 8443,
      cf_upstream_proxy = Some \<lparr>up_protocol = HttpConnect, up_addr = SockV4 (Ipv4 10 0 0 9) 3128\<rparr>,
      cf_log_level = ''info'', cf_dns = True, cf_dns_listen = None, cf_dns_upstream = Udp (SockV4 (Ipv4 1 1 1 1) 53),
      cf_dns_strip_aaaa = False, cf_interface = ''eth0'', cf_daemon = False, cf_pid_file = ''/run/tp.pid'',
      cf_log_file = None, cf_local_traffic = True, cf_proxy_user = ''tp'', cf_fwmark = 1, cf_gateway = False,
      cf_sni = False, cf_ports = None, cf_allow_quic = False, cf_install = False, cf_uninstall = False,
      cf_start = False, cf_stop = False, cf_setup_firewall = False, cf_teardown_firewall = False\<rparr>"

definition proxy_udp_enabled :: "config \<Rightarrow> bool" where
  "proxy_udp_enabled c \<longleftrightarrow>
     \<not> cf_allow_quic c \<and> (case cf_upstream_proxy c of Some p \<Rightarrow> is_socks5 p | None \<Rightarrow> False)"

text \<open>
  One entry of the list of \<open>getifaddrs\<close>: the interface name and its address, if it has one and it is
  of the family \<open>AF_INET\<close> or \<open>AF_INET6\<close>.
\<close>

type_synonym ifaddr = "string \<times> ip_addr option"

definition ipv6_usable :: "ipv6 \<Rightarrow> bool" where
  "ipv6_usable a \<longleftrightarrow> a \<noteq> ipv6_localhost \<and> ipv6_segments0 a AND 0xfe80 \<noteq> 0xfe80"

fun scan_ifaddrs :: "string \<Rightarrow> ifaddr list \<Rightarrow> ip_addr option \<Rightarrow> ip_addr option \<Rightarrow> ip_addr option" where
  "scan_ifaddrs name [] v4 v6 = (case v4 of Some a \<Rightarrow> Some a | None \<Rightarrow> v6)"
| "scan_ifaddrs name ((n, a) # rest) v4 v6 =
     (if n = name then
        (case a of
           Some (IpV4 x) \<Rightarrow> scan_ifaddrs name rest (if v4 = None then Some (IpV4 x) else v4) v6
         | Some (IpV6 x) \<Rightarrow>
             scan_ifaddrs name rest v4 (if v6 = None \<and> ipv6_usable x then Some (IpV6 x) else v6)
         | None \<Rightarrow> scan_ifaddrs name rest v4 v6)
      else scan_ifaddrs name rest v4 v6)"

text \<open>A name with a NUL byte is no C string; \<open>None\<close> for the list is a failing \<open>getifaddrs\<close>.\<close>

definition get_interface_ip :: "ifaddr list option \<Rightarrow> string \<Rightarrow> ip_addr option" where
  "get_interface_ip ifaddrs name =
     (if char_of (0 :: nat) \<in> set name then None
      else (case ifaddrs of None \<Rightarrow> None | Some l \<Rightarrow> scan_ifaddrs name l None None))"

definition resolve_dns_listen :: "ifaddr list option \<Rightarrow> config \<Rightarrow> socket_addr option" where
  "resolve_dns_listen ifaddrs c =
     (case cf_dns_listen c of
        Some addr \<Rightarrow> Some addr
      | None \<Rightarrow>
          if cf_dns c then
            let ip = (case get_interface_ip ifaddrs (cf_interface c) of
                        Some ip \<Rightarrow> ip | None \<Rightarrow> IpV4 ipv4_unspecified) in
            Some (sock_new ip 53)
          else None)"

section \<open>Port lists: parsing and printing\<close>

lemma digit_not: "is_digit c \<Longrightarrow> c \<noteq> CHR '','' \<and> \<not> is_space c \<and> c \<noteq> CHR ''@'' \<and> c \<noteq> CHR '':''"
  by (auto simp: is_digit_def is_space_def code_def)

lemma dec_trim [simp]: "trim (dec n) = dec n"
  using dec_digits [of n] digit_not by (intro trim_no_space) (auto simp: list_all_iff)

lemma dec_no_comma: "CHR '','' \<notin> set (dec n)"
  using dec_digits [of n] digit_not by (auto simp: list_all_iff)

lemma parse_ports_sound:
  "parse_ports parts ps = Inr ports \<Longrightarrow> distinct ps \<Longrightarrow> 0 \<notin> set ps \<Longrightarrow>
     distinct ports \<and> 0 \<notin> set ports \<and> set ps \<subseteq> set ports \<and> (parts \<noteq> [] \<longrightarrow> ports \<noteq> [])"
proof (induction parts ps rule: parse_ports.induct)
  case (2 part parts ps)
  then show ?case by (cases "parts = []") (fastforce split: option.splits if_splits)+
qed simp

lemma parse_ports_display:
  "distinct (ps @ qs) \<Longrightarrow> 0 \<notin> set qs \<Longrightarrow> parse_ports (map (\<lambda>p. dec (unat p)) qs) ps = Inr (ps @ qs)"
  by (induction qs arbitrary: ps) auto

lemma parse_port_list_display:
  assumes "distinct ps" "0 \<notin> set ps" "ps \<noteq> []"
  shows "parse_port_list (port_list_display ps) = Inr ps"
proof -
  have "split_on CHR '','' (port_list_display ps) = map (\<lambda>p. dec (unat p)) ps"
    unfolding port_list_display_def using assms(3) by (intro split_on_join) (auto simp: dec_no_comma)
  then show ?thesis
    using parse_ports_display [of "[]" ps] assms by (simp add: parse_port_list_def)
qed

section \<open>Percent encoding\<close>

definition unhex :: "char \<Rightarrow> nat" where
  "unhex c = (if is_digit c then code c - 48 else code c - 55)"

fun percent_decode :: "string \<Rightarrow> bytes" where
  "percent_decode (c # cs) =
     (if c = CHR ''%'' then
        (case cs of a # b # rest \<Rightarrow> of_nat (unhex a * 16 + unhex b) # percent_decode rest | _ \<Rightarrow> [])
      else of_nat (code c) # percent_decode cs)"
| "percent_decode [] = []"

text \<open>The characters that may stand in the user information of a URL as they are, and the escapes.\<close>

definition userinfo_char :: "char \<Rightarrow> bool" where
  "userinfo_char c \<longleftrightarrow> is_unreserved (of_nat (code c)) \<or> c = CHR ''%''"

lemma hex_digit_upper_code: "d < 16 \<Longrightarrow> unhex (hex_digit_upper d) = d \<and> code (hex_digit_upper d) = (if d < 10 then 48 + d else 55 + d)"
  by (auto simp: unhex_def hex_digit_upper_def is_digit_def)

lemma unat_high_low: "unat (b :: u8) div 16 < 16" "unat b div 16 * 16 + unat b mod 16 = unat b"
  using unat_u8_less [of b] by (linarith, simp)

lemma u8_of_code: "of_nat (code (char_of (unat (b :: u8)))) = b"
  using unat_u8_less [of b] by (simp add: code_char_of)

lemma percent_decode_encode_byte: "percent_decode (percent_encode_byte b @ s) = b # percent_decode s"
proof (cases "is_unreserved b")
  case True
  then have "char_of (unat b) \<noteq> CHR ''%''"
  proof -
    have "is_unreserved (of_nat (code (char_of (unat b))))" using True u8_of_code [of b] by simp
    moreover have "\<not> is_unreserved (of_nat (code (CHR ''%'')))" by (simp add: is_unreserved_def code_def)
    ultimately show ?thesis by metis
  qed
  then show ?thesis using True u8_of_code [of b] by (simp add: percent_encode_byte_def)
next
  case False
  have "unat b mod 16 < 16" by simp
  then show ?thesis
    using False unat_high_low [of b] hex_digit_upper_code [of "unat b div 16"] hex_digit_upper_code [of "unat b mod 16"]
    by (simp add: percent_encode_byte_def hex2_upper_def del: of_nat_add of_nat_mult)
qed

lemma percent_decode_encode: "percent_decode (concat (map percent_encode_byte bs)) = bs"
  by (induction bs) (simp_all add: percent_decode_encode_byte)

lemma percent_encode_byte_chars: "list_all userinfo_char (percent_encode_byte b)"
proof (cases "is_unreserved b")
  case True
  then show ?thesis by (simp add: percent_encode_byte_def userinfo_char_def u8_of_code)
next
  case False
  have "userinfo_char (hex_digit_upper d)" if "d < 16" for d
  proof -
    have "d \<in> {0..<16}" using that by simp
    then have "is_unreserved (of_nat (if d < 10 then 48 + d else 55 + d))"
      by (simp add: atLeastLessThan_upt upt_rec numeral_nat) (elim disjE; simp add: is_unreserved_def)
    then show ?thesis using hex_digit_upper_code [OF that] by (simp only: userinfo_char_def simp_thms)
  qed
  then show ?thesis
    using False unat_high_low [of b] by (simp add: percent_encode_byte_def hex2_upper_def userinfo_char_def)
qed

section \<open>Properties\<close>

text \<open>
  A port list that parses is not empty, has no port twice and no port 0, and printing it gives a text
  that parses to the same list.
\<close>

theorem port_list_roundtrip:
  assumes "parse_port_list s = Inr ports"
  shows "ports \<noteq> [] \<and> distinct ports \<and> 0 \<notin> set ports \<and> parse_port_list (port_list_display ports) = Inr ports"
proof -
  have *: "parse_ports (split_on CHR '','' s) [] = Inr ports" "ports \<noteq> []"
    using assms by (auto simp: parse_port_list_def split: sum.splits if_splits)
  have "distinct ports \<and> 0 \<notin> set ports"
    using parse_ports_sound [OF *(1)] by simp
  then show ?thesis using parse_port_list_display *(2) by blast
qed

theorem port_list_roundtrip_witness:
  "parse_port_list ''443, 80,443'' = Inr [443, 80] \<and> parse_port_list (port_list_display [443, 80]) = Inr [443, 80]"
proof -
  have "parse_port_list ''443, 80,443'' = Inr [443, 80]"
    by (simp add: parse_port_list_def trim_def is_space_def code_def parse_u16_def parse_uint_def is_digit_def)
  then show ?thesis using port_list_roundtrip by blast
qed

text \<open>
  C36. A SOCKS5 upstream with credentials reads back as it was written: the user name is what stands before
  the first colon, and the password may contain any character, colons and at signs included.
  Credentials outside 1..255 bytes are rejected, and the printed form never shows the password.
\<close>

theorem upstream_proxy_credentials:
  assumes "CHR '':'' \<notin> set user"
  shows "parse_upstream_proxy resolve
           (''socks5://'' @ user @ '':'' @ pass @ ''@'' @ sock_display (SockV4 ip port)) =
         (if user = [] then Inl EmptyCredential
          else if 255 < length user then Inl LongCredential
          else if pass = [] then Inl EmptyCredential
          else if 255 < length pass then Inl LongCredential
          else Inr \<lparr>up_protocol = Socks5 (UsernamePassword user pass), up_addr = SockV4 ip port\<rparr>) \<and>
         upstream_display \<lparr>up_protocol = Socks5 (UsernamePassword user pass), up_addr = addr\<rparr> =
         ''socks5://'' @ user @ ''@'' @ sock_display addr"
proof -
  have no_at: "CHR ''@'' \<notin> set (rev (sock_display (SockV4 ip port)))"
    using ipv4_display_chars [of ip] dec_addr_chars [of "unat port"]
    by (auto simp: list_all_iff addr_char_def is_digit_def code_def)
  have "rev (user @ '':'' @ pass @ ''@'' @ sock_display (SockV4 ip port)) =
        rev (sock_display (SockV4 ip port)) @ CHR ''@'' # rev (user @ '':'' @ pass)"
    by simp
  then have "rsplit_once CHR ''@'' (user @ '':'' @ pass @ ''@'' @ sock_display (SockV4 ip port)) =
      Some (user @ '':'' @ pass, sock_display (SockV4 ip port))"
    using split_once_append [OF no_at, of "rev (user @ '':'' @ pass)"]
    unfolding rsplit_once_def by (simp only: option.case prod.case rev_rev_ident)
  moreover have "split_once CHR '':'' (user @ '':'' @ pass) = Some (user, pass)"
    using split_once_append [OF assms, of pass] by simp
  moreover have "parse_upstream_addr resolve (sock_display (SockV4 ip port)) = Inr (SockV4 ip port)"
    by (simp only: parse_upstream_addr_def resolve_addr_def parse_socket_addr_v4 option.case)
  ultimately have "parse_upstream_proxy resolve
      (''socks5://'' @ user @ '':'' @ pass @ ''@'' @ sock_display (SockV4 ip port)) =
    (if user = [] then Inl EmptyCredential
     else if 255 < length user then Inl LongCredential
     else if pass = [] then Inl EmptyCredential
     else if 255 < length pass then Inl LongCredential
     else Inr \<lparr>up_protocol = Socks5 (UsernamePassword user pass), up_addr = SockV4 ip port\<rparr>)"
    unfolding parse_upstream_proxy_def strip_prefix_append
    by (simp add: parse_socks5_auth_def validate_socks5_credential_def del: sock_display.simps)
  then show ?thesis by (simp add: upstream_display_def)
qed

theorem upstream_proxy_credentials_witness:
  "parse_upstream_proxy (\<lambda>_. None) (''socks5://'' @ ''me'' @ '':'' @ ''p@s:s'' @ ''@'' @ sock_display (SockV4 (Ipv4 10 0 0 1) 1080)) =
     Inr \<lparr>up_protocol = Socks5 (UsernamePassword ''me'' ''p@s:s''), up_addr = SockV4 (Ipv4 10 0 0 1) 1080\<rparr>"
  using upstream_proxy_credentials [of "''me''" "\<lambda>_. None" "''p@s:s''" "Ipv4 10 0 0 1" 1080]
  by (simp del: sock_display.simps)

text \<open>
  Credentials in the URL of the DoH proxy are percent-encoded without loss: decoding gives the bytes
  back, and the encoded text has only unreserved characters and percent signs, so that no credential can
  end the user information or change the address.
\<close>

theorem percent_encoding_lossless:
  "percent_decode (percent_encode_userinfo v) = bytes_of v \<and>
   list_all (\<lambda>c. is_unreserved (of_nat (code c)) \<or> c = CHR ''%'') (percent_encode_userinfo v)"
proof -
  have "list_all userinfo_char (concat (map percent_encode_byte bs))" for bs
    by (induction bs) (simp_all add: percent_encode_byte_chars)
  then show ?thesis
    by (simp add: percent_encode_userinfo_def percent_decode_encode userinfo_char_def [abs_def])
qed

end
