(* ===== verification/Tunnel.thy ===== *)
theory Tunnel
  imports Config Net_Stream
begin

text \<open>
  The handshakes with the upstream proxy of \<^verbatim>\<open>src/src/tunnel.rs\<close>, over the byte-stream model: HTTP
  CONNECT, SOCKS5 authentication and CONNECT, and SOCKS5 UDP ASSOCIATE with its datagram framing.  An
  operation that hangs is ended by the \<open>timeout\<close> around it (\<open>timed\<close>).  Reads into arrays of fixed
  size yield lists of that length, so their constant indices need no bounds check.
\<close>

section \<open>Errors and sequencing\<close>

datatype tunnel_error =
    Timeout string
  | Io string io_error
  | ResponseTooLarge
  | ConnectionClosed
  | InvalidUtf8
  | EmptyResponse
  | MalformedResponse
  | InvalidStatus
  | ConnectStatus nat
  | BadVersion u8
  | AuthRequired
  | NoAcceptableMethod
  | UnsupportedMethod u8
  | AuthFailed u8
  | EmptyField string
  | LongField string
  | SocksStatus u8
  | UnknownAddressType u8
  | NeedsSocks5

text \<open>The text of a \<open>SocksStatus\<close>; the other texts are not modelled.\<close>

definition socks5_error_message :: "u8 \<Rightarrow> string" where
  "socks5_error_message status =
     (if status = 0x01 then ''general SOCKS server failure''
      else if status = 0x02 then ''connection not allowed by ruleset''
      else if status = 0x03 then ''network unreachable''
      else if status = 0x04 then ''host unreachable''
      else if status = 0x05 then ''connection refused''
      else if status = 0x06 then ''TTL expired''
      else if status = 0x07 then ''command not supported''
      else if status = 0x08 then ''address type not supported''
      else ''unknown error'')"

type_synonym 'a tunnel_io = "(tunnel_error, 'a) outcome \<times> stream"

text \<open>\<open>timeout(d, op).await.context(..)?.context(what)?\<close>\<close>

definition timed :: "string \<Rightarrow> (io_error, 'a) outcome \<times> stream \<Rightarrow> 'a tunnel_io" where
  "timed what r =
     (case r of
        (Done x, s) \<Rightarrow> (Done x, s)
      | (Error e, s) \<Rightarrow> (Error (Io what e), s)
      | (Hang, s) \<Rightarrow> (Error (Timeout what), s))"

text \<open>The \<open>?\<close> operator on a \<open>Result\<close>, passing the stream on.\<close>

definition io_then :: "'a tunnel_io \<Rightarrow> ('a \<Rightarrow> stream \<Rightarrow> 'b tunnel_io) \<Rightarrow> 'b tunnel_io" where
  "io_then r f =
     (case r of (Done x, s) \<Rightarrow> f x s | (Error e, s) \<Rightarrow> (Error e, s) | (Hang, s) \<Rightarrow> (Hang, s))"

lemma io_then_simps [simp]:
  "io_then (Done x, s) f = f x s" "io_then (Error e, s) f = (Error e, s)" "io_then (Hang, s) f = (Hang, s)"
  by (simp_all add: io_then_def)

lemma timed_simps [simp]:
  "timed what (Done x, s) = (Done x, s)" "timed what (Error e, s) = (Error (Io what e), s)"
  "timed what (Hang, s) = (Error (Timeout what), s)"
  by (simp_all add: timed_def)

section \<open>Host names\<close>

text \<open>\<open>strip_suffix('.').unwrap_or(host)\<close>\<close>

definition strip_dot :: "string \<Rightarrow> string" where
  "strip_dot host = (if host \<noteq> [] \<and> last host = CHR ''.'' then butlast host else host)"

definition label_char :: "char \<Rightarrow> bool" where
  "label_char c \<longleftrightarrow>
     48 \<le> code c \<and> code c \<le> 57 \<or> 97 \<le> code c \<and> code c \<le> 122 \<or> 65 \<le> code c \<and> code c \<le> 90 \<or>
     c = CHR ''-'' \<or> c = CHR ''_''"

definition is_safe_proxy_hostname :: "string \<Rightarrow> bool" where
  "is_safe_proxy_hostname host \<longleftrightarrow>
     (let name = strip_dot host in
      name \<noteq> [] \<and> length host \<le> 253 \<and>
      list_all (\<lambda>label. label \<noteq> [] \<and> length label \<le> 63 \<and> list_all label_char label)
        (split_on CHR ''.'' name))"

definition usable_proxy_hostname :: "string option \<Rightarrow> string option" where
  "usable_proxy_hostname hostname =
     (case hostname of Some h \<Rightarrow> if is_safe_proxy_hostname h then Some h else None | None \<Rightarrow> None)"

definition proxy_request_host :: "socket_addr \<Rightarrow> string option \<Rightarrow> string" where
  "proxy_request_host dest hostname =
     (case usable_proxy_hostname hostname of
        Some h \<Rightarrow> h
      | None \<Rightarrow> (case sock_ip dest of
          IpV6 ip \<Rightarrow> ''['' @ ipv6_display ip @ '']''
        | IpV4 ip \<Rightarrow> ip_display (IpV4 ip)))"

section \<open>Requests\<close>

definition crlf :: string where
  "crlf = [char_of (13 :: nat), char_of (10 :: nat)]"

definition http_connect_request :: "socket_addr \<Rightarrow> string option \<Rightarrow> string" where
  "http_connect_request dest hostname =
     (let host = proxy_request_host dest hostname; port = dec (unat (sock_port dest)) in
      ''CONNECT '' @ host @ '':'' @ port @ '' HTTP/1.1'' @ crlf @
      ''Host: '' @ host @ '':'' @ port @ crlf @ crlf)"

text \<open>The address part that the CONNECT request and the UDP header share in form.\<close>

definition socks5_addr :: "socket_addr \<Rightarrow> string option \<Rightarrow> bytes" where
  "socks5_addr dest hostname =
     (case usable_proxy_hostname hostname of
        Some h \<Rightarrow> [0x03, of_nat (length h)] @ bytes_of h
      | None \<Rightarrow> (case sock_ip dest of
          IpV4 ip \<Rightarrow> 0x01 # octets4 ip
        | IpV6 ip \<Rightarrow> 0x04 # octets6 ip))"

definition socks5_connect_request :: "socket_addr \<Rightarrow> string option \<Rightarrow> bytes" where
  "socks5_connect_request dest hostname =
     [0x05, 0x01, 0x00] @ socks5_addr dest hostname @ be16 (sock_port dest)"

definition encode_socks5_udp :: "socket_addr \<Rightarrow> string option \<Rightarrow> bytes \<Rightarrow> bytes" where
  "encode_socks5_udp dest hostname payload =
     [0x00, 0x00, 0x00] @ socks5_addr dest hostname @ be16 (sock_port dest) @ payload"

definition socks5_udp_payload_offset :: "bytes \<Rightarrow> nat option exec" where
  "socks5_udp_payload_offset buf =
     (if length buf < 4 then Some None
      else do {
        frag \<leftarrow> idx buf 2;
        if frag \<noteq> 0 then Some None
        else do {
          atyp \<leftarrow> idx buf 3;
          let off = (if atyp = 0x01 then Some (4 + 4 + 2)
                     else if atyp = 0x04 then Some (4 + 16 + 2)
                     else if atyp = 0x03 then
                       (if 4 < length buf then Some (4 + 1 + unat (buf ! 4) + 2) else None)
                     else None) in
          Some (case off of None \<Rightarrow> None | Some off \<Rightarrow> if length buf < off then None else Some off) } })"

definition validate_socks5_auth_field :: "string \<Rightarrow> string \<Rightarrow> tunnel_error + unit" where
  "validate_socks5_auth_field label value =
     (if length value = 0 then Inl (EmptyField label)
      else if 255 < length value then Inl (LongField label) else Inr ())"

definition build_socks5_auth_request :: "string \<Rightarrow> string \<Rightarrow> tunnel_error + bytes" where
  "build_socks5_auth_request username password =
     (case validate_socks5_auth_field ''username'' username of Inl e \<Rightarrow> Inl e | Inr _ \<Rightarrow>
     (case validate_socks5_auth_field ''password'' password of Inl e \<Rightarrow> Inl e | Inr _ \<Rightarrow>
        Inr ([0x01, of_nat (length username)] @ bytes_of username @
             [of_nat (length password)] @ bytes_of password)))"

section \<open>HTTP CONNECT\<close>

definition MAX_RESPONSE_SIZE :: nat where "MAX_RESPONSE_SIZE = 8192"

definition header_terminator :: bytes where
  "header_terminator = [13, 10, 13, 10]"

text \<open>\<open>data.windows(4).position(..)\<close>, plus 4.\<close>

fun find_header_end_from :: "nat \<Rightarrow> bytes \<Rightarrow> nat option" where
  "find_header_end_from p [] = None"
| "find_header_end_from p (b # bs) =
     (if take 4 (b # bs) = header_terminator then Some (p + 4) else find_header_end_from (p + 1) bs)"

definition find_header_end :: "bytes \<Rightarrow> nat option" where
  "find_header_end data = find_header_end_from 0 data"

definition parse_connect_response :: "string \<Rightarrow> tunnel_error + unit" where
  "parse_connect_response header =
     (case first_line header of
        None \<Rightarrow> Inl EmptyResponse
      | Some status_line \<Rightarrow>
          let parts = splitn 3 CHR '' '' status_line in
          if length parts < 2 then Inl MalformedResponse
          else (case parse_u16 (parts ! 1) of
                  None \<Rightarrow> Inl InvalidStatus
                | Some status \<Rightarrow> if status \<noteq> 200 then Inl (ConnectStatus (unat status)) else Inr ()))"

definition check_response :: "bytes \<Rightarrow> nat \<Rightarrow> stream \<Rightarrow> bytes tunnel_io" where
  "check_response buf pos s =
     (case from_utf8 (take pos buf) of
        None \<Rightarrow> (Error InvalidUtf8, s)
      | Some header \<Rightarrow>
          (case parse_connect_response header of
             Inl e \<Rightarrow> (Error e, s)
           | Inr _ \<Rightarrow> (Done (drop pos buf), s)))"

text \<open>The read loop; \<open>buf\<close> is the filled part of the buffer.\<close>

function http_response_loop :: "bytes \<Rightarrow> stream \<Rightarrow> bytes tunnel_io" where
  "http_response_loop buf s =
     (if MAX_RESPONSE_SIZE \<le> length buf then (Error ResponseTooLarge, s)
      else (case io_read (MAX_RESPONSE_SIZE - length buf) s of
              (Hang, s) \<Rightarrow> (Hang, s)
            | (Error e, s) \<Rightarrow> (Error (Io ''Failed to read CONNECT response'' e), s)
            | (Done bs, s) \<Rightarrow>
                if bs = [] then (Error ConnectionClosed, s)
                else (case find_header_end (buf @ bs) of
                        Some pos \<Rightarrow> check_response (buf @ bs) pos s
                      | None \<Rightarrow> http_response_loop (buf @ bs) s)))"
  by pat_completeness auto
termination
  by (relation "measure (\<lambda>(buf, s). MAX_RESPONSE_SIZE - length buf)") (auto simp: not_le intro!: diff_less_mono2)

declare http_response_loop.simps [simp del]

definition handshake_http_connect :: "socket_addr \<Rightarrow> string option \<Rightarrow> stream \<Rightarrow> bytes tunnel_io" where
  "handshake_http_connect dest hostname s =
     io_then (timed ''Failed to send CONNECT request'' (io_write_all (bytes_of (http_connect_request dest hostname)) s))
       (\<lambda>_ s. case http_response_loop [] s of
          (Hang, s) \<Rightarrow> (Error (Timeout ''CONNECT response''), s)
        | r \<Rightarrow> r)"

section \<open>SOCKS5\<close>

definition socks5_username_auth :: "string \<Rightarrow> string \<Rightarrow> stream \<Rightarrow> unit tunnel_io" where
  "socks5_username_auth username password s =
     (case build_socks5_auth_request username password of
        Inl e \<Rightarrow> (Error e, s)
      | Inr auth_req \<Rightarrow>
          io_then (timed ''SOCKS5 auth'' (io_write_all auth_req s)) (\<lambda>_ s.
          io_then (timed ''SOCKS5 auth response'' (io_read_exact 2 s)) (\<lambda>auth_resp s.
            if auth_resp ! 1 \<noteq> 0 then (Error (AuthFailed (auth_resp ! 1)), s) else (Done (), s))))"

definition socks5_greeting :: "proxy_auth \<Rightarrow> bytes" where
  "socks5_greeting auth =
     (case auth of NoAuth \<Rightarrow> [0x05, 0x01, 0x00] | UsernamePassword _ _ \<Rightarrow> [0x05, 0x02, 0x00, 0x02])"

definition socks5_negotiate_auth :: "proxy_auth \<Rightarrow> stream \<Rightarrow> unit tunnel_io" where
  "socks5_negotiate_auth auth s =
     io_then (timed ''SOCKS5 greeting'' (io_write_all (socks5_greeting auth) s)) (\<lambda>_ s.
     io_then (timed ''SOCKS5 method selection'' (io_read_exact 2 s)) (\<lambda>resp s.
       if resp ! 0 \<noteq> 0x05 then (Error (BadVersion (resp ! 0)), s)
       else if resp ! 1 = 0x00 then (Done (), s)
       else if resp ! 1 = 0x02 then
         (case auth of
            UsernamePassword username password \<Rightarrow> socks5_username_auth username password s
          | NoAuth \<Rightarrow> (Error AuthRequired, s))
       else if resp ! 1 = 0xFF then (Error NoAcceptableMethod, s)
       else (Error (UnsupportedMethod (resp ! 1)), s)))"

text \<open>\<open>Ipv6Addr::from\<close> of the first 16 bytes.\<close>

definition ipv6_of_16 :: "bytes \<Rightarrow> ipv6" where
  "ipv6_of_16 b =
     Ipv6 (u16_be (b ! 0) (b ! 1)) (u16_be (b ! 2) (b ! 3)) (u16_be (b ! 4) (b ! 5)) (u16_be (b ! 6) (b ! 7))
          (u16_be (b ! 8) (b ! 9)) (u16_be (b ! 10) (b ! 11)) (u16_be (b ! 12) (b ! 13)) (u16_be (b ! 14) (b ! 15))"

definition read_socks5_bound_addr :: "u8 \<Rightarrow> stream \<Rightarrow> socket_addr tunnel_io" where
  "read_socks5_bound_addr atyp s =
     (if atyp = 0x01 then
        io_then (timed ''SOCKS5 bound address'' (io_read_exact 6 s)) (\<lambda>buf s.
          (Done (SockV4 (Ipv4 (buf ! 0) (buf ! 1) (buf ! 2) (buf ! 3)) (u16_be (buf ! 4) (buf ! 5))), s))
      else if atyp = 0x03 then
        io_then (timed ''SOCKS5 domain length'' (io_read_exact 1 s)) (\<lambda>len_buf s.
        let n = unat (len_buf ! 0) + 2 in
        io_then (timed ''SOCKS5 bound domain'' (io_read_exact n s)) (\<lambda>buf s.
          (Done (SockV4 ipv4_unspecified (u16_be (buf ! (n - 2)) (buf ! (n - 1)))), s)))
      else if atyp = 0x04 then
        io_then (timed ''SOCKS5 bound IPv6 address'' (io_read_exact 18 s)) (\<lambda>buf s.
          (Done (SockV6 (ipv6_of_16 buf) (u16_be (buf ! 16) (buf ! 17)) 0 0), s))
      else (Error (UnknownAddressType atyp), s))"

definition socks5_reply :: "stream \<Rightarrow> socket_addr tunnel_io" where
  "socks5_reply s =
     io_then (timed ''SOCKS5 response'' (io_read_exact 4 s)) (\<lambda>resp s.
       if resp ! 0 \<noteq> 0x05 then (Error (BadVersion (resp ! 0)), s)
       else if resp ! 1 \<noteq> 0x00 then (Error (SocksStatus (resp ! 1)), s)
       else read_socks5_bound_addr (resp ! 3) s)"

definition socks5_connect :: "socket_addr \<Rightarrow> string option \<Rightarrow> stream \<Rightarrow> unit tunnel_io" where
  "socks5_connect dest hostname s =
     io_then (timed ''SOCKS5 CONNECT request'' (io_write_all (socks5_connect_request dest hostname) s)) (\<lambda>_ s.
     io_then (socks5_reply s) (\<lambda>_ s. (Done (), s)))"

definition socks5_associate_request :: bytes where
  "socks5_associate_request = [0x05, 0x03, 0x00, 0x01, 0, 0, 0, 0, 0, 0]"

text \<open>
  The two entry points, on the stream that \<open>connect_proxy_stream\<close> returned (\<open>None\<close> when connecting
  failed or timed out).
\<close>

definition connect_via_proxy ::
    "upstream_proxy \<Rightarrow> socket_addr \<Rightarrow> string option \<Rightarrow> stream \<Rightarrow> bytes tunnel_io" where
  "connect_via_proxy proxy dest hostname s =
     (case up_protocol proxy of
        HttpConnect \<Rightarrow> handshake_http_connect dest hostname s
      | Socks5 auth \<Rightarrow>
          io_then (socks5_negotiate_auth auth s) (\<lambda>_ s.
          io_then (socks5_connect dest hostname s) (\<lambda>_ s. (Done [], s))))"

definition udp_associate :: "upstream_proxy \<Rightarrow> stream \<Rightarrow> socket_addr tunnel_io" where
  "udp_associate proxy s =
     (case up_protocol proxy of
        HttpConnect \<Rightarrow> (Error NeedsSocks5, s)
      | Socks5 auth \<Rightarrow>
          io_then (socks5_negotiate_auth auth s) (\<lambda>_ s.
          io_then (timed ''SOCKS5 UDP ASSOCIATE request'' (io_write_all socks5_associate_request s)) (\<lambda>_ s.
          io_then (socks5_reply s) (\<lambda>bnd s.
            (Done (if ip_is_unspecified (sock_ip bnd) then sock_new (sock_ip (up_addr proxy)) (sock_port bnd)
                   else bnd), s)))))"

end
