(* ===== verification/Tunnel_Props.thy ===== *)
theory Tunnel_Props
  imports Tunnel
begin

text \<open>
  What the handshakes guarantee: requests that a host name cannot break out of, no payload byte lost
  or invented after an HTTP CONNECT response, SOCKS5 exchanges that consume exactly the server's
  replies, and the framing of relayed datagrams.
\<close>

section \<open>Host names\<close>

definition host_char :: "char \<Rightarrow> bool" where
  "host_char c \<longleftrightarrow> label_char c \<or> c = CHR ''.'' \<or> c = CHR '':'' \<or> c = CHR ''['' \<or> c = CHR '']''"

lemma split_on_chars: "list_all (list_all P) (split_on sep s) \<Longrightarrow> P sep \<Longrightarrow> list_all P s"
  by (induction s) (auto split: list.splits if_splits)

lemma strip_dot_cases: "host = strip_dot host \<or> host = strip_dot host @ ''.''"
  by (auto simp: strip_dot_def) (metis append_butlast_last_id)

lemma safe_hostname_chars:
  assumes "is_safe_proxy_hostname host"
  shows "list_all host_char host" "host \<noteq> []" "length host \<le> 253"
proof -
  have "list_all (list_all host_char) (split_on CHR ''.'' (strip_dot host))"
    using assms by (auto simp: is_safe_proxy_hostname_def Let_def list_all_iff host_char_def)
  then have "list_all host_char (strip_dot host)"
    by (rule split_on_chars) (simp add: host_char_def)
  then show "list_all host_char host"
    using strip_dot_cases [of host] by (metis list_all_append list.pred_inject host_char_def)
  show "host \<noteq> []" "length host \<le> 253"
    using assms by (auto simp: is_safe_proxy_hostname_def Let_def strip_dot_def)
qed

lemma addr_char_host: "addr_char c \<Longrightarrow> host_char c"
  by (auto simp: addr_char_def host_char_def label_char_def is_digit_def)

lemma ip_display_host: "list_all host_char (ip_display a)"
  using ip_display_chars by (rule list.pred_mono_strong) (rule addr_char_host)

lemma proxy_host_chars: "list_all host_char (proxy_request_host dest hostname)"
proof (cases "usable_proxy_hostname hostname")
  case (Some h)
  then have "is_safe_proxy_hostname h"
    by (auto simp: usable_proxy_hostname_def split: option.splits if_splits)
  then show ?thesis using Some safe_hostname_chars(1) by (simp add: proxy_request_host_def)
next
  case None
  then show ?thesis
    using ip_display_host [of "sock_ip dest"]
    by (cases "sock_ip dest") (auto simp: proxy_request_host_def host_char_def)
qed

lemma host_char_code: "host_char c \<Longrightarrow> code c \<noteq> 13 \<and> code c \<noteq> 10 \<and> code c \<noteq> 32"
  by (auto simp: host_char_def label_char_def code_def)

lemma host_char_no_break:
  assumes "host_char c"
  shows "c \<noteq> char_of (13 :: nat) \<and> c \<noteq> char_of (10 :: nat) \<and> c \<noteq> CHR '' ''"
proof -
  have "code (char_of (13 :: nat)) = 13" "code (char_of (10 :: nat)) = 10" "code (CHR '' '') = 32"
    by (simp_all add: code_def)
  then show ?thesis using host_char_code [OF assms] by metis
qed

lemma count_no_break:
  assumes "list_all host_char s" "b \<in> {char_of (13 :: nat), char_of (10 :: nat), CHR '' ''}"
  shows "count_list s b = 0"
  using assms host_char_no_break by (fastforce simp: count_list_0_iff list_all_iff)

lemma dec_host: "list_all host_char (dec n)"
  using dec_addr_chars by (rule list.pred_mono_strong) (rule addr_char_host)

section \<open>The HTTP CONNECT response\<close>

lemma find_header_end_bounds:
  "find_header_end_from p xs = Some q \<Longrightarrow> p + 4 \<le> q \<and> q \<le> p + length xs"
proof (induction p xs rule: find_header_end_from.induct)
  case (2 p b bs)
  have "4 \<le> length (b # bs)" if "take 4 (b # bs) = header_terminator"
  proof -
    have "length (take 4 (b # bs)) = 4" unfolding that by (simp add: header_terminator_def)
    then show ?thesis by (metis length_take min.cobounded1)
  qed
  with 2 show ?case by (auto split: if_splits)
qed simp

lemma find_header_end_append:
  "find_header_end_from p xs = Some q \<Longrightarrow> find_header_end_from p (xs @ ys) = Some q"
proof (induction p xs rule: find_header_end_from.induct)
  case (2 p b bs)
  show ?case
  proof (cases "take 4 (b # bs) = header_terminator")
    case True
    then have "length (take 4 (b # bs)) = 4" unfolding True by (simp add: header_terminator_def)
    then have "4 \<le> length (b # bs)" by (metis length_take min.cobounded1)
    then have "take 4 ((b # bs) @ ys) = take 4 (b # bs)" by simp
    with True 2 show ?thesis by simp
  next
    case False
    then have rest: "find_header_end_from (p + 1) (bs @ ys) = Some q" using 2 by simp
    have "take 4 ((b # bs) @ ys) \<noteq> header_terminator"
    proof
      assume "take 4 ((b # bs) @ ys) = header_terminator"
      moreover have "4 \<le> length (b # bs)"
        using find_header_end_bounds [of "p + 1" bs q] 2 False by auto
      ultimately show False using False by simp
    qed
    with rest show ?thesis by simp
  qed
qed simp

lemma find_header_end_take:
  "find_header_end_from p xs = Some q \<Longrightarrow> q \<le> p + n \<Longrightarrow> find_header_end_from p (take n xs) = Some q"
proof (induction p xs arbitrary: n rule: find_header_end_from.induct)
  case (2 p b bs)
  have "p + 4 \<le> q" using find_header_end_bounds [OF "2.prems"(1)] by simp
  then obtain m where n: "n = Suc m" "4 \<le> n" using "2.prems"(2) by (cases n) auto
  then have "take 4 (b # take m bs) = take 4 (b # bs)" by (simp add: take_Cons' min_def)
  with 2 n show ?case by (auto split: if_splits)
qed simp

lemma find_header_end_first:
  assumes "find_header_end (xs @ ys) = Some q"
  shows "find_header_end xs = (if q \<le> length xs then Some q else None)"
proof (cases "q \<le> length xs")
  case True
  then show ?thesis
    using find_header_end_take [of 0 "xs @ ys" q "length xs"] assms by (simp add: find_header_end_def)
next
  case False
  have "find_header_end xs = None"
  proof (rule ccontr)
    assume "find_header_end xs \<noteq> None"
    then obtain r where r: "find_header_end xs = Some r" by auto
    then have "r = q" "r \<le> length xs"
      using find_header_end_append [of 0 xs r ys] find_header_end_bounds [of 0 xs r] assms
      by (simp_all add: find_header_end_def)
    with False show False by simp
  qed
  with False show ?thesis by simp
qed

text \<open>
  Whatever the segmentation, the loop looks at the response up to its first terminator, and what it
  has read is the beginning of what arrived.
\<close>

lemma check_response_stream: "check_response buf pos s = (r, s') \<Longrightarrow> s' = s"
  by (auto simp: check_response_def split: option.splits sum.splits)

lemma http_loop_finds:
  "find_header_end (buf @ in_bytes s) = Some q \<Longrightarrow> q \<le> MAX_RESPONSE_SIZE \<Longrightarrow> length buf < q \<Longrightarrow>
     \<exists>d s'. http_response_loop buf s = check_response d q s' \<and> d @ in_bytes s' = buf @ in_bytes s \<and>
       q \<le> length d \<and> s_out s' = s_out s"
proof (induction buf s rule: http_response_loop.induct)
  case (1 buf s)
  have q: "q \<le> length (buf @ in_bytes s)"
    using find_header_end_bounds [of 0 "buf @ in_bytes s" q] "1.prems"(1) by (simp add: find_header_end_def)
  then have ne: "in_bytes s \<noteq> []" using "1.prems"(3) by auto
  obtain r s1 where rd: "io_read (MAX_RESPONSE_SIZE - length buf) s = (r, s1)" by fastforce
  with ne io_read_some obtain bs where r: "r = Done bs" by blast
  have nl: "\<not> MAX_RESPONSE_SIZE \<le> length buf" using "1.prems" by simp
  have b: "in_bytes s = bs @ in_bytes s1" "bs \<noteq> []" "s_out s1 = s_out s"
    using io_read_in_bytes [OF rd [unfolded r]] io_read_progress [OF rd [unfolded r]] io_read_same [OF rd] ne nl
    by auto
  have find: "find_header_end ((buf @ bs) @ in_bytes s1) = Some q" using "1.prems"(1) b by simp
  show ?case
  proof (cases "q \<le> length (buf @ bs)")
    case True
    then have "http_response_loop buf s = check_response (buf @ bs) q s1"
      using find_header_end_first [OF find] rd r b nl by (subst http_response_loop.simps) simp
    then show ?thesis using True b by (intro exI [of _ "buf @ bs"] exI [of _ s1]) simp
  next
    case False
    then have "find_header_end (buf @ bs) = None" using find_header_end_first [OF find] by simp
    then have "http_response_loop buf s = http_response_loop (buf @ bs) s1"
      using rd r b nl by (subst http_response_loop.simps) simp
    then show ?thesis
      using "1.IH" [OF nl rd [symmetric, unfolded r] refl] False find b \<open>find_header_end (buf @ bs) = None\<close> "1.prems"(2)
      by auto
  qed
qed

lemma http_loop_sound:
  "http_response_loop buf s = (Done l, s') \<Longrightarrow> find_header_end buf = None \<Longrightarrow>
     \<exists>q. find_header_end (buf @ in_bytes s) = Some q \<and> q \<le> MAX_RESPONSE_SIZE \<and> length buf < q"
proof (induction buf s rule: http_response_loop.induct)
  case (1 buf s)
  obtain r s1 where rd: "io_read (MAX_RESPONSE_SIZE - length buf) s = (r, s1)" by fastforce
  have nl: "\<not> MAX_RESPONSE_SIZE \<le> length buf"
    using "1.prems" by (subst (asm) http_response_loop.simps) (auto split: if_splits)
  then obtain bs where r: "r = Done bs" "bs \<noteq> []"
    using "1.prems" rd by (subst (asm) http_response_loop.simps) (auto split: if_splits outcome.splits)
  have b: "in_bytes s = bs @ in_bytes s1" "length bs \<le> MAX_RESPONSE_SIZE - length buf"
    using io_read_in_bytes io_read_length rd [unfolded r(1)] by auto
  show ?case
  proof (cases "find_header_end (buf @ bs)")
    case None
    then have "http_response_loop (buf @ bs) s1 = (Done l, s')"
      using "1.prems"(1) rd r nl by (subst (asm) http_response_loop.simps) simp
    from "1.IH" [OF nl rd [symmetric, unfolded r] refl r(2) None this None]
    show ?thesis using b by auto
  next
    case (Some q)
    have "find_header_end (buf @ in_bytes s) = Some q"
      using find_header_end_append [of 0 "buf @ bs" q "in_bytes s1"] Some b by (simp add: find_header_end_def)
    moreover have "q \<le> length (buf @ bs)"
      using find_header_end_bounds [of 0 "buf @ bs" q] Some by (simp add: find_header_end_def)
    moreover have "length buf < q"
      using find_header_end_first [OF calculation(1)] "1.prems"(2) by (auto split: if_splits)
    ultimately show ?thesis using b nl by auto
  qed
qed

lemma handshake_http_connect_eq:
  "s_wfail s = None \<Longrightarrow> handshake_http_connect dest hostname s =
     (case http_response_loop [] (s\<lparr>s_out := s_out s @ bytes_of (http_connect_request dest hostname)\<rparr>) of
        (Hang, s) \<Rightarrow> (Error (Timeout ''CONNECT response''), s)
      | r \<Rightarrow> r)"
  by (simp add: handshake_http_connect_def)

lemma find_header_end_Nil [simp]: "find_header_end [] = None"
  by (simp add: find_header_end_def)

lemma check_response_prefix:
  assumes "d @ rest = xs" "q \<le> length d"
  shows "check_response d q s = (case from_utf8 (take q xs) of
     None \<Rightarrow> (Error InvalidUtf8, s)
   | Some header \<Rightarrow> (case parse_connect_response header of Inl e \<Rightarrow> (Error e, s) | Inr _ \<Rightarrow> (Done (drop q d), s)))"
    "drop q d @ rest = drop q xs"
proof -
  have "take q xs = take q d" using assms by auto
  then show "check_response d q s = (case from_utf8 (take q xs) of
     None \<Rightarrow> (Error InvalidUtf8, s)
   | Some header \<Rightarrow> (case parse_connect_response header of Inl e \<Rightarrow> (Error e, s) | Inr _ \<Rightarrow> (Done (drop q d), s)))"
    by (simp add: check_response_def)
  show "drop q d @ rest = drop q xs" using assms by auto
qed

text \<open>The response that opens the tunnel: complete within the limit, UTF-8, status 200.\<close>

definition accepts_connect :: "bytes \<Rightarrow> nat \<Rightarrow> bool" where
  "accepts_connect bs q \<longleftrightarrow>
     find_header_end bs = Some q \<and> q \<le> MAX_RESPONSE_SIZE \<and>
     (\<exists>h. from_utf8 (take q bs) = Some h \<and> parse_connect_response h = Inr ())"

lemma handshake_http_done:
  assumes "s_wfail s = None" "accepts_connect (in_bytes s) q"
  shows "\<exists>l s'. handshake_http_connect dest hostname s = (Done l, s') \<and> l @ in_bytes s' = drop q (in_bytes s) \<and>
    s_out s' = s_out s @ bytes_of (http_connect_request dest hostname)"
proof -
  let ?s = "s\<lparr>s_out := s_out s @ bytes_of (http_connect_request dest hostname)\<rparr>"
  have acc: "find_header_end ([] @ in_bytes ?s) = Some q" "q \<le> MAX_RESPONSE_SIZE"
    using assms(2) by (simp_all add: accepts_connect_def)
  moreover have "length ([] :: bytes) < q"
    using find_header_end_bounds [of 0 "in_bytes s" q] acc(1) by (simp add: find_header_end_def)
  ultimately obtain d s' where d: "http_response_loop [] ?s = check_response d q s'"
      "d @ in_bytes s' = [] @ in_bytes ?s" "q \<le> length d" "s_out s' = s_out ?s"
    using http_loop_finds by blast
  then have *: "d @ in_bytes s' = in_bytes s" by simp
  obtain h where h: "from_utf8 (take q (in_bytes s)) = Some h" "parse_connect_response h = Inr ()"
    using assms(2) by (auto simp: accepts_connect_def)
  then have "http_response_loop [] ?s = (Done (drop q d), s')"
    using d(1) check_response_prefix(1) [OF * d(3)] by simp
  then show ?thesis
    using handshake_http_connect_eq [OF assms(1)] check_response_prefix(2) [OF * d(3)] d(4) by simp
qed

lemma handshake_http_sound:
  assumes "s_wfail s = None" "handshake_http_connect dest hostname s = (Done l, s')"
  shows "\<exists>q. accepts_connect (in_bytes s) q"
proof -
  let ?s = "s\<lparr>s_out := s_out s @ bytes_of (http_connect_request dest hostname)\<rparr>"
  have loop: "http_response_loop [] ?s = (Done l, s')"
    using assms handshake_http_connect_eq [OF assms(1)] by (auto split: prod.splits outcome.splits)
  then obtain q where q: "find_header_end ([] @ in_bytes ?s) = Some q" "q \<le> MAX_RESPONSE_SIZE" "length ([] :: bytes) < q"
    using http_loop_sound [OF loop] by auto
  then obtain d s1 where d: "http_response_loop [] ?s = check_response d q s1"
      "d @ in_bytes s1 = [] @ in_bytes ?s" "q \<le> length d"
    using http_loop_finds by blast
  then have "check_response d q s1 = (Done l, s')" using loop by simp
  then have "\<exists>h. from_utf8 (take q (in_bytes s)) = Some h \<and> parse_connect_response h = Inr ()"
    using check_response_prefix(1) [OF d(2,3)] by (auto split: option.splits sum.splits)
  then show ?thesis using q by (auto simp: accepts_connect_def)
qed

lemma accepts_connect_unique: "accepts_connect bs q \<Longrightarrow> accepts_connect bs r \<Longrightarrow> q = r"
  by (simp add: accepts_connect_def)

lemma handshake_http_returns: "fst (handshake_http_connect dest hostname s) \<noteq> Hang"
  by (cases "s_wfail s")
    (auto simp: handshake_http_connect_def io_write_all_def io_then_def timed_def
      split: prod.split outcome.split nat.split)

lemma parse_ok_response: "parse_connect_response (''HTTP/1.1 200 OK'' @ crlf @ crlf) = Inr ()"
proof -
  have "first_line (''HTTP/1.1 200 OK'' @ crlf @ crlf) = Some ''HTTP/1.1 200 OK''"
    by (simp add: first_line_def crlf_def Let_def char_of_def bit_Suc_0_iff bit_numeral_rec)
  moreover have "parse_u16 ''200'' = Some 200"
    by (simp add: parse_u16_def parse_uint_def is_digit_def code_def)
  moreover have "splitn 3 CHR '' '' ''HTTP/1.1 200 OK'' = [''HTTP/1.1'', ''200'', ''OK'']"
    by (simp add: numeral_eq_Suc)
  ultimately show ?thesis by (simp add: parse_connect_response_def del: append_Cons append_Nil)
qed

section \<open>The SOCKS5 exchange\<close>

lemma socks_read_elim:
  assumes "io_then (timed w (io_read_exact n s)) f = (Done x, s')"
  obtains bs s1 where "in_bytes s = bs @ in_bytes s1" "length bs = n" "s_out s1 = s_out s"
    "s_wfail s1 = s_wfail s" "f bs s1 = (Done x, s')"
proof -
  obtain r s1 where rd: "io_read_exact n s = (r, s1)" by fastforce
  with assms obtain bs where r: "r = Done bs" by (cases r) (auto simp: timed_def)
  then have "s_out s1 = s_out s" "s_wfail s1 = s_wfail s"
    using rd by (auto simp: io_read_exact_Done)
  moreover have "f bs s1 = (Done x, s')" using assms rd r by simp
  ultimately show thesis using that io_read_exact_in_bytes [OF rd [unfolded r]] by blast
qed

lemma socks_read_intro:
  assumes "in_bytes s = bs @ rest" "length bs = n"
  shows "\<exists>s1. io_then (timed w (io_read_exact n s)) f = f bs s1 \<and> in_bytes s1 = rest \<and> s_out s1 = s_out s \<and>
    s_wfail s1 = s_wfail s"
  using io_read_exact_prefix [OF assms] by (metis io_then_simps(1) timed_simps(1))

lemma two_bytes: "length xs = 2 \<Longrightarrow> xs = [xs ! 0, xs ! 1]"
  by (cases xs rule: list.exhaust; cases "tl xs") auto

lemma four_bytes: "length xs = 4 \<Longrightarrow> xs = [xs ! 0, xs ! 1, xs ! 2, xs ! 3]"
  by (rule nth_equalityI) (auto simp: less_Suc_eq numeral_eq_Suc)

text \<open>The byte strings that a conforming server sends: the method selection with the answer to the
  credentials, and the reply with its bound address.\<close>

definition auth_request :: "proxy_auth \<Rightarrow> bytes option" where
  "auth_request auth =
     (case auth of NoAuth \<Rightarrow> None
      | UsernamePassword u p \<Rightarrow> (case build_socks5_auth_request u p of Inr req \<Rightarrow> Some req | Inl _ \<Rightarrow> None))"

definition auth_dialog :: "proxy_auth \<Rightarrow> bytes \<Rightarrow> bytes \<Rightarrow> bool" where
  "auth_dialog auth sent received \<longleftrightarrow>
     received = [5, 0] \<and> sent = [] \<or> (\<exists>v. received = [5, 2, v, 0] \<and> auth_request auth = Some sent)"

definition bound_field :: "bytes \<Rightarrow> bool" where
  "bound_field bs \<longleftrightarrow>
     (case bs of [] \<Rightarrow> False
      | t # xs \<Rightarrow>
          if t = 1 then length xs = 6
          else if t = 3 then (case xs of [] \<Rightarrow> False | n # ys \<Rightarrow> length ys = unat n + 2)
          else t = 4 \<and> length xs = 18)"

definition bound_of :: "bytes \<Rightarrow> socket_addr" where
  "bound_of bs =
     (if hd bs = 1 then SockV4 (Ipv4 (bs ! 1) (bs ! 2) (bs ! 3) (bs ! 4)) (u16_be (bs ! 5) (bs ! 6))
      else if hd bs = 3 then SockV4 ipv4_unspecified (u16_be (bs ! (length bs - 2)) (bs ! (length bs - 1)))
      else SockV6 (ipv6_of_16 (tl bs)) (u16_be (bs ! 17) (bs ! 18)) 0 0)"

text \<open>Reading a bound address: exactly its bytes, whatever the kind.\<close>

lemma bound_field_Cons:
  "bound_field (t # xs) \<longleftrightarrow>
     t = 1 \<and> length xs = 6 \<or> t = 3 \<and> (\<exists>n ys. xs = n # ys \<and> length ys = unat n + 2) \<or> t = 4 \<and> length xs = 18"
  by (cases xs) (auto simp: bound_field_def)

lemma read_bound_v4:
  "in_bytes s = xs @ rest \<Longrightarrow> length xs = 6 \<Longrightarrow>
   \<exists>s1. read_socks5_bound_addr 1 s = (Done (bound_of (1 # xs)), s1) \<and> in_bytes s1 = rest \<and>
     s_out s1 = s_out s \<and> s_wfail s1 = s_wfail s"
  using socks_read_intro [of s xs rest 6 "''SOCKS5 bound address''"
      "\<lambda>buf s. (Done (SockV4 (Ipv4 (buf ! 0) (buf ! 1) (buf ! 2) (buf ! 3)) (u16_be (buf ! 4) (buf ! 5))), s)"]
  by (auto simp: read_socks5_bound_addr_def bound_of_def)

lemma read_bound_v6:
  "in_bytes s = xs @ rest \<Longrightarrow> length xs = 18 \<Longrightarrow>
   \<exists>s1. read_socks5_bound_addr 4 s = (Done (bound_of (4 # xs)), s1) \<and> in_bytes s1 = rest \<and>
     s_out s1 = s_out s \<and> s_wfail s1 = s_wfail s"
  using socks_read_intro [of s xs rest 18 "''SOCKS5 bound IPv6 address''"
      "\<lambda>buf s. (Done (SockV6 (ipv6_of_16 buf) (u16_be (buf ! 16) (buf ! 17)) 0 0), s)"]
  by (auto simp: read_socks5_bound_addr_def bound_of_def)

lemma read_bound_domain:
  assumes "in_bytes s = (n # ys) @ rest" "length ys = unat n + 2"
  shows "\<exists>s1. read_socks5_bound_addr 3 s = (Done (bound_of (3 # n # ys)), s1) \<and> in_bytes s1 = rest \<and>
     s_out s1 = s_out s \<and> s_wfail s1 = s_wfail s"
proof -
  let ?k = "\<lambda>len_buf s. let n = unat (len_buf ! 0 :: u8) + 2 in
        io_then (timed ''SOCKS5 bound domain'' (io_read_exact n s)) (\<lambda>buf s.
          (Done (SockV4 ipv4_unspecified (u16_be (buf ! (n - 2)) (buf ! (n - 1)))), s))"
  have "in_bytes s = [n] @ ys @ rest" using assms by simp
  from socks_read_intro [OF this, of 1 "''SOCKS5 domain length''" ?k]
  obtain s1 where s1: "read_socks5_bound_addr 3 s = ?k [n] s1" "in_bytes s1 = ys @ rest"
      "s_out s1 = s_out s" "s_wfail s1 = s_wfail s"
    by (auto simp: read_socks5_bound_addr_def)
  from socks_read_intro [OF s1(2) assms(2), of "''SOCKS5 bound domain''"
      "\<lambda>buf s. (Done (SockV4 ipv4_unspecified (u16_be (buf ! (unat n + 2 - 2)) (buf ! (unat n + 2 - 1)))), s)"]
  obtain s2 where s2: "?k [n] s1 = (Done (SockV4 ipv4_unspecified (u16_be (ys ! (unat n)) (ys ! (unat n + 1)))), s2)"
      "in_bytes s2 = rest" "s_out s2 = s_out s1" "s_wfail s2 = s_wfail s1"
    by (auto simp: Let_def)
  have "bound_of (3 # n # ys) = SockV4 ipv4_unspecified (u16_be (ys ! (unat n)) (ys ! (unat n + 1)))"
    using assms(2) by (simp add: bound_of_def)
  then show ?thesis using s1 s2 by auto
qed

lemma read_bound_intro:
  assumes "in_bytes s = xs @ rest" "bound_field (t # xs)"
  shows "\<exists>s1. read_socks5_bound_addr t s = (Done (bound_of (t # xs)), s1) \<and> in_bytes s1 = rest \<and>
    s_out s1 = s_out s \<and> s_wfail s1 = s_wfail s"
  using assms read_bound_v4 read_bound_v6 read_bound_domain unfolding bound_field_Cons by blast

lemma read_bound_elim:
  assumes "read_socks5_bound_addr t s = (Done a, s')"
  shows "\<exists>xs. in_bytes s = xs @ in_bytes s' \<and> bound_field (t # xs)"
proof -
  consider (v4) "t = 1" | (dom) "t = 3" | (v6) "t = 4"
    using assms by (auto simp: read_socks5_bound_addr_def split: if_splits)
  then show ?thesis
  proof cases
    case v4
    then show ?thesis using assms
      by (auto simp: read_socks5_bound_addr_def bound_field_Cons elim!: socks_read_elim)
  next
    case v6
    then show ?thesis using assms
      by (auto simp: read_socks5_bound_addr_def bound_field_Cons elim!: socks_read_elim)
  next
    case dom
    show ?thesis using assms unfolding dom read_socks5_bound_addr_def
      by (simp add: Let_def) (elim socks_read_elim, auto simp: bound_field_Cons length_Suc_conv)
  qed
qed

text \<open>The reply and the negotiation.\<close>

definition good_reply :: "bytes \<Rightarrow> bool" where
  "good_reply bs \<longleftrightarrow> (\<exists>rsv b. bs = [5, 0, rsv] @ b \<and> bound_field b)"

lemma socks5_reply_intro:
  assumes "in_bytes s = ([5, 0, rsv] @ b) @ rest" "bound_field b"
  shows "\<exists>s1. socks5_reply s = (Done (bound_of b), s1) \<and> in_bytes s1 = rest \<and> s_out s1 = s_out s \<and>
    s_wfail s1 = s_wfail s"
proof -
  obtain t xs where b: "b = t # xs" using assms(2) by (cases b) (auto simp: bound_field_def)
  let ?f = "\<lambda>resp s. if resp ! 0 \<noteq> (0x05 :: u8) then (Error (BadVersion (resp ! 0)), s)
       else if resp ! 1 \<noteq> 0x00 then (Error (SocksStatus (resp ! 1)), s)
       else read_socks5_bound_addr (resp ! 3) s"
  have "in_bytes s = [5, 0, rsv, t] @ xs @ rest" using assms b by simp
  from socks_read_intro [OF this, of 4 "''SOCKS5 response''" ?f]
  obtain s1 where s1: "socks5_reply s = read_socks5_bound_addr t s1" "in_bytes s1 = xs @ rest"
      "s_out s1 = s_out s" "s_wfail s1 = s_wfail s"
    by (auto simp: socks5_reply_def)
  show ?thesis using read_bound_intro [OF s1(2)] assms(2) s1 unfolding b by metis
qed

lemma socks5_reply_elim:
  assumes "socks5_reply s = (Done a, s')"
  shows "\<exists>bs. in_bytes s = bs @ in_bytes s' \<and> good_reply bs"
  using assms unfolding socks5_reply_def
proof (rule socks_read_elim)
  fix h s1
  assume h: "in_bytes s = h @ in_bytes s1" "length h = 4"
    and k: "(if h ! 0 \<noteq> 0x05 then (Error (BadVersion (h ! 0)), s1)
       else if h ! 1 \<noteq> 0x00 then (Error (SocksStatus (h ! 1)), s1)
       else read_socks5_bound_addr (h ! 3) s1) = (Done a, s')"
  then have hs: "h = [5, 0] @ [h ! 2] @ [h ! 3]" "read_socks5_bound_addr (h ! 3) s1 = (Done a, s')"
    using four_bytes [OF h(2)] by (auto split: if_splits)
  from read_bound_elim [OF this(2)] obtain xs where xs: "in_bytes s1 = xs @ in_bytes s'" "bound_field (h ! 3 # xs)"
    by blast
  then have "in_bytes s = ([5, 0, h ! 2] @ h ! 3 # xs) @ in_bytes s'" using h(1) hs(1) by simp
  then show ?thesis using xs(2) unfolding good_reply_def by blast
qed

lemma read_bound_same:
  assumes "read_socks5_bound_addr t s = (r, s')"
  shows "s_out s' = s_out s \<and> s_wfail s' = s_wfail s"
  using assms
  by (auto simp: read_socks5_bound_addr_def io_then_def timed_def io_read_exact_def Let_def
      split: if_splits prod.splits outcome.splits)

lemma socks5_reply_same:
  assumes "socks5_reply s = (r, s')"
  shows "s_out s' = s_out s \<and> s_wfail s' = s_wfail s"
  using assms read_bound_same
  by (fastforce simp: socks5_reply_def io_then_def timed_def io_read_exact_def
      split: if_splits prod.splits outcome.splits)

text \<open>The reaction to the server's choice of a method.\<close>

definition method_step :: "proxy_auth \<Rightarrow> bytes \<Rightarrow> stream \<Rightarrow> unit tunnel_io" where
  "method_step auth resp s =
     (if resp ! 0 \<noteq> 0x05 then (Error (BadVersion (resp ! 0)), s)
      else if resp ! 1 = 0x00 then (Done (), s)
      else if resp ! 1 = 0x02 then
        (case auth of
           UsernamePassword username password \<Rightarrow> socks5_username_auth username password s
         | NoAuth \<Rightarrow> (Error AuthRequired, s))
      else if resp ! 1 = 0xFF then (Error NoAcceptableMethod, s)
      else (Error (UnsupportedMethod (resp ! 1)), s))"

lemma negotiate_eq:
  "s_wfail s = None \<Longrightarrow> socks5_negotiate_auth auth s =
     io_then (timed ''SOCKS5 method selection'' (io_read_exact 2 (s\<lparr>s_out := s_out s @ socks5_greeting auth\<rparr>)))
       (method_step auth)"
  unfolding method_step_def [abs_def] by (simp add: socks5_negotiate_auth_def)

lemma username_auth_intro:
  assumes "s_wfail s = None" "in_bytes s = [v, 0] @ rest" "build_socks5_auth_request u p = Inr req"
  shows "\<exists>s1. socks5_username_auth u p s = (Done (), s1) \<and> in_bytes s1 = rest \<and> s_out s1 = s_out s @ req \<and>
    s_wfail s1 = None"
proof -
  have "in_bytes (s\<lparr>s_out := s_out s @ req\<rparr>) = [v, 0] @ rest" using assms by simp
  from socks_read_intro [OF this, of 2 "''SOCKS5 auth response''"
      "\<lambda>auth_resp s. if auth_resp ! 1 \<noteq> (0 :: u8) then (Error (AuthFailed (auth_resp ! 1)), s) else (Done (), s)"]
  show ?thesis using assms by (auto simp: socks5_username_auth_def)
qed

lemma username_auth_elim:
  assumes "s_wfail s = None" "socks5_username_auth u p s = (Done (), s')"
  shows "\<exists>v req. in_bytes s = [v, 0] @ in_bytes s' \<and> build_socks5_auth_request u p = Inr req \<and>
    s_out s' = s_out s @ req \<and> s_wfail s' = None"
proof -
  obtain req where req: "build_socks5_auth_request u p = Inr req"
    using assms by (auto simp: socks5_username_auth_def split: sum.splits)
  then have "io_then (timed ''SOCKS5 auth response'' (io_read_exact 2 (s\<lparr>s_out := s_out s @ req\<rparr>)))
      (\<lambda>auth_resp s. if auth_resp ! 1 \<noteq> 0 then (Error (AuthFailed (auth_resp ! 1)), s) else (Done (), s)) = (Done (), s')"
    using assms by (simp add: socks5_username_auth_def)
  then show ?thesis
  proof (rule socks_read_elim)
    fix h s1
    assume "in_bytes (s\<lparr>s_out := s_out s @ req\<rparr>) = h @ in_bytes s1" "length h = 2"
      "s_out s1 = s_out (s\<lparr>s_out := s_out s @ req\<rparr>)" "s_wfail s1 = s_wfail (s\<lparr>s_out := s_out s @ req\<rparr>)"
      "(if h ! 1 \<noteq> 0 then (Error (AuthFailed (h ! 1)), s1) else (Done (), s1)) = (Done (), s')"
    then show ?thesis using two_bytes [of h] req assms(1) by (auto split: if_splits)
  qed
qed

lemma negotiate_intro:
  assumes "s_wfail s = None" "in_bytes s = received @ rest" "auth_dialog auth sent received"
  shows "\<exists>s1. socks5_negotiate_auth auth s = (Done (), s1) \<and> in_bytes s1 = rest \<and>
    s_out s1 = s_out s @ socks5_greeting auth @ sent \<and> s_wfail s1 = None"
proof -
  let ?s = "s\<lparr>s_out := s_out s @ socks5_greeting auth\<rparr>"
  consider (none) "received = [5, 0]" "sent = []"
    | (pass) v u p where "received = [5, 2, v, 0]" "auth = UsernamePassword u p" "build_socks5_auth_request u p = Inr sent"
    using assms(3) by (auto simp: auth_dialog_def auth_request_def split: proxy_auth.splits sum.splits)
  then show ?thesis
  proof cases
    case none
    then have "in_bytes ?s = [5, 0] @ rest" using assms by simp
    from socks_read_intro [OF this, of 2 "''SOCKS5 method selection''" "method_step auth"]
    show ?thesis using none assms by (auto simp: negotiate_eq method_step_def)
  next
    case pass
    then have "in_bytes ?s = [5, 2] @ [v, 0] @ rest" using assms by simp
    from socks_read_intro [OF this, of 2 "''SOCKS5 method selection''" "method_step auth"]
    obtain s1 where s1: "socks5_negotiate_auth auth s = socks5_username_auth u p s1" "in_bytes s1 = [v, 0] @ rest"
        "s_out s1 = s_out ?s" "s_wfail s1 = None"
      using pass assms by (auto simp: negotiate_eq method_step_def)
    show ?thesis using username_auth_intro [OF s1(4,2) pass(3)] s1 by auto
  qed
qed

lemma negotiate_elim:
  assumes "s_wfail s = None" "socks5_negotiate_auth auth s = (Done (), s')"
  shows "\<exists>received sent. in_bytes s = received @ in_bytes s' \<and> auth_dialog auth sent received \<and>
    s_out s' = s_out s @ socks5_greeting auth @ sent \<and> s_wfail s' = None"
  using assms(2) unfolding negotiate_eq [OF assms(1)]
proof (rule socks_read_elim)
  let ?s = "s\<lparr>s_out := s_out s @ socks5_greeting auth\<rparr>"
  fix h s1
  assume h: "in_bytes ?s = h @ in_bytes s1" "length h = 2" and s1: "s_out s1 = s_out ?s" "s_wfail s1 = s_wfail ?s"
    and k: "method_step auth h s1 = (Done (), s')"
  consider (none) "h = [5, 0]" "s' = s1"
    | (pass) u p where "h = [5, 2]" "auth = UsernamePassword u p" "socks5_username_auth u p s1 = (Done (), s')"
    using k two_bytes [OF h(2)] by (auto simp: method_step_def split: if_splits proxy_auth.splits)
  then show ?thesis
  proof cases
    case none
    then show ?thesis using h s1 assms by (auto simp: auth_dialog_def)
  next
    case pass
    from username_auth_elim [OF _ pass(3)] s1 assms obtain v req where
      "in_bytes s1 = [v, 0] @ in_bytes s'" "build_socks5_auth_request u p = Inr req"
      "s_out s' = s_out s1 @ req" "s_wfail s' = None" by auto
    then show ?thesis using h s1 pass
      by (intro exI [of _ "[5, 2, v, 0]"] exI [of _ req]) (simp add: auth_dialog_def auth_request_def)
  qed
qed

lemma method_step_silent:
  "method_step auth h s = (r, s') \<Longrightarrow> h ! 0 \<noteq> 5 \<or> h ! 1 \<noteq> 2 \<Longrightarrow> s' = s"
  by (auto simp: method_step_def split: if_splits)

lemma negotiate_silent:
  assumes "s_wfail s = None" "socks5_negotiate_auth auth s = (r, s')" "take 2 (in_bytes s) \<noteq> [5, 2]"
  shows "s_out s' = s_out s @ socks5_greeting auth \<and> s_wfail s' = None"
proof -
  let ?s = "s\<lparr>s_out := s_out s @ socks5_greeting auth\<rparr>"
  obtain x s1 where rd: "io_read_exact 2 ?s = (x, s1)" by fastforce
  have same: "s_out s1 = s_out ?s" "s_wfail s1 = None"
    using rd assms(1) by (auto simp: io_read_exact_def split: if_splits)
  show ?thesis
  proof (cases x)
    case (Done h)
    then have h: "h = take 2 (in_bytes s)" "length h = 2" using rd by (auto simp: io_read_exact_Done)
    then have "h ! 0 \<noteq> 5 \<or> h ! 1 \<noteq> 2" using assms(3) two_bytes [of h] by metis
    moreover have "method_step auth h s1 = (r, s')" using assms(1,2) rd Done by (simp add: negotiate_eq)
    ultimately have "s' = s1" using method_step_silent by blast
    then show ?thesis using same by simp
  qed (use assms(1,2) rd same in \<open>auto simp: negotiate_eq\<close>)
qed

lemma socks5_connect_eq:
  "s_wfail s = None \<Longrightarrow> socks5_connect dest hostname s =
     io_then (socks5_reply (s\<lparr>s_out := s_out s @ socks5_connect_request dest hostname\<rparr>)) (\<lambda>_ s. (Done (), s))"
  by (simp add: socks5_connect_def)

lemma socks5_connect_out:
  assumes "s_wfail s = None" "socks5_connect dest hostname s = (r, s')"
  shows "s_out s' = s_out s @ socks5_connect_request dest hostname"
proof -
  obtain x s1 where "socks5_reply (s\<lparr>s_out := s_out s @ socks5_connect_request dest hostname\<rparr>) = (x, s1)"
    by fastforce
  then show ?thesis using socks5_reply_same assms by (cases x) (fastforce simp: socks5_connect_eq)+
qed

text \<open>A whole exchange: negotiation, a request, the reply.\<close>

lemma exchange_intro:
  assumes "s_wfail s = None" "in_bytes s = received @ ([5, 0, rsv] @ b) @ rest" "auth_dialog auth sent received"
    "bound_field b"
  shows "\<exists>s1 s2. socks5_negotiate_auth auth s = (Done (), s1) \<and> s_wfail s1 = None \<and>
    socks5_reply (s1\<lparr>s_out := s_out s1 @ req\<rparr>) = (Done (bound_of b), s2) \<and> in_bytes s2 = rest \<and>
    s_out s2 = s_out s @ socks5_greeting auth @ sent @ req"
proof -
  obtain s1 where s1: "socks5_negotiate_auth auth s = (Done (), s1)" "in_bytes s1 = ([5, 0, rsv] @ b) @ rest"
      "s_out s1 = s_out s @ socks5_greeting auth @ sent" "s_wfail s1 = None"
    using negotiate_intro [OF assms(1,2,3)] by blast
  then have "in_bytes (s1\<lparr>s_out := s_out s1 @ req\<rparr>) = ([5, 0, rsv] @ b) @ rest" by simp
  from socks5_reply_intro [OF this assms(4)] show ?thesis using s1 by auto
qed

lemma connect_via_socks5_intro:
  assumes "s_wfail s = None" "up_protocol proxy = Socks5 auth"
    "in_bytes s = received @ answer @ rest" "auth_dialog auth sent received" "good_reply answer"
  shows "\<exists>s'. connect_via_proxy proxy dest hostname s = (Done [], s') \<and> in_bytes s' = rest \<and>
    s_out s' = s_out s @ socks5_greeting auth @ sent @ socks5_connect_request dest hostname"
proof -
  obtain rsv b where b: "answer = [5, 0, rsv] @ b" "bound_field b" using assms(5) by (auto simp: good_reply_def)
  have "in_bytes s = received @ ([5, 0, rsv] @ b) @ rest" using assms(3) b by simp
  from exchange_intro [OF assms(1) this assms(4) b(2), of "socks5_connect_request dest hostname"]
  show ?thesis using assms(2) by (auto simp: connect_via_proxy_def socks5_connect_eq)
qed

lemma connect_via_socks5_elim:
  assumes "s_wfail s = None" "up_protocol proxy = Socks5 auth"
    "connect_via_proxy proxy dest hostname s = (Done l, s')"
  shows "l = [] \<and> (\<exists>received answer sent. in_bytes s = received @ answer @ in_bytes s' \<and>
    auth_dialog auth sent received \<and> good_reply answer \<and>
    s_out s' = s_out s @ socks5_greeting auth @ sent @ socks5_connect_request dest hostname)"
proof -
  obtain x s1 where n: "socks5_negotiate_auth auth s = (x, s1)" by fastforce
  then have x: "x = Done ()" using assms by (cases x) (auto simp: connect_via_proxy_def)
  from negotiate_elim [OF assms(1) n [unfolded x]] obtain received sent where
    r: "in_bytes s = received @ in_bytes s1" "auth_dialog auth sent received"
       "s_out s1 = s_out s @ socks5_greeting auth @ sent" "s_wfail s1 = None" by blast
  let ?s = "s1\<lparr>s_out := s_out s1 @ socks5_connect_request dest hostname\<rparr>"
  obtain y s2 where y: "socks5_reply ?s = (y, s2)" by fastforce
  then obtain a where a: "y = Done a" "s' = s2" "l = []"
    using assms n x r(4) by (cases y) (auto simp: connect_via_proxy_def socks5_connect_eq)
  from socks5_reply_elim [OF y [unfolded a(1)]] socks5_reply_same [OF y] show ?thesis using r a by auto
qed

text \<open>The bytes of a server that completes the exchange, the credentials it asked for, and the rest.\<close>

definition socks5_success :: "proxy_auth \<Rightarrow> bytes \<Rightarrow> bytes \<Rightarrow> bytes \<Rightarrow> bool" where
  "socks5_success auth bs sent rest \<longleftrightarrow>
     (\<exists>received answer. bs = received @ answer @ rest \<and> auth_dialog auth sent received \<and> good_reply answer)"

lemma connect_via_socks5_silent:
  assumes "s_wfail s = None" "up_protocol proxy = Socks5 auth" "take 2 (in_bytes s) \<noteq> [5, 2]"
  shows "s_out (snd (connect_via_proxy proxy dest hostname s)) \<in>
    {s_out s @ socks5_greeting auth, s_out s @ socks5_greeting auth @ socks5_connect_request dest hostname}"
proof -
  obtain x s1 where n: "socks5_negotiate_auth auth s = (x, s1)" by fastforce
  note silent = negotiate_silent [OF assms(1) n assms(3)]
  obtain y s2 where y: "socks5_connect dest hostname s1 = (y, s2)" by fastforce
  have "s_out s2 = s_out s1 @ socks5_connect_request dest hostname"
    using socks5_connect_out [OF _ y] silent by simp
  then show ?thesis
    using n y silent assms(2) by (cases x; cases y) (simp_all add: connect_via_proxy_def)
qed

section \<open>Datagram framing\<close>

lemma length_be16_of_nat: "length h \<le> 253 \<Longrightarrow> unat (of_nat (length h) :: u8) = length h"
  by (simp add: unat_of_nat_u8)

lemma usable_hostname_length: "usable_proxy_hostname hostname = Some h \<Longrightarrow> length h \<le> 253"
  using safe_hostname_chars(3) by (auto simp: usable_proxy_hostname_def split: option.splits if_splits)

text \<open>The address in a request has a length byte that is right, and no other form than the three.\<close>

lemma socks5_addr_cases:
  obtains h where "usable_proxy_hostname hostname = Some h"
      "socks5_addr dest hostname = 3 # of_nat (length h) # bytes_of h" "unat (of_nat (length h) :: u8) = length h"
  | ip where "sock_ip dest = IpV4 ip" "socks5_addr dest hostname = 1 # octets4 ip"
  | ip where "sock_ip dest = IpV6 ip" "socks5_addr dest hostname = 4 # octets6 ip"
proof (cases "usable_proxy_hostname hostname")
  case (Some h)
  then show thesis
    using that(1) [OF Some] length_be16_of_nat [OF usable_hostname_length [OF Some]] by (simp add: socks5_addr_def)
next
  case None
  then show thesis using that(2,3) by (cases "sock_ip dest") (simp_all add: socks5_addr_def)
qed

lemma payload_offset_no_panic: "runs (socks5_udp_payload_offset buf)"
  unfolding socks5_udp_payload_offset_def by (auto intro!: no_panic)

lemma payload_offset_bound:
  assumes "socks5_udp_payload_offset buf = Some (Some off)"
  shows "off \<le> length buf \<and> 7 \<le> off"
  using assms by (auto simp: socks5_udp_payload_offset_def split: if_splits option.splits)

lemma payload_offset_encode:
  "socks5_udp_payload_offset (encode_socks5_udp dest hostname payload) =
     Some (Some (length (encode_socks5_udp dest hostname [])))"
proof (cases rule: socks5_addr_cases [of hostname dest])
  case (1 h)
  then show ?thesis by (simp add: socks5_udp_payload_offset_def encode_socks5_udp_def)
next
  case (2 ip)
  then show ?thesis by (simp add: socks5_udp_payload_offset_def encode_socks5_udp_def)
next
  case (3 ip)
  then show ?thesis by (simp add: socks5_udp_payload_offset_def encode_socks5_udp_def)
qed

section \<open>Properties\<close>


text \<open>
  C1. The HTTP CONNECT handshake loses no byte of the tunnel, however the response is cut into reads.
  It succeeds exactly when the first blank line ends within 8192 bytes and the header before it is
  UTF-8 with status 200; then the leftover it returns and the bytes still to be read are together
  exactly what follows that header, and what it sent is the request.  It always returns.
\<close>

theorem http_connect_no_byte_lost:
  assumes "s_wfail s = None"
  shows "((\<exists>l s'. handshake_http_connect dest hostname s = (Done l, s')) \<longleftrightarrow> (\<exists>q. accepts_connect (in_bytes s) q)) \<and>
    (\<forall>l s'. handshake_http_connect dest hostname s = (Done l, s') \<longrightarrow>
       (\<exists>q. accepts_connect (in_bytes s) q \<and> l @ in_bytes s' = drop q (in_bytes s)) \<and>
       s_out s' = s_out s @ bytes_of (http_connect_request dest hostname)) \<and>
    fst (handshake_http_connect dest hostname s) \<noteq> Hang"
proof -
  have done': "(\<exists>q. accepts_connect (in_bytes s) q \<and> l @ in_bytes s' = drop q (in_bytes s)) \<and>
       s_out s' = s_out s @ bytes_of (http_connect_request dest hostname)"
    if hs: "handshake_http_connect dest hostname s = (Done l, s')" for l s'
  proof -
    obtain q where "accepts_connect (in_bytes s) q" using handshake_http_sound [OF assms hs] by blast
    with handshake_http_done [OF assms this, of dest hostname] hs show ?thesis by auto
  qed
  then show ?thesis
    using handshake_http_done [OF assms] handshake_http_sound [OF assms] handshake_http_returns by blast
qed

theorem http_connect_no_byte_lost_witness:
  "\<exists>l s'. handshake_http_connect (SockV4 (Ipv4 192 0 2 1) 22) None
     (stream_of [bytes_of ''HTTP/1.1 200 OK'', bytes_of (crlf @ crlf @ ''SSH'')]) = (Done l, s') \<and>
     l @ in_bytes s' = bytes_of ''SSH''"
proof -
  let ?s = "stream_of [bytes_of ''HTTP/1.1 200 OK'', bytes_of (crlf @ crlf @ ''SSH'')]"
  have acc: "accepts_connect (in_bytes ?s) 19"
    unfolding accepts_connect_def
  proof (intro conjI exI)
    show "find_header_end (in_bytes ?s) = Some 19" "19 \<le> MAX_RESPONSE_SIZE" by code_simp+
    show "from_utf8 (take 19 (in_bytes ?s)) = Some (''HTTP/1.1 200 OK'' @ crlf @ crlf)" by code_simp
    show "parse_connect_response (''HTTP/1.1 200 OK'' @ crlf @ crlf) = Inr ()" by (rule parse_ok_response)
  qed
  note props = http_connect_no_byte_lost [of ?s "SockV4 (Ipv4 192 0 2 1) 22" None]
  have "s_wfail ?s = None" by (simp add: stream_of_def)
  with props acc obtain l s' where hs: "handshake_http_connect (SockV4 (Ipv4 192 0 2 1) 22) None ?s = (Done l, s')"
    by meson
  with props \<open>s_wfail ?s = None\<close> have "\<exists>q. accepts_connect (in_bytes ?s) q \<and> l @ in_bytes s' = drop q (in_bytes ?s)"
    by meson
  moreover have "drop 19 (in_bytes ?s) = bytes_of ''SSH''" by code_simp
  ultimately show ?thesis using accepts_connect_unique [OF acc] hs by metis
qed

text \<open>
  C2. The SOCKS5 CONNECT exchange succeeds exactly when the server's bytes begin with a method selection
  (and, for user name and password, an accepted answer) and a success reply with a well-formed bound
  address; then it has consumed exactly those bytes, so that the first byte of the tunnel is the next
  one read, and has sent the greeting, the credentials if asked for, and the request.  Credentials
  never leave the host unless the server selected the user name and password method.
\<close>

theorem socks5_connect_exact:
  assumes "s_wfail s = None" "up_protocol proxy = Socks5 auth"
  shows "((\<exists>l s'. connect_via_proxy proxy dest hostname s = (Done l, s')) \<longleftrightarrow>
     (\<exists>sent rest. socks5_success auth (in_bytes s) sent rest)) \<and>
    (\<forall>l s'. connect_via_proxy proxy dest hostname s = (Done l, s') \<longrightarrow>
       l = [] \<and> (\<exists>sent. socks5_success auth (in_bytes s) sent (in_bytes s') \<and>
         s_out s' = s_out s @ socks5_greeting auth @ sent @ socks5_connect_request dest hostname)) \<and>
    (take 2 (in_bytes s) \<noteq> [5, 2] \<longrightarrow>
       s_out (snd (connect_via_proxy proxy dest hostname s)) \<in>
         {s_out s @ socks5_greeting auth, s_out s @ socks5_greeting auth @ socks5_connect_request dest hostname})"
proof -
  have done': "l = [] \<and> (\<exists>sent. socks5_success auth (in_bytes s) sent (in_bytes s') \<and>
         s_out s' = s_out s @ socks5_greeting auth @ sent @ socks5_connect_request dest hostname)"
    if "connect_via_proxy proxy dest hostname s = (Done l, s')" for l s'
    using connect_via_socks5_elim [OF assms that] unfolding socks5_success_def by metis
  have "\<exists>l s'. connect_via_proxy proxy dest hostname s = (Done l, s')"
    if "socks5_success auth (in_bytes s) sent rest" for sent rest
    using connect_via_socks5_intro [OF assms] that unfolding socks5_success_def by metis
  moreover have "s_out (snd (connect_via_proxy proxy dest hostname s)) \<in>
      {s_out s @ socks5_greeting auth, s_out s @ socks5_greeting auth @ socks5_connect_request dest hostname}"
    if "take 2 (in_bytes s) \<noteq> [5, 2]"
    by (rule connect_via_socks5_silent [OF assms that])
  ultimately show ?thesis using done' by metis
qed

definition demo_socks_stream :: stream where
  "demo_socks_stream = stream_of [[5], [2, 1, 0, 5], [0, 0, 1, 10, 0, 0, 1, 4], [56, 104, 105]]"

theorem socks5_connect_exact_witness:
  "\<exists>l s'. connect_via_proxy
     \<lparr>up_protocol = Socks5 (UsernamePassword ''u'' ''p''), up_addr = SockV4 (Ipv4 10 0 0 1) 1080\<rparr>
     (SockV4 (Ipv4 192 0 2 1) 443) (Some ''example.org'') demo_socks_stream = (Done l, s')"
proof -
  let ?auth = "UsernamePassword ''u'' ''p''"
  have "in_bytes demo_socks_stream = [5, 2, 1, 0] @ [5, 0, 0, 1, 10, 0, 0, 1, 4, 56] @ [104, 105]"
    by (simp add: demo_socks_stream_def)
  moreover have "auth_dialog ?auth [1, 1, 117, 1, 112] [5, 2, 1, 0]"
    by (simp add: auth_dialog_def auth_request_def build_socks5_auth_request_def
        validate_socks5_auth_field_def bytes_of_def)
  moreover have "good_reply [5, 0, 0, 1, 10, 0, 0, 1, 4, 56]"
    by (simp add: good_reply_def bound_field_def)
  ultimately have "socks5_success ?auth (in_bytes demo_socks_stream) [1, 1, 117, 1, 112] [104, 105]"
    unfolding socks5_success_def by metis
  then show ?thesis
    using socks5_connect_exact [of demo_socks_stream
        "\<lparr>up_protocol = Socks5 ?auth, up_addr = SockV4 (Ipv4 10 0 0 1) 1080\<rparr>" ?auth
        "SockV4 (Ipv4 192 0 2 1) 443" "Some ''example.org''"]
    by (auto simp: demo_socks_stream_def stream_of_def)
qed

text \<open>
  Framing of relayed datagrams: the payload offset of an encoded datagram is the length of its
  header, so the payload comes back unchanged; on any received bytes the parser returns without a
  panic, and an offset it reports lies within the datagram.
\<close>

theorem socks5_udp_framing:
  "runs (socks5_udp_payload_offset buf) \<and>
   (case socks5_udp_payload_offset buf of Some (Some off) \<Rightarrow> 7 \<le> off \<and> off \<le> length buf | _ \<Rightarrow> True) \<and>
   (case socks5_udp_payload_offset (encode_socks5_udp dest hostname payload) of
      Some (Some off) \<Rightarrow> drop off (encode_socks5_udp dest hostname payload) = payload | _ \<Rightarrow> False)"
proof -
  have "encode_socks5_udp dest hostname payload = encode_socks5_udp dest hostname [] @ payload"
    by (simp add: encode_socks5_udp_def)
  then have "drop (length (encode_socks5_udp dest hostname [])) (encode_socks5_udp dest hostname payload) = payload"
    by (metis append_eq_conv_conj)
  then show ?thesis
    using payload_offset_no_panic payload_offset_bound
    by (auto simp: payload_offset_encode split: option.split)
qed

text \<open>
  UDP ASSOCIATE succeeds exactly on the same exchange with a SOCKS5 upstream, and then the relay is the
  bound address of the reply, with the upstream's own address in place of an unspecified one (a domain
  name counts as unspecified); with an HTTP upstream nothing is sent.
\<close>

theorem udp_associate_relay:
  assumes "s_wfail s = None" "up_protocol proxy = Socks5 auth"
    "in_bytes s = received @ ([5, 0, rsv] @ b) @ rest" "auth_dialog auth sent received" "bound_field b"
  shows "(\<exists>s'. udp_associate proxy s =
       (Done (if ip_is_unspecified (sock_ip (bound_of b))
              then sock_new (sock_ip (up_addr proxy)) (sock_port (bound_of b)) else bound_of b), s') \<and>
      in_bytes s' = rest \<and> s_out s' = s_out s @ socks5_greeting auth @ sent @ socks5_associate_request) \<and>
    udp_associate (proxy\<lparr>up_protocol := HttpConnect\<rparr>) s = (Error NeedsSocks5, s)"
  using exchange_intro [OF assms(1,3,4,5), of socks5_associate_request] assms(1,2)
  by (auto simp: udp_associate_def)

theorem udp_associate_relay_witness:
  "\<exists>s'. udp_associate \<lparr>up_protocol = Socks5 NoAuth, up_addr = SockV4 (Ipv4 10 0 0 1) 1080\<rparr>
     (stream_of [[5, 0], [5, 0, 0, 1, 0, 0, 0, 0], [4, 56]]) = (Done (SockV4 (Ipv4 10 0 0 1) 1080), s')"
proof -
  let ?s = "stream_of [[5, 0], [5, 0, 0, 1, 0, 0, 0, 0], [4, 56]]"
  have "in_bytes ?s = [5, 0] @ ([5, 0, 0] @ [1, 0, 0, 0, 0, 4, 56]) @ []" "s_wfail ?s = None"
    by (simp_all add: stream_of_def in_bytes_def)
  moreover have "auth_dialog NoAuth [] [5, 0]" "bound_field [1, 0, 0, 0, 0, 4, 56]"
    by (simp_all add: auth_dialog_def bound_field_def)
  moreover have "bound_of [1, 0, 0, 0, 0, 4, 56] = SockV4 ipv4_unspecified 1080"
    by (simp add: bound_of_def ipv4_unspecified_def u16_be_def)
  ultimately show ?thesis
    using udp_associate_relay [of ?s "\<lparr>up_protocol = Socks5 NoAuth, up_addr = SockV4 (Ipv4 10 0 0 1) 1080\<rparr>" NoAuth
        "[5, 0]" 0 "[1, 0, 0, 0, 0, 4, 56]" "[]" "[]"]
    by auto
qed

end
