(* ===== verification/Udp_Relay.thy ===== *)
theory Udp_Relay
  imports Orig_Dest Dns_Table Tunnel_Props
begin

text \<open>
  The transparent UDP relay of \<^verbatim>\<open>src/src/udp.rs\<close>: the kernel structures it reads and writes, the map from
  flows to sessions with \<open>dispatch\<close>, and the sessions, which run as tasks of their own.  The tasks and
  the listener interleave freely, so the relay is a machine with one event per atomic action: the
  lock of the map makes \<open>dispatch\<close> and the removal of a key atomic, and a task runs between two waits.
\<close>

section \<open>Socket addresses and control messages\<close>

text \<open>\<open>bind_fd\<close>: the structure that is handed to \<open>bind\<close>.\<close>

fun sockaddr_of :: "socket_addr \<Rightarrow> sockaddr_storage" where
  "sockaddr_of (SockV4 ip port) = AfInet \<lparr>sin_port = port_to_be port, sin_addr = ipv4_to_mem ip\<rparr>"
| "sockaddr_of (SockV6 ip port flow scope) =
     AfInet6 \<lparr>sin6_port = port_to_be port, sin6_flowinfo = flow, sin6_addr = octets6 ip, sin6_scope_id = scope\<rparr>"

fun storage_to_socketaddr :: "sockaddr_storage \<Rightarrow> socket_addr option" where
  "storage_to_socketaddr (AfInet sin) = Some (SockV4 (ipv4_of_mem (sin_addr sin)) (port_from_be (sin_port sin)))"
| "storage_to_socketaddr (AfInet6 sin6) =
     Some (SockV6 (ipv6_of_mem (sin6_addr sin6)) (port_from_be (sin6_port sin6)) 0 0)"
| "storage_to_socketaddr AfOther = None"

definition SOL_IP :: nat where "SOL_IP = 0"
definition SOL_IPV6 :: nat where "SOL_IPV6 = 41"
definition SOL_SOCKET :: nat where "SOL_SOCKET = 1"
definition SO_REUSEADDR :: nat where "SO_REUSEADDR = 2"
definition IP_TRANSPARENT :: nat where "IP_TRANSPARENT = 19"
definition IP_RECVORIGDSTADDR :: nat where "IP_RECVORIGDSTADDR = 20"
definition IP_ORIGDSTADDR :: nat where "IP_ORIGDSTADDR = 20"
definition IPV6_TRANSPARENT :: nat where "IPV6_TRANSPARENT = 75"
definition IPV6_RECVORIGDSTADDR :: nat where "IPV6_RECVORIGDSTADDR = 74"
definition IPV6_ORIGDSTADDR :: nat where "IPV6_ORIGDSTADDR = 74"

text \<open>
  A control message: its level, its type and its data, read as the structure its level and type say.
\<close>

record cmsg =
  cmsg_level :: nat
  cmsg_type :: nat
  cmsg_in :: sockaddr_in
  cmsg_in6 :: sockaddr_in6

fun scan_cmsgs :: "cmsg list \<Rightarrow> socket_addr option \<Rightarrow> socket_addr option" where
  "scan_cmsgs [] orig_dst = orig_dst"
| "scan_cmsgs (hdr # cmsgs) orig_dst =
     (if cmsg_level hdr = SOL_IP \<and> cmsg_type hdr = IP_ORIGDSTADDR then
        scan_cmsgs cmsgs (Some (SockV4 (ipv4_of_mem (sin_addr (cmsg_in hdr))) (port_from_be (sin_port (cmsg_in hdr)))))
      else if cmsg_level hdr = SOL_IPV6 \<and> cmsg_type hdr = IPV6_ORIGDSTADDR then
        scan_cmsgs cmsgs
          (Some (SockV6 (ipv6_of_mem (sin6_addr (cmsg_in6 hdr))) (port_from_be (sin6_port (cmsg_in6 hdr))) 0 0))
      else scan_cmsgs cmsgs orig_dst)"

datatype recv_error = RecvmsgFailed | BadSource | MissingOrigDst

text \<open>What \<open>recvmsg\<close> delivers: the datagram, the source and the control messages, or a failure.\<close>

definition recv_with_origdst ::
    "(bytes \<times> sockaddr_storage \<times> cmsg list) option \<Rightarrow> recv_error + bytes \<times> socket_addr \<times> socket_addr" where
  "recv_with_origdst msg =
     (case msg of
        None \<Rightarrow> Inl RecvmsgFailed
      | Some (data, name, cmsgs) \<Rightarrow>
          (case storage_to_socketaddr name of
             None \<Rightarrow> Inl BadSource
           | Some client \<Rightarrow>
               (case scan_cmsgs cmsgs None of
                  None \<Rightarrow> Inl MissingOrigDst
                | Some orig_dst \<Rightarrow> Inr (data, client, orig_dst))))"

section \<open>Sockets\<close>

text \<open>
  The system calls that set a socket up, each of which must succeed (\<open>?\<close>).
\<close>

datatype syscall =
    CreateSocket bool
  | SetOption nat nat
  | Bind sockaddr_storage
  | ConnectTo socket_addr

definition tproxy_listener_calls :: "socket_addr \<Rightarrow> syscall list" where
  "tproxy_listener_calls addr =
     (let (v4, level, transparent_opt, recvorig_opt) =
        (case addr of SockV4 _ _ \<Rightarrow> (True, SOL_IP, IP_TRANSPARENT, IP_RECVORIGDSTADDR)
                    | SockV6 _ _ _ _ \<Rightarrow> (False, SOL_IPV6, IPV6_TRANSPARENT, IPV6_RECVORIGDSTADDR)) in
      [CreateSocket v4, SetOption SOL_SOCKET SO_REUSEADDR, SetOption level transparent_opt,
       SetOption level recvorig_opt, Bind (sockaddr_of addr)])"

definition transparent_sender_calls :: "socket_addr \<Rightarrow> syscall list" where
  "transparent_sender_calls src =
     (let (v4, level, transparent_opt) =
        (case src of SockV4 _ _ \<Rightarrow> (True, SOL_IP, IP_TRANSPARENT) | SockV6 _ _ _ _ \<Rightarrow> (False, SOL_IPV6, IPV6_TRANSPARENT)) in
      [CreateSocket v4, SetOption SOL_SOCKET SO_REUSEADDR, SetOption level transparent_opt, Bind (sockaddr_of src)])"

definition relay_socket_calls :: "socket_addr \<Rightarrow> syscall list" where
  "relay_socket_calls relay =
     [CreateSocket (is_ipv4 relay),
      Bind (sockaddr_of (if is_ipv4 relay then SockV4 ipv4_unspecified 0 else SockV6 ipv6_unspecified 0 0 0)),
      ConnectTo relay]"

section \<open>Sessions\<close>

type_synonym session_key = "socket_addr \<times> socket_addr"

text \<open>
  A session waits for its association, relays with the host name it found, has returned, or has also
  removed its key.  Its receiver is dropped when \<open>run_session\<close> returns.  \<open>se_accepted\<close> and \<open>se_forwarded\<close>
  record the payloads it was handed and those it sent on.
\<close>

datatype session_phase = Associating | Relaying "string option" | Finished | Removed

record session =
  se_key :: session_key
  se_phase :: session_phase
  se_queue :: "bytes list"
  se_accepted :: "bytes list"
  se_forwarded :: "bytes list"

record udp_relay =
  ur_map :: "session_key \<Rightarrow> nat option"
  ur_sessions :: "session list"
  ur_received :: "(session_key \<times> bytes) list"
  ur_from_relay :: "(nat \<times> bytes) list"
  ur_upstream :: "(nat \<times> bytes) list"
  ur_replies :: "(socket_addr \<times> socket_addr \<times> bytes) list"

definition udp_relay_init :: udp_relay where
  "udp_relay_init =
     \<lparr>ur_map = (\<lambda>_. None), ur_sessions = [], ur_received = [], ur_from_relay = [], ur_upstream = [], ur_replies = []\<rparr>"

definition session_alive :: "session \<Rightarrow> bool" where
  "session_alive se \<longleftrightarrow> se_phase se \<noteq> Finished \<and> se_phase se \<noteq> Removed"

definition new_session :: "session_key \<Rightarrow> bytes \<Rightarrow> session" where
  "new_session key payload =
     \<lparr>se_key = key, se_phase = Associating, se_queue = [payload], se_accepted = [payload], se_forwarded = []\<rparr>"

definition set_session :: "nat \<Rightarrow> session \<Rightarrow> udp_relay \<Rightarrow> udp_relay" where
  "set_session i se s = s\<lparr>ur_sessions := (ur_sessions s)[i := se]\<rparr>"

definition dispatch :: "socket_addr \<Rightarrow> socket_addr \<Rightarrow> bytes \<Rightarrow> udp_relay \<Rightarrow> udp_relay" where
  "dispatch client orig_dst payload s =
     (let key = (client, orig_dst); s = s\<lparr>ur_received := ur_received s @ [(key, payload)]\<rparr> in
      case ur_map s key of
        Some i \<Rightarrow>
          let se = ur_sessions s ! i in
          if session_alive se then
            set_session i (se\<lparr>se_queue := se_queue se @ [payload], se_accepted := se_accepted se @ [payload]\<rparr>) s
          else s\<lparr>ur_map := (ur_map s)(key := None)\<rparr>
      | None \<Rightarrow>
          s\<lparr>ur_map := (ur_map s)(key := Some (length (ur_sessions s))),
            ur_sessions := ur_sessions s @ [new_session key payload]\<rparr>)"

text \<open>
  What can happen: a datagram arrives; the association of a session succeeds or fails, and the table is
  looked up; the session takes a payload from its channel and sends it on, or the channel is closed; a
  datagram comes from the relay, and the reply can be sent or not; the control connection reports
  end, data or an error; the session is idle; and a returned session removes its key.
\<close>

datatype udp_event =
    Datagram socket_addr socket_addr bytes
  | Associated nat nat dns_table
  | AssociationFails nat
  | TakePayload nat bool
  | ChannelClosed nat
  | FromRelay nat "io_error + bytes" bool
  | ControlRead nat "io_error + nat"
  | IdleTimeout nat
  | RemoveKey nat

definition finish :: "nat \<Rightarrow> udp_relay \<Rightarrow> udp_relay" where
  "finish i s = set_session i ((ur_sessions s ! i)\<lparr>se_phase := Finished\<rparr>) s"

text \<open>\<open>biased\<close>: the other branches of the loop run only while the channel has nothing to give.\<close>

definition channel_quiet :: "udp_relay \<Rightarrow> nat \<Rightarrow> bool" where
  "channel_quiet s i \<longleftrightarrow>
     i < length (ur_sessions s) \<and> (case se_phase (ur_sessions s ! i) of Relaying _ \<Rightarrow> True | _ \<Rightarrow> False) \<and>
     se_queue (ur_sessions s ! i) = [] \<and> ur_map s (se_key (ur_sessions s ! i)) = Some i"

definition deliver_reply :: "session_key \<Rightarrow> bytes \<Rightarrow> bool \<Rightarrow> udp_relay \<Rightarrow> udp_relay" where
  "deliver_reply key pkt ok s =
     (case socks5_udp_payload_offset pkt of
        Some (Some off) \<Rightarrow>
          if ok then s\<lparr>ur_replies := ur_replies s @ [(snd key, fst key, drop off pkt)]\<rparr> else s
      | _ \<Rightarrow> s)"

fun udp_relay_step :: "udp_event \<Rightarrow> udp_relay \<Rightarrow> udp_relay option" where
  "udp_relay_step (Datagram client orig_dst payload) s = Some (dispatch client orig_dst payload s)"
| "udp_relay_step (Associated i now table) s =
     (if i < length (ur_sessions s) \<and> se_phase (ur_sessions s ! i) = Associating then
        let se = ur_sessions s ! i in
        Some (set_session i (se\<lparr>se_phase := Relaying (table_lookup now table (sock_ip (snd (se_key se))))\<rparr>) s)
      else None)"
| "udp_relay_step (AssociationFails i) s =
     (if i < length (ur_sessions s) \<and> se_phase (ur_sessions s ! i) = Associating then Some (finish i s) else None)"
| "udp_relay_step (TakePayload i ok) s =
     (if i < length (ur_sessions s) then
        let se = ur_sessions s ! i in
        case (se_phase se, se_queue se) of
          (Relaying hostname, payload # rest) \<Rightarrow>
            if ok then
              Some (set_session i (se\<lparr>se_queue := rest, se_forwarded := se_forwarded se @ [payload]\<rparr>)
                (s\<lparr>ur_upstream := ur_upstream s @ [(i, encode_socks5_udp (snd (se_key se)) hostname payload)]\<rparr>))
            else Some (finish i s)
        | _ \<Rightarrow> None
      else None)"
| "udp_relay_step (ChannelClosed i) s =
     (if i < length (ur_sessions s) \<and> (case se_phase (ur_sessions s ! i) of Relaying _ \<Rightarrow> True | _ \<Rightarrow> False) \<and>
         se_queue (ur_sessions s ! i) = [] \<and> ur_map s (se_key (ur_sessions s ! i)) \<noteq> Some i
      then Some (finish i s) else None)"
| "udp_relay_step (FromRelay i r ok) s =
     (if channel_quiet s i then
        (case r of
           Inl _ \<Rightarrow> Some (finish i s)
         | Inr pkt \<Rightarrow>
             Some (deliver_reply (se_key (ur_sessions s ! i)) pkt ok (s\<lparr>ur_from_relay := ur_from_relay s @ [(i, pkt)]\<rparr>)))
      else None)"
| "udp_relay_step (ControlRead i r) s =
     (if channel_quiet s i then (case r of Inr (Suc _) \<Rightarrow> Some s | _ \<Rightarrow> Some (finish i s)) else None)"
| "udp_relay_step (IdleTimeout i) s = (if channel_quiet s i then Some (finish i s) else None)"
| "udp_relay_step (RemoveKey i) s =
     (if i < length (ur_sessions s) \<and> se_phase (ur_sessions s ! i) = Finished then
        Some ((set_session i ((ur_sessions s ! i)\<lparr>se_phase := Removed\<rparr>) s)
                \<lparr>ur_map := (ur_map s)(se_key (ur_sessions s ! i) := None)\<rparr>)
      else None)"

inductive udp_reachable :: "udp_relay \<Rightarrow> bool" where
  start: "udp_reachable udp_relay_init"
| step: "udp_reachable s \<Longrightarrow> udp_relay_step e s = Some s' \<Longrightarrow> udp_reachable s'"

section \<open>Lemmas on the kernel structures\<close>

lemma sockaddr_roundtrip:
  "storage_to_socketaddr (sockaddr_of a) = Some (sock_new (sock_ip a) (sock_port a))"
  by (cases a) simp_all

lemma recv_with_origdst_v4:
  "storage_to_socketaddr name = Some client \<Longrightarrow>
   recv_with_origdst (Some (data, name,
     [\<lparr>cmsg_level = SOL_IP, cmsg_type = IP_ORIGDSTADDR,
       cmsg_in = \<lparr>sin_port = port_to_be port, sin_addr = ipv4_to_mem ip\<rparr>, cmsg_in6 = x\<rparr>])) =
     Inr (data, client, SockV4 ip port)"
  by (simp add: recv_with_origdst_def)

section \<open>The invariant\<close>

definition flow_payloads :: "(session_key \<times> bytes) list \<Rightarrow> session_key \<Rightarrow> bytes list" where
  "flow_payloads received key = map snd (filter (\<lambda>(k, _). k = key) received)"

definition sent_by :: "(nat \<times> bytes) list \<Rightarrow> nat \<Rightarrow> bytes list" where
  "sent_by upstream i = map snd (filter (\<lambda>(j, _). j = i) upstream)"

text \<open>
  A session: its channel holds what it was handed and has not forwarded, it was handed payloads of its
  own flow in the order of arrival, and it has sent exactly the forwarded ones, framed for its destination.
\<close>

definition session_ok :: "(session_key \<times> bytes) list \<Rightarrow> (nat \<times> bytes) list \<Rightarrow> nat \<Rightarrow> session \<Rightarrow> bool" where
  "session_ok received upstream i se \<longleftrightarrow>
     se_accepted se = se_forwarded se @ se_queue se \<and>
     subseq (se_accepted se) (flow_payloads received (se_key se)) \<and>
     (se_phase se = Associating \<longrightarrow> se_forwarded se = []) \<and>
     (\<exists>hostname. sent_by upstream i = map (encode_socks5_udp (snd (se_key se)) hostname) (se_forwarded se) \<and>
        (\<forall>h. se_phase se = Relaying h \<longrightarrow> hostname = h))"

definition reply_ok :: "udp_relay \<Rightarrow> socket_addr \<times> socket_addr \<times> bytes \<Rightarrow> bool" where
  "reply_ok s r \<longleftrightarrow>
     (case r of (src, dst, payload) \<Rightarrow>
        \<exists>i pkt off. i < length (ur_sessions s) \<and> se_key (ur_sessions s ! i) = (dst, src) \<and>
          (i, pkt) \<in> set (ur_from_relay s) \<and> socks5_udp_payload_offset pkt = Some (Some off) \<and> payload = drop off pkt)"

definition udp_inv :: "udp_relay \<Rightarrow> bool" where
  "udp_inv s \<longleftrightarrow>
     (\<forall>k i. ur_map s k = Some i \<longrightarrow> i < length (ur_sessions s) \<and> se_key (ur_sessions s ! i) = k) \<and>
     (\<forall>i < length (ur_sessions s). session_ok (ur_received s) (ur_upstream s) i (ur_sessions s ! i)) \<and>
     (\<forall>i \<ge> length (ur_sessions s). sent_by (ur_upstream s) i = []) \<and>
     (\<forall>r \<in> set (ur_replies s). reply_ok s r)"

lemma udp_invI:
  assumes "\<And>k i. ur_map s k = Some i \<Longrightarrow> i < length (ur_sessions s) \<and> se_key (ur_sessions s ! i) = k"
    "\<And>i. i < length (ur_sessions s) \<Longrightarrow> session_ok (ur_received s) (ur_upstream s) i (ur_sessions s ! i)"
    "\<And>i. length (ur_sessions s) \<le> i \<Longrightarrow> sent_by (ur_upstream s) i = []"
    "\<And>r. r \<in> set (ur_replies s) \<Longrightarrow> reply_ok s r"
  shows "udp_inv s"
  using assms by (simp add: udp_inv_def)

lemma udp_inv_map:
  "udp_inv s \<Longrightarrow> ur_map s k = Some i \<Longrightarrow> i < length (ur_sessions s) \<and> se_key (ur_sessions s ! i) = k"
  unfolding udp_inv_def by blast

lemma udp_inv_session:
  "udp_inv s \<Longrightarrow> i < length (ur_sessions s) \<Longrightarrow> session_ok (ur_received s) (ur_upstream s) i (ur_sessions s ! i)"
  unfolding udp_inv_def by blast

lemma udp_inv_fresh: "udp_inv s \<Longrightarrow> length (ur_sessions s) \<le> i \<Longrightarrow> sent_by (ur_upstream s) i = []"
  unfolding udp_inv_def by blast

lemma udp_inv_reply: "udp_inv s \<Longrightarrow> r \<in> set (ur_replies s) \<Longrightarrow> reply_ok s r"
  unfolding udp_inv_def by blast

lemma sent_by_snoc [simp]:
  "sent_by (ups @ [(j, p)]) i = (if j = i then sent_by ups i @ [p] else sent_by ups i)"
  by (simp add: sent_by_def)

lemma flow_payloads_snoc [simp]:
  "flow_payloads (rcv @ [(k, p)]) key = (if k = key then flow_payloads rcv key @ [p] else flow_payloads rcv key)"
  by (simp add: flow_payloads_def)

lemma subseq_snoc: "subseq xs ys \<Longrightarrow> subseq (xs @ [p]) (ys @ [p])"
  by (simp add: list_emb_append_mono)

lemma subseq_snoc_skip: "subseq xs ys \<Longrightarrow> subseq xs (ys @ [p])"
  by (metis append_Nil2 list_emb_Nil list_emb_append_mono)

lemma session_ok_received:
  "session_ok rcv ups i se \<Longrightarrow> session_ok (rcv @ [(k, p)]) ups i se"
  by (auto simp: session_ok_def intro: subseq_snoc_skip)

lemma set_session_simps [simp]:
  "ur_map (set_session i se s) = ur_map s" "ur_sessions (set_session i se s) = (ur_sessions s)[i := se]"
  "ur_received (set_session i se s) = ur_received s" "ur_upstream (set_session i se s) = ur_upstream s"
  "ur_from_relay (set_session i se s) = ur_from_relay s" "ur_replies (set_session i se s) = ur_replies s"
  by (simp_all add: set_session_def)

text \<open>Replacing a session by one of the same flow.\<close>

lemma udp_inv_set_session:
  assumes "udp_inv s" "i < length (ur_sessions s)" "se_key se = se_key (ur_sessions s ! i)"
    "session_ok (ur_received s) (ur_upstream s) i se"
  shows "udp_inv (set_session i se s)"
proof (rule udp_invI)
  fix k j assume "ur_map (set_session i se s) k = Some j"
  then show "j < length (ur_sessions (set_session i se s)) \<and> se_key (ur_sessions (set_session i se s) ! j) = k"
    using assms udp_inv_map [OF assms(1), of k j] by (cases "j = i") simp_all
next
  fix j assume "j < length (ur_sessions (set_session i se s))"
  then show "session_ok (ur_received (set_session i se s)) (ur_upstream (set_session i se s)) j
      (ur_sessions (set_session i se s) ! j)"
    using assms udp_inv_session [OF assms(1), of j] by (cases "j = i") simp_all
next
  fix r assume "r \<in> set (ur_replies (set_session i se s))"
  then have "reply_ok s r" using assms by (simp add: udp_inv_def)
  moreover have "se_key ((ur_sessions s)[i := se] ! j) = se_key (ur_sessions s ! j)" for j
    using assms(2,3) by (cases "j = i") simp_all
  ultimately show "reply_ok (set_session i se s) r" by (auto simp: reply_ok_def)
qed (use assms in \<open>simp add: udp_inv_def\<close>)

lemma udp_inv_phase:
  assumes "udp_inv s" "i < length (ur_sessions s)"
    "ph = Associating \<Longrightarrow> se_phase (ur_sessions s ! i) = Associating"
    "\<And>h. ph = Relaying h \<Longrightarrow> se_phase (ur_sessions s ! i) = Associating"
  shows "udp_inv (set_session i ((ur_sessions s ! i)\<lparr>se_phase := ph\<rparr>) s)"
proof (rule udp_inv_set_session [OF assms(1,2)])
  have "session_ok (ur_received s) (ur_upstream s) i (ur_sessions s ! i)"
    using assms(1,2) by (simp add: udp_inv_def)
  then show "session_ok (ur_received s) (ur_upstream s) i ((ur_sessions s ! i)\<lparr>se_phase := ph\<rparr>)"
    using assms(3,4) by (cases ph) (auto simp: session_ok_def)
qed simp

lemma udp_inv_finish: "udp_inv s \<Longrightarrow> i < length (ur_sessions s) \<Longrightarrow> udp_inv (finish i s)"
  unfolding finish_def by (rule udp_inv_phase) simp_all

lemma udp_inv_received:
  assumes "udp_inv s"
  shows "udp_inv (s\<lparr>ur_received := ur_received s @ [(k, p)]\<rparr>)"
proof (rule udp_invI)
  fix r assume "r \<in> set (ur_replies (s\<lparr>ur_received := ur_received s @ [(k, p)]\<rparr>))"
  then show "reply_ok (s\<lparr>ur_received := ur_received s @ [(k, p)]\<rparr>) r"
    using udp_inv_reply [OF assms] by (simp add: reply_ok_def)
qed (use udp_inv_map [OF assms] udp_inv_fresh [OF assms] session_ok_received [OF udp_inv_session [OF assms]]
      in simp_all)

lemma udp_inv_unmap:
  assumes "udp_inv s"
  shows "udp_inv (s\<lparr>ur_map := (ur_map s)(k := None)\<rparr>)"
proof (rule udp_invI)
  fix r assume "r \<in> set (ur_replies (s\<lparr>ur_map := (ur_map s)(k := None)\<rparr>))"
  then show "reply_ok (s\<lparr>ur_map := (ur_map s)(k := None)\<rparr>) r"
    using udp_inv_reply [OF assms] by (simp add: reply_ok_def)
qed (use udp_inv_map [OF assms] udp_inv_fresh [OF assms] udp_inv_session [OF assms] in \<open>simp_all split: if_splits\<close>)

lemma reply_ok_grow:
  assumes "reply_ok s r" "ur_sessions s' = ur_sessions s @ ses" "ur_from_relay s' = ur_from_relay s @ pkts"
  shows "reply_ok s' r"
proof -
  obtain src dst payload i pkt off where *: "r = (src, dst, payload)" "i < length (ur_sessions s)"
      "se_key (ur_sessions s ! i) = (dst, src)" "(i, pkt) \<in> set (ur_from_relay s)"
      "socks5_udp_payload_offset pkt = Some (Some off)" "payload = drop off pkt"
    using assms(1) by (auto simp: reply_ok_def)
  then have "i < length (ur_sessions s')" "ur_sessions s' ! i = ur_sessions s ! i" "(i, pkt) \<in> set (ur_from_relay s')"
    using assms(2,3) by (simp_all add: nth_append)
  then show ?thesis
    using * unfolding reply_ok_def
    by (simp only: prod.case) (intro exI [of _ i] exI [of _ pkt] exI [of _ off], simp)
qed

lemma udp_inv_new_session:
  assumes "udp_inv s"
  shows "udp_inv (s\<lparr>ur_received := ur_received s @ [(key, p)], ur_map := (ur_map s)(key \<mapsto> length (ur_sessions s)),
    ur_sessions := ur_sessions s @ [new_session key p]\<rparr>)"
proof -
  define s' where "s' = s\<lparr>ur_received := ur_received s @ [(key, p)], ur_map := (ur_map s)(key \<mapsto> length (ur_sessions s)),
    ur_sessions := ur_sessions s @ [new_session key p]\<rparr>"
  have s': "ur_map s' = (ur_map s)(key \<mapsto> length (ur_sessions s))"
    "ur_sessions s' = ur_sessions s @ [new_session key p]" "ur_received s' = ur_received s @ [(key, p)]"
    "ur_upstream s' = ur_upstream s" "ur_replies s' = ur_replies s" "ur_from_relay s' = ur_from_relay s"
    by (simp_all add: s'_def)
  have "udp_inv s'"
  proof (rule udp_invI)
    fix k i assume "ur_map s' k = Some i"
    then consider "k = key" "i = length (ur_sessions s)" | "ur_map s k = Some i"
      by (cases "k = key") (simp_all add: s')
    then show "i < length (ur_sessions s') \<and> se_key (ur_sessions s' ! i) = k"
      using udp_inv_map [OF assms, of k i] by cases (auto simp: s' nth_append new_session_def)
  next
    fix i assume "i < length (ur_sessions s')"
    then consider "i < length (ur_sessions s)" | "i = length (ur_sessions s)" by (fastforce simp: s')
    then show "session_ok (ur_received s') (ur_upstream s') i (ur_sessions s' ! i)"
    proof cases
      case 1
      then show ?thesis
        using session_ok_received [OF udp_inv_session [OF assms 1]] by (simp add: s' nth_append)
    next
      case 2
      then show ?thesis using udp_inv_fresh [OF assms, of i] using subseq_snoc [of "[]"] by (simp add: s' session_ok_def new_session_def)
    qed
  next
    fix i assume "length (ur_sessions s') \<le> i"
    then show "sent_by (ur_upstream s') i = []" using udp_inv_fresh [OF assms, of i] by (simp add: s')
  next
    fix r assume "r \<in> set (ur_replies s')"
    then have "reply_ok s r" using udp_inv_reply [OF assms] by (simp add: s')
    then show "reply_ok s' r"
      by (rule reply_ok_grow) (simp_all add: s')
  qed
  then show ?thesis by (simp add: s'_def)
qed

lemma udp_inv_dispatch: "udp_inv s \<Longrightarrow> udp_inv (dispatch client orig_dst payload s)"
proof -
  assume inv: "udp_inv s"
  let ?key = "(client, orig_dst)" and ?s = "s\<lparr>ur_received := ur_received s @ [((client, orig_dst), payload)]\<rparr>"
  have inv': "udp_inv ?s" using inv by (rule udp_inv_received)
  show "udp_inv (dispatch client orig_dst payload s)"
  proof (cases "ur_map s ?key")
    case None
    then show ?thesis using udp_inv_new_session [OF inv, of ?key payload] by (simp add: dispatch_def Let_def)
  next
    case (Some i)
    then have i: "i < length (ur_sessions s)" "se_key (ur_sessions s ! i) = ?key" using udp_inv_map [OF inv] by blast+
    let ?se = "ur_sessions s ! i"
    show ?thesis
    proof (cases "session_alive ?se")
      case True
      have "session_ok (ur_received ?s) (ur_upstream ?s) i
          (?se\<lparr>se_queue := se_queue ?se @ [payload], se_accepted := se_accepted ?se @ [payload]\<rparr>)"
        using udp_inv_session [OF inv i(1)] i(2)
          subseq_snoc [of "se_accepted ?se" "flow_payloads (ur_received s) ?key" payload]
        by (auto simp: session_ok_def)
      with i have "udp_inv (set_session i (?se\<lparr>se_queue := se_queue ?se @ [payload], se_accepted := se_accepted ?se @ [payload]\<rparr>) ?s)"
        by (intro udp_inv_set_session [OF inv']) simp_all
      then show ?thesis using Some True by (simp add: dispatch_def Let_def)
    next
      case False
      then show ?thesis using Some udp_inv_unmap [OF inv', of ?key] by (simp add: dispatch_def Let_def)
    qed
  qed
qed

lemma udp_inv_take:
  assumes "udp_inv s" "i < length (ur_sessions s)" "se_phase (ur_sessions s ! i) = Relaying hostname"
    "se_queue (ur_sessions s ! i) = payload # rest"
  shows "udp_inv (set_session i ((ur_sessions s ! i)\<lparr>se_queue := rest, se_forwarded := se_forwarded (ur_sessions s ! i) @ [payload]\<rparr>)
    (s\<lparr>ur_upstream := ur_upstream s @ [(i, encode_socks5_udp (snd (se_key (ur_sessions s ! i))) hostname payload)]\<rparr>))"
proof (rule udp_invI)
  let ?se = "(ur_sessions s ! i)\<lparr>se_queue := rest, se_forwarded := se_forwarded (ur_sessions s ! i) @ [payload]\<rparr>"
  let ?s = "set_session i ?se (s\<lparr>ur_upstream := ur_upstream s @ [(i, encode_socks5_udp (snd (se_key (ur_sessions s ! i))) hostname payload)]\<rparr>)"
  {
    fix k j assume "ur_map ?s k = Some j"
    then show "j < length (ur_sessions ?s) \<and> se_key (ur_sessions ?s ! j) = k"
      using udp_inv_map [OF assms(1), of k j] assms(2) by (cases "j = i") simp_all
  next
    fix j assume "j < length (ur_sessions ?s)"
    then show "session_ok (ur_received ?s) (ur_upstream ?s) j (ur_sessions ?s ! j)"
      using udp_inv_session [OF assms(1), of j] assms(2-4) by (cases "j = i") (auto simp: session_ok_def)
  next
    fix j assume "length (ur_sessions ?s) \<le> j"
    then show "sent_by (ur_upstream ?s) j = []" using udp_inv_fresh [OF assms(1), of j] assms(2) by simp
  next
    fix r assume "r \<in> set (ur_replies ?s)"
    then have "reply_ok s r" using udp_inv_reply [OF assms(1)] by simp
    moreover have "se_key ((ur_sessions s)[i := ?se] ! j) = se_key (ur_sessions s ! j)" for j
      using assms(2) by (cases "j = i") simp_all
    ultimately show "reply_ok ?s r" by (auto simp: reply_ok_def)
  }
qed

lemma udp_inv_deliver:
  assumes "udp_inv s" "i < length (ur_sessions s)"
  shows "udp_inv (deliver_reply (se_key (ur_sessions s ! i)) pkt ok (s\<lparr>ur_from_relay := ur_from_relay s @ [(i, pkt)]\<rparr>))"
proof -
  let ?s = "s\<lparr>ur_from_relay := ur_from_relay s @ [(i, pkt)]\<rparr>"
  have inv: "udp_inv ?s"
  proof (rule udp_invI)
    fix r assume "r \<in> set (ur_replies ?s)"
    then have "reply_ok s r" using udp_inv_reply [OF assms(1)] by simp
    then show "reply_ok ?s r" by (rule reply_ok_grow [of _ _ _ "[]"]) simp_all
  qed (use udp_inv_map [OF assms(1)] udp_inv_fresh [OF assms(1)] udp_inv_session [OF assms(1)] in simp_all)
  show ?thesis
  proof (cases "\<exists>off. socks5_udp_payload_offset pkt = Some (Some off) \<and> ok")
    case True
    then obtain off where off: "socks5_udp_payload_offset pkt = Some (Some off)" ok by blast
    let ?r = "(snd (se_key (ur_sessions s ! i)), fst (se_key (ur_sessions s ! i)), drop off pkt)"
    let ?t = "?s\<lparr>ur_replies := ur_replies s @ [?r]\<rparr>"
    have "reply_ok ?t ?r"
      using assms(2) off(1) unfolding reply_ok_def
      by (simp only: prod.case) (intro exI [of _ i] exI [of _ pkt] exI [of _ off], simp)
    moreover have "reply_ok ?t r" if "reply_ok ?s r" for r using that by (simp add: reply_ok_def)
    ultimately have "udp_inv ?t"
      using udp_inv_map [OF inv] udp_inv_fresh [OF inv] udp_inv_session [OF inv] udp_inv_reply [OF inv]
      by (intro udp_invI) auto
    then show ?thesis using off by (simp add: deliver_reply_def)
  next
    case False
    then show ?thesis using inv by (auto simp: deliver_reply_def split: option.splits)
  qed
qed

lemma udp_relay_inv_step:
  assumes "udp_inv s" "udp_relay_step e s = Some s'"
  shows "udp_inv s'"
proof (cases e)
  case (Datagram client orig_dst payload)
  then show ?thesis using assms udp_inv_dispatch by auto
next
  case (Associated i now table)
  then show ?thesis using assms udp_inv_phase [OF assms(1), of i] by (auto simp: Let_def split: if_splits)
next
  case (AssociationFails i)
  then show ?thesis using assms udp_inv_finish by (auto split: if_splits)
next
  case (TakePayload i ok)
  then show ?thesis using assms udp_inv_finish udp_inv_take [OF assms(1)]
    by (auto simp: Let_def split: if_splits session_phase.splits list.splits)
next
  case (ChannelClosed i)
  then show ?thesis using assms udp_inv_finish by (auto split: if_splits)
next
  case (FromRelay i r ok)
  then show ?thesis using assms udp_inv_finish udp_inv_deliver [OF assms(1)]
    by (auto simp: channel_quiet_def split: if_splits sum.splits)
next
  case (ControlRead i r)
  then show ?thesis using assms udp_inv_finish
    by (auto simp: channel_quiet_def split: if_splits sum.splits nat.splits)
next
  case (IdleTimeout i)
  then show ?thesis using assms udp_inv_finish by (auto simp: channel_quiet_def split: if_splits)
next
  case (RemoveKey i)
  then have i: "i < length (ur_sessions s)"
    and s': "s' = (set_session i ((ur_sessions s ! i)\<lparr>se_phase := Removed\<rparr>) s)
                \<lparr>ur_map := (ur_map s)(se_key (ur_sessions s ! i) := None)\<rparr>"
    using assms by (auto split: if_splits)
  have "udp_inv (set_session i ((ur_sessions s ! i)\<lparr>se_phase := Removed\<rparr>) s)"
    by (rule udp_inv_phase [OF assms(1) i]) simp_all
  from udp_inv_unmap [OF this] show ?thesis by (simp add: s')
qed

lemma udp_relay_inv_init: "udp_inv udp_relay_init"
  by (rule udp_invI) (simp_all add: udp_relay_init_def sent_by_def)

lemma udp_reachable_inv: "udp_reachable s \<Longrightarrow> udp_inv s"
  by (induction rule: udp_reachable.induct) (auto intro: udp_relay_inv_init udp_relay_inv_step)

section \<open>Properties\<close>

text \<open>
  C20. Flows never mix: a datagram that leaves to a client comes from a datagram of the relay of a session of
  exactly that client and that original destination, with only the header removed, and its source is
  that destination.  Each session sends on exactly the payloads of its own flow, each framed for its
  destination under one host name, in the order of arrival and none twice; what it was handed and has
  not sent is still in its channel.
\<close>

theorem udp_flows_isolated:
  assumes "udp_reachable s"
  shows "(\<forall>src dst payload. (src, dst, payload) \<in> set (ur_replies s) \<longrightarrow>
      (\<exists>i pkt off. i < length (ur_sessions s) \<and> se_key (ur_sessions s ! i) = (dst, src) \<and>
         (i, pkt) \<in> set (ur_from_relay s) \<and> socks5_udp_payload_offset pkt = Some (Some off) \<and> payload = drop off pkt)) \<and>
    (\<forall>i < length (ur_sessions s).
      let se = ur_sessions s ! i in
      (\<exists>hostname. map snd (filter (\<lambda>(j, _). j = i) (ur_upstream s)) =
         map (encode_socks5_udp (snd (se_key se)) hostname) (se_forwarded se)) \<and>
      subseq (se_forwarded se @ se_queue se) (map snd (filter (\<lambda>(k, _). k = se_key se) (ur_received s))))"
proof -
  have inv: "udp_inv s" using assms by (rule udp_reachable_inv)
  have "reply_ok s (src, dst, payload)" if "(src, dst, payload) \<in> set (ur_replies s)" for src dst payload
    using udp_inv_reply [OF inv that] .
  moreover have "session_ok (ur_received s) (ur_upstream s) i (ur_sessions s ! i)" if "i < length (ur_sessions s)" for i
    using udp_inv_session [OF inv that] .
  ultimately show ?thesis
    unfolding reply_ok_def session_ok_def sent_by_def flow_payloads_def Let_def prod.case by metis
qed

text \<open>A run of the relay: a list of events.\<close>

fun udp_relay_run :: "udp_event list \<Rightarrow> udp_relay \<Rightarrow> udp_relay option" where
  "udp_relay_run [] s = Some s"
| "udp_relay_run (e # es) s = (case udp_relay_step e s of None \<Rightarrow> None | Some s \<Rightarrow> udp_relay_run es s)"

lemma udp_relay_run_reachable:
  "udp_relay_run es s = Some s' \<Longrightarrow> udp_reachable s \<Longrightarrow> udp_reachable s'"
  by (induction es arbitrary: s) (auto split: option.splits, metis udp_reachable.step)

definition demo_client :: socket_addr where "demo_client = SockV4 (Ipv4 192 168 1 7) 50000"
definition demo_server :: socket_addr where "demo_server = SockV4 (Ipv4 192 0 2 1) 443"

definition demo_flow :: "udp_event list" where
  "demo_flow =
     [Datagram demo_client demo_server [1, 2], Associated 0 0 new_table, TakePayload 0 True,
      FromRelay 0 (Inr (encode_socks5_udp demo_server None [9])) True]"

lemma demo_flow_runs:
  "\<exists>s. udp_relay_run demo_flow udp_relay_init = Some s \<and> ur_replies s = [(demo_server, demo_client, [9])]"
proof -
  have "drop (length (encode_socks5_udp demo_server None [])) (encode_socks5_udp demo_server None [9]) = [9]"
    by (simp add: encode_socks5_udp_def)
  then show ?thesis
    by (simp add: demo_flow_def udp_relay_init_def dispatch_def new_session_def set_session_def channel_quiet_def
        deliver_reply_def payload_offset_encode Let_def)
qed

theorem udp_flows_isolated_witness:
  "\<exists>s. udp_relay_run demo_flow udp_relay_init = Some s \<and> length (ur_sessions s) \<noteq> 0 \<and>
    (\<exists>i pkt. se_key (ur_sessions s ! i) = (demo_client, demo_server) \<and> (i, pkt) \<in> set (ur_from_relay s))"
proof -
  obtain s where s: "udp_relay_run demo_flow udp_relay_init = Some s" "ur_replies s = [(demo_server, demo_client, [9])]"
    using demo_flow_runs by blast
  note props = udp_flows_isolated [OF udp_relay_run_reachable [OF s(1) udp_reachable.start]]
  have "(demo_server, demo_client, [9]) \<in> set (ur_replies s)" using s(2) by simp
  with props obtain i pkt where "i < length (ur_sessions s)" "se_key (ur_sessions s ! i) = (demo_client, demo_server)"
      "(i, pkt) \<in> set (ur_from_relay s)" by metis
  then show ?thesis using s(1) by (intro exI [of _ s]) auto
qed


lemma demo_session_state:
  "\<exists>s. udp_relay_run [Datagram demo_client demo_server [1], Associated 0 0 new_table] udp_relay_init = Some s \<and>
     ur_map s (demo_client, demo_server) = Some 0 \<and> session_alive (ur_sessions s ! 0) \<and> se_queue (ur_sessions s ! 0) = [[1]]"
  by (simp add: udp_relay_init_def dispatch_def new_session_def set_session_def session_alive_def Let_def)


end
