(* ===== verification/Machine.thy ===== *)
theory Machine
  imports Prelude
begin

text \<open>
  Machines whose events are partial functions on the state: what is reachable from an initial state, runs
  of given events, and the contract of an invariant, which the concurrent components of the program share;
  and sequences of system calls of which each may fail.
\<close>

text \<open>An event that can happen only when \<open>g\<close> holds.\<close>

definition guarded :: "bool \<Rightarrow> 's \<Rightarrow> 's option" where
  "guarded g s = (if g then Some s else None)"

lemma guarded_Some [simp]: "guarded g s = Some t \<longleftrightarrow> g \<and> t = s"
  by (auto simp: guarded_def)

lemma guarded_bind [simp]: "guarded g s \<bind> f = Some t \<longleftrightarrow> g \<and> f s = Some t"
  by (simp add: guarded_def)

inductive reachable :: "('e \<Rightarrow> 's \<Rightarrow> 's option) \<Rightarrow> 's \<Rightarrow> 's \<Rightarrow> bool" for step init where
  start: "reachable step init init"
| step: "reachable step init s \<Longrightarrow> step e s = Some s' \<Longrightarrow> reachable step init s'"

fun run_events :: "('e \<Rightarrow> 's \<Rightarrow> 's option) \<Rightarrow> 'e list \<Rightarrow> 's \<Rightarrow> 's option" where
  "run_events step [] s = Some s"
| "run_events step (e # es) s = (case step e s of None \<Rightarrow> None | Some s \<Rightarrow> run_events step es s)"

lemma run_events_reachable:
  "run_events step es s = Some s' \<Longrightarrow> reachable step init s \<Longrightarrow> reachable step init s'"
  by (induction es arbitrary: s) (auto split: option.splits intro: reachable.step)

lemma run_events_snoc:
  "run_events step (es @ [e]) s = (case run_events step es s of None \<Rightarrow> None | Some s \<Rightarrow> step e s)"
  by (induction es arbitrary: s) (auto split: option.splits)

locale machine_invariant =
  fixes step :: "'e \<Rightarrow> 's \<Rightarrow> 's option" and init :: 's and inv :: "'s \<Rightarrow> bool"
  assumes inv_init: "inv init"
    and inv_step: "inv s \<Longrightarrow> step e s = Some s' \<Longrightarrow> inv s'"
begin

lemma reachable_inv: "reachable step init s \<Longrightarrow> inv s"
  by (induction rule: reachable.induct) (auto intro: inv_init inv_step)

lemma run_inv: "run_events step es init = Some s \<Longrightarrow> inv s"
  using run_events_reachable reachable.start reachable_inv by metis

end

text \<open>A machine with a measure that every event but the idle ones decreases makes boundedly many steps.\<close>

locale machine_bounded = machine_invariant +
  fixes idle :: "'a \<Rightarrow> bool" and left :: "'b \<Rightarrow> nat"
  assumes left_step: "inv s \<Longrightarrow> step e s = Some s' \<Longrightarrow> \<not> idle e \<Longrightarrow> left s' < left s"
    and left_idle: "inv s \<Longrightarrow> step e s = Some s' \<Longrightarrow> idle e \<Longrightarrow> left s' \<le> left s"
begin

lemma run_bounded:
  "run_events step es s = Some s' \<Longrightarrow> inv s \<Longrightarrow> length (filter (\<lambda>e. \<not> idle e) es) + left s' \<le> left s"
proof (induction es arbitrary: s)
  case (Cons e es)
  then obtain t where t: "step e s = Some t" "run_events step es t = Some s'" by (auto split: option.splits)
  then have "length (filter (\<lambda>e. \<not> idle e) es) + left s' \<le> left t"
    using Cons inv_step by blast
  then show ?case using left_step [OF Cons.prems(2) t(1)] left_idle [OF Cons.prems(2) t(1)] by (cases "idle e") auto
qed simp

end

section \<open>Checked calls\<close>

text \<open>
  A kernel decides for each system call, from those before it, whether it succeeds.  \<open>checked\<close> makes the
  calls of a sequence until one fails, as code does that checks every call; the result is whether all
  succeeded, and the calls made.
\<close>

type_synonym 'c kernel = "'c list \<Rightarrow> 'c \<Rightarrow> bool"

fun checked :: "'c kernel \<Rightarrow> 'c list \<Rightarrow> 'c list \<Rightarrow> bool \<times> 'c list" where
  "checked k [] calls = (True, calls)"
| "checked k (c # cs) calls = (if k calls c then checked k cs (calls @ [c]) else (False, calls @ [c]))"

lemma checked_trace:
  "checked k cs calls = (ok, t) \<Longrightarrow> cs \<noteq> [] \<Longrightarrow>
   \<exists>pre. t = calls @ pre \<and> prefix pre cs \<and> (ok \<longleftrightarrow> k (calls @ butlast pre) (last pre) \<and> length pre = length cs)"
proof (induction cs arbitrary: calls)
  case (Cons c cs)
  show ?case
  proof (cases "k calls c \<and> cs \<noteq> []")
    case True
    then have "checked k cs (calls @ [c]) = (ok, t)" using Cons.prems by simp
    with Cons.IH [OF this] True obtain pre where pre: "t = (calls @ [c]) @ pre" "prefix pre cs"
      "ok \<longleftrightarrow> k ((calls @ [c]) @ butlast pre) (last pre) \<and> length pre = length cs" by blast
    show ?thesis
    proof (cases "pre = []")
      case True
      then have "\<not> ok" using pre(3) \<open>k calls c \<and> cs \<noteq> []\<close> by simp
      then show ?thesis using pre True \<open>k calls c \<and> cs \<noteq> []\<close> by (intro exI [of _ "[c]"]) simp
    next
      case False
      then show ?thesis using pre by (intro exI [of _ "c # pre"]) simp
    qed
  next
    case False
    then show ?thesis using Cons.prems by (intro exI [of _ "[c]"]) (auto split: if_splits)
  qed
qed simp

end
