(* ===== verification/Gateway.thy ===== *)
theory Gateway
  imports Config Machine
begin

text \<open>
  The advertisement of this machine as the default gateway, \<^verbatim>\<open>src/src/gateway.rs\<close>: reading the interface and
  the routing table, the ARP and router advertisement packets, the system calls that send them, and
  the ticks of the main loop.  What the operating system answers is an input.
\<close>

type_synonym mac = "u8 list"

datatype gateway_error =
    ReadFailed
  | InvalidMac
  | InvalidMacOctet
  | InvalidGateway
  | NoDefaultGateway
  | InvalidName
  | GetifaddrsFailed
  | NoLinkLocal
  | NoPrefix
  | NoLinkAddress

definition RA_INTERVAL_TICKS :: nat where "RA_INTERVAL_TICKS = 15"
definition RA_ROUTER_LIFETIME :: u16 where "RA_ROUTER_LIFETIME = 1800"

section \<open>Interface and routes\<close>

text \<open>\<open>from_str_radix(_, 16)\<close> of an unsigned type with \<open>bound\<close> values; a plus sign may come first.\<close>

fun parse_hex :: "nat \<Rightarrow> string \<Rightarrow> nat option" where
  "parse_hex acc [] = Some acc"
| "parse_hex acc (c # cs) =
     (case digit_value 16 c of None \<Rightarrow> None | Some d \<Rightarrow> parse_hex (16 * acc + d) cs)"

definition from_str_radix16 :: "nat \<Rightarrow> string \<Rightarrow> nat option" where
  "from_str_radix16 bound s =
     (let digits = (case s of c # cs \<Rightarrow> if c = CHR ''+'' then cs else s | [] \<Rightarrow> []) in
      if digits = [] then None
      else (case parse_hex 0 digits of Some n \<Rightarrow> if n < bound then Some n else None | None \<Rightarrow> None))"

fun parse_octets :: "string list \<Rightarrow> gateway_error + mac" where
  "parse_octets [] = Inr []"
| "parse_octets (p # ps) =
     (case from_str_radix16 256 p of
        None \<Rightarrow> Inl InvalidMacOctet
      | Some n \<Rightarrow> (case parse_octets ps of Inl e \<Rightarrow> Inl e | Inr bs \<Rightarrow> Inr (of_nat n # bs)))"

definition parse_mac :: "string \<Rightarrow> gateway_error + mac" where
  "parse_mac s =
     (let parts = split_on CHR '':'' s in
      if length parts \<noteq> 6 then Inl InvalidMac else parse_octets parts)"

definition get_mac_address :: "string option \<Rightarrow> gateway_error + mac" where
  "get_mac_address content = (case content of None \<Rightarrow> Inl ReadFailed | Some s \<Rightarrow> parse_mac (trim s))"

text \<open>
  On macOS the address comes from the first link-level entry of the interface: the bytes of its
  \<open>sdl_data\<close>, where the address follows the name of \<open>sdl_nlen\<close> bytes.  Reading beyond them is \<open>None\<close>.
\<close>

type_synonym link_entry = "string \<times> (nat \<times> bytes) option"

fun scan_links :: "string \<Rightarrow> link_entry list \<Rightarrow> mac option exec" where
  "scan_links name [] = Some None"
| "scan_links name ((n, link) # rest) =
     (case link of
        Some (nlen, data) \<Rightarrow>
          if n = name then do { mac \<leftarrow> slice data nlen (nlen + 6); Some (Some mac) } else scan_links name rest
      | None \<Rightarrow> scan_links name rest)"

definition get_mac_address_macos :: "link_entry list option \<Rightarrow> string \<Rightarrow> (gateway_error + mac) exec" where
  "get_mac_address_macos links name =
     (if char_of (0 :: nat) \<in> set name then Some (Inl InvalidName)
      else (case links of
              None \<Rightarrow> Some (Inl GetifaddrsFailed)
            | Some l \<Rightarrow> do {
                result \<leftarrow> scan_links name l;
                Some (case result of Some mac \<Rightarrow> Inr mac | None \<Rightarrow> Inl NoLinkAddress) }))"

text \<open>\<open>Ipv4Addr::from(gw.to_le_bytes())\<close>\<close>

definition ipv4_from_le :: "nat \<Rightarrow> ipv4" where
  "ipv4_from_le n =
     Ipv4 (of_nat (n mod 256)) (of_nat (n div 256 mod 256)) (of_nat (n div 65536 mod 256)) (of_nat (n div 16777216 mod 256))"

fun gateway_lines :: "string \<Rightarrow> string list \<Rightarrow> gateway_error + ipv4" where
  "gateway_lines iface [] = Inl NoDefaultGateway"
| "gateway_lines iface (line # lines) =
     (let fields = split_whitespace line in
      if length fields < 3 then gateway_lines iface lines
      else if fields ! 0 \<noteq> iface then gateway_lines iface lines
      else if fields ! 1 \<noteq> ''00000000'' then gateway_lines iface lines
      else (case from_str_radix16 4294967296 (fields ! 2) of
              None \<Rightarrow> Inl InvalidGateway
            | Some gw \<Rightarrow> Inr (ipv4_from_le gw)))"

definition parse_linux_default_gateway_ipv4 :: "string \<Rightarrow> string \<Rightarrow> gateway_error + ipv4" where
  "parse_linux_default_gateway_ipv4 iface route_table = gateway_lines iface (drop 1 (str_lines route_table))"

definition linux_default_gateway :: "string \<Rightarrow> string option \<Rightarrow> gateway_error + ipv4" where
  "linux_default_gateway iface content =
     (case content of None \<Rightarrow> Inl ReadFailed | Some s \<Rightarrow> parse_linux_default_gateway_ipv4 iface s)"

fun route_output_lines :: "string list \<Rightarrow> gateway_error + ipv4" where
  "route_output_lines [] = Inl NoDefaultGateway"
| "route_output_lines (line # lines) =
     (case strip_prefix ''gateway:'' (trim line) of
        Some gw \<Rightarrow> (case parse_ipv4 (trim gw) of Some a \<Rightarrow> Inr a | None \<Rightarrow> Inl InvalidGateway)
      | None \<Rightarrow> route_output_lines lines)"

definition macos_default_gateway :: "string option \<Rightarrow> gateway_error + ipv4" where
  "macos_default_gateway output =
     (case output of None \<Rightarrow> Inl ReadFailed | Some text \<Rightarrow> route_output_lines (str_lines text))"

definition ipv6_is_link_local :: "ipv6 \<Rightarrow> bool" where
  "ipv6_is_link_local a \<longleftrightarrow> ipv6_segments0 a AND 0xffc0 = 0xfe80"

fun scan_ipv6 :: "string \<Rightarrow> ifaddr list \<Rightarrow> ipv6 option \<Rightarrow> ipv6 option \<Rightarrow> ipv6 option \<times> ipv6 option" where
  "scan_ipv6 name [] link_local pre = (link_local, pre)"
| "scan_ipv6 name ((n, a) # rest) link_local pre =
     (if n = name then
        (case a of
           Some (IpV6 ip) \<Rightarrow>
             if ipv6_is_link_local ip then scan_ipv6 name rest (Some ip) pre
             else if ip \<noteq> ipv6_localhost \<and> \<not> ipv6_is_multicast ip then scan_ipv6 name rest link_local (Some ip)
             else scan_ipv6 name rest link_local pre
         | _ \<Rightarrow> scan_ipv6 name rest link_local pre)
      else scan_ipv6 name rest link_local pre)"

definition select_router_advertisement_addrs :: "ipv6 option \<Rightarrow> ipv6 option \<Rightarrow> gateway_error + ipv6 \<times> ipv6" where
  "select_router_advertisement_addrs link_local pre =
     (case link_local of
        None \<Rightarrow> Inl NoLinkLocal
      | Some ll \<Rightarrow> (case pre of None \<Rightarrow> Inl NoPrefix | Some pre \<Rightarrow> Inr (ll, pre)))"

definition get_interface_ipv6 :: "ifaddr list option \<Rightarrow> string \<Rightarrow> gateway_error + ipv6 \<times> ipv6" where
  "get_interface_ipv6 ifaddrs name =
     (if char_of (0 :: nat) \<in> set name then Inl InvalidName
      else (case ifaddrs of
              None \<Rightarrow> Inl GetifaddrsFailed
            | Some l \<Rightarrow> (case scan_ipv6 name l None None of (ll, pre) \<Rightarrow> select_router_advertisement_addrs ll pre)))"

section \<open>Packets\<close>

definition build_gratuitous_arp :: "mac \<Rightarrow> ipv4 \<Rightarrow> bytes" where
  "build_gratuitous_arp src_mac gateway_ip =
     (let ip = octets4 gateway_ip in
      replicate 6 0xff @ src_mac @ [0x08, 0x06] @
      [0x00, 0x01] @ [0x08, 0x00] @ [6] @ [4] @ [0x00, 0x02] @ src_mac @ ip @ replicate 6 0xff @ ip)"

definition build_router_advertisement :: "mac \<Rightarrow> ipv6 \<Rightarrow> bytes" where
  "build_router_advertisement src_mac pre =
     [134, 0] @ [0, 0] @
     [64, 0x08] @ be16 RA_ROUTER_LIFETIME @ be32 0 @ be32 0 @
     [1, 1] @ src_mac @
     [3, 4, 64, 0xc0] @ be32 2592000 @ be32 604800 @ be32 0 @ take 8 (octets6 pre) @ replicate 8 0"

section \<open>Sending\<close>

text \<open>
  The system calls of the two senders.  \<open>ifindex\<close> is what \<open>if_nametoindex\<close> answers, 0 for no such interface.
  \<open>CloseSocket\<close> releases the
  socket; the router advertisement sender owns it as an \<open>OwnedFd\<close>, which every return drops.
\<close>

datatype gw_call =
    OpenSocket string
  | OpenBpf nat
  | SetInterface string
  | WritePacket bytes
  | SetOption string nat
  | BindAddr ipv6 nat
  | SendTo bytes nat bytes
  | CloseSocket

definition all_nodes :: bytes where
  "all_nodes = octets6 (Ipv6 0xff02 0 0 0 0 0 0 1)"

definition send_arp_packet :: "gw_call kernel \<Rightarrow> nat \<Rightarrow> bytes \<Rightarrow> bool \<times> gw_call list" where
  "send_arp_packet k ifindex packet =
     (if ifindex = 0 then (False, [])
      else if \<not> k [] (OpenSocket ''AF_PACKET'') then (False, [])
      else
        let calls = [OpenSocket ''AF_PACKET'']; send = SendTo (replicate 6 0xff) ifindex packet in
        (k calls send, calls @ [send, CloseSocket]))"

text \<open>
  The sender of macOS opens the first of 256 BPF devices that it can, and binds it to the interface, whose
  name is cut to the size of its field.  A name with a NUL byte is refused only after the device was opened.
\<close>

fun open_bpf :: "gw_call kernel \<Rightarrow> nat list \<Rightarrow> gw_call list \<Rightarrow> bool \<times> gw_call list" where
  "open_bpf k [] calls = (False, calls)"
| "open_bpf k (i # is) calls =
     (if k calls (OpenBpf i) then (True, calls @ [OpenBpf i]) else open_bpf k is (calls @ [OpenBpf i]))"

definition IFNAMSIZ :: nat where "IFNAMSIZ = 16"

definition macos_send_arp_packet :: "gw_call kernel \<Rightarrow> string \<Rightarrow> bytes \<Rightarrow> bool \<times> gw_call list" where
  "macos_send_arp_packet k iface packet =
     (case open_bpf k [0..<256] [] of
        (False, calls) \<Rightarrow> (False, calls)
      | (True, calls) \<Rightarrow>
          if char_of (0 :: nat) \<in> set iface then (False, calls)
          else let ifr_name = take (min (length iface) (IFNAMSIZ - 1)) iface in
            (case checked k [SetInterface ifr_name, WritePacket packet] calls of
               (ok, calls) \<Rightarrow> (ok, calls @ [CloseSocket])))"

definition send_ra_packet :: "gw_call kernel \<Rightarrow> nat \<Rightarrow> ipv6 \<Rightarrow> bytes \<Rightarrow> bool \<times> gw_call list" where
  "send_ra_packet k ifindex src_addr packet =
     (if ifindex = 0 then (False, [])
      else if \<not> k [] (OpenSocket ''AF_INET6'') then (False, [])
      else
        case checked k [SetOption ''IPV6_MULTICAST_HOPS'' 255, SetOption ''IPV6_UNICAST_HOPS'' 255,
                        SetOption ''IPV6_MULTICAST_IF'' ifindex, BindAddr src_addr ifindex,
                        SendTo all_nodes ifindex packet] [OpenSocket ''AF_INET6''] of
          (ok, calls) \<Rightarrow> (ok, calls @ [CloseSocket]))"

section \<open>The main loop\<close>

record gateway =
  gw_arp :: bytes
  gw_link_local :: ipv6
  gw_ra :: "bytes option"

definition gateway_start ::
    "gateway_error + mac \<Rightarrow> gateway_error + ipv4 \<Rightarrow> gateway_error + ipv6 \<times> ipv6 \<Rightarrow> gateway_error + gateway" where
  "gateway_start mac_result gateway_result ipv6_result =
     (case mac_result of Inl e \<Rightarrow> Inl e | Inr mac \<Rightarrow>
     (case gateway_result of Inl e \<Rightarrow> Inl e | Inr gateway_ip \<Rightarrow>
      let (link_local, global) =
            (case ipv6_result of Inr addrs \<Rightarrow> addrs | Inl _ \<Rightarrow> (ipv6_unspecified, ipv6_unspecified));
          ra_enabled = (link_local \<noteq> ipv6_unspecified) in
      Inr \<lparr>gw_arp = build_gratuitous_arp mac gateway_ip, gw_link_local = link_local,
           gw_ra = (if ra_enabled then Some (build_router_advertisement mac global) else None)\<rparr>))"

datatype advert = Arp bytes | Ra ipv6 bytes

text \<open>What the tick with number \<open>tick_count\<close> sends; failures are logged and change nothing.\<close>

definition gateway_tick :: "gateway \<Rightarrow> nat \<Rightarrow> advert list" where
  "gateway_tick g tick_count =
     Arp (gw_arp g) #
     (case gw_ra g of
        Some ra \<Rightarrow> if tick_count mod RA_INTERVAL_TICKS = 0 then [Ra (gw_link_local g) ra] else []
      | None \<Rightarrow> [])"

fun gateway_loop :: "gateway \<Rightarrow> nat \<Rightarrow> nat \<Rightarrow> advert list" where
  "gateway_loop g tick_count 0 = []"
| "gateway_loop g tick_count (Suc n) = gateway_tick g (tick_count + 1) @ gateway_loop g (tick_count + 1) n"

section \<open>Specification of the packets\<close>

text \<open>
  A receiver of an ARP frame (RFC 826): destination and source of the frame, and the operation, sender
  and target of an Ethernet/IPv4 message.
\<close>

record arp_message =
  arp_eth_dst :: mac
  arp_eth_src :: mac
  arp_oper :: u16
  arp_sender :: "mac \<times> bytes"
  arp_target :: "mac \<times> bytes"

definition decode_arp :: "bytes \<Rightarrow> arp_message option" where
  "decode_arp p =
     (if length p = 42 \<and> take 2 (drop 12 p) = [0x08, 0x06] \<and> take 6 (drop 14 p) = [0, 1, 8, 0, 6, 4] then
        Some \<lparr>arp_eth_dst = take 6 p, arp_eth_src = take 6 (drop 6 p), arp_oper = u16_be (p ! 20) (p ! 21),
              arp_sender = (take 6 (drop 22 p), take 4 (drop 28 p)),
              arp_target = (take 6 (drop 32 p), take 4 (drop 38 p))\<rparr>
      else None)"

text \<open>
  A receiver of a router advertisement (RFC 4861): the fixed part, and the options, whose second byte is
  their length in units of eight bytes.  A malformed option makes the packet invalid.
\<close>

function ra_options :: "bytes \<Rightarrow> (u8 \<times> bytes) list option" where
  "ra_options p =
     (if p = [] then Some []
      else if length p < 2 \<or> p ! 1 = 0 \<or> length p < 8 * unat (p ! 1) then None
      else map_option ((#) (p ! 0, drop 2 (take (8 * unat (p ! 1)) p))) (ra_options (drop (8 * unat (p ! 1)) p)))"
  by pat_completeness auto
termination
  by (relation "measure length") (auto simp: unat_gt_0)

declare ra_options.simps [simp del]

definition decode_ra :: "bytes \<Rightarrow> (u8 \<times> u8 \<times> u16 \<times> (u8 \<times> bytes) list) option" where
  "decode_ra p =
     (if 16 \<le> length p \<and> p ! 0 = 134 \<and> p ! 1 = 0 then
        map_option (\<lambda>opts. (p ! 4, p ! 5, u16_be (p ! 6) (p ! 7), opts)) (ra_options (drop 16 p))
      else None)"

text \<open>The routing table as the kernel prints it: one line for each route, after a line of titles.\<close>

definition hex8 :: "nat \<Rightarrow> string" where
  "hex8 n = map (\<lambda>k. hex_digit_upper (n div 16 ^ k mod 16)) (rev [0..<8])"

definition ipv4_le :: "ipv4 \<Rightarrow> nat" where
  "ipv4_le a = (case a of Ipv4 a b c d \<Rightarrow> unat a + 256 * unat b + 65536 * unat c + 16777216 * unat d)"

abbreviation tab :: char where "tab \<equiv> CHR 0x09"

definition route_line :: "string \<times> ipv4 \<times> ipv4 \<times> string \<Rightarrow> string" where
  "route_line r =
     (case r of (iface, dest, gw, rest) \<Rightarrow>
        iface @ [tab] @ hex8 (ipv4_le dest) @ [tab] @ hex8 (ipv4_le gw) @ [tab] @ rest)"

definition route_table :: "string \<Rightarrow> (string \<times> ipv4 \<times> ipv4 \<times> string) list \<Rightarrow> string" where
  "route_table titles routes = concat (map (\<lambda>l. l @ [CHR ''\<newline>'']) (titles # map route_line routes))"

section \<open>Lemmas\<close>

lemma length_arp: "length mac = 6 \<Longrightarrow> length (build_gratuitous_arp mac ip) = 42"
  by (simp add: build_gratuitous_arp_def Let_def)

lemma decode_build_arp:
  assumes "length mac = 6"
  shows "decode_arp (build_gratuitous_arp mac ip) =
    Some \<lparr>arp_eth_dst = replicate 6 0xff, arp_eth_src = mac, arp_oper = 2,
          arp_sender = (mac, octets4 ip), arp_target = (replicate 6 0xff, octets4 ip)\<rparr>"
proof -
  obtain a b c d e f where mac: "mac = [a, b, c, d, e, f]"
    using assms by (auto simp: length_Suc_conv numeral_eq_Suc)
  obtain w x y z where ip: "ip = Ipv4 w x y z" by (cases ip)
  have "u16_be 0 2 = 2" by (simp add: u16_be_def)
  then show ?thesis
    by (simp add: decode_arp_def build_gratuitous_arp_def mac ip eval_nat_numeral)
qed

lemma ra_options_Nil [simp]: "ra_options [] = Some []"
  by (subst ra_options.simps) simp

text \<open>One option at the head.\<close>

lemma ra_options_Cons:
  "length (t # n # body) = 8 * unat n \<Longrightarrow> ra_options ((t # n # body) @ rest) = map_option ((#) (t, body)) (ra_options rest)"
proof -
  assume "length (t # n # body) = 8 * unat n"
  then have n: "8 * unat n = Suc (Suc (length body))" by simp
  then have "n \<noteq> 0" by auto
  then show ?thesis by (subst ra_options.simps) (simp add: n)
qed

lemma decode_ra_fixed:
  "decode_ra ([134, 0, 0, 0, hops, flags, a, b, 0, 0, 0, 0, 0, 0, 0, 0] @ opts) =
     map_option (\<lambda>opts. (hops, flags, u16_be a b, opts)) (ra_options opts)"
  by (simp add: decode_ra_def)

lemma be_constants:
  "be16 1800 = [7, 8]" "be32 2592000 = [0, 0x27, 0x8d, 0]" "be32 604800 = [0, 9, 0x3a, 0x80]" "be32 0 = [0, 0, 0, 0]"
  by (simp_all add: be16_def be32_def)

lemma decode_build_ra:
  assumes "length mac = 6"
  shows "decode_ra (build_router_advertisement mac pre) =
    Some (64, 8, 1800,
      [(1, mac), (3, [64, 0xc0] @ be32 2592000 @ be32 604800 @ be32 0 @ take 8 (octets6 pre) @ replicate 8 0)])"
proof -
  let ?body = "[64, 0xc0] @ be32 2592000 @ be32 604800 @ be32 0 @ take 8 (octets6 pre) @ replicate 8 0"
  have "ra_options ((3 # 4 # ?body) @ []) = Some [(3, ?body)]"
    by (subst ra_options_Cons) (simp_all add: min_def)
  then have "ra_options ((1 # 1 # mac) @ (3 # 4 # ?body)) = Some [(1, mac), (3, ?body)]"
    using assms by (subst ra_options_Cons) simp_all
  moreover have "build_router_advertisement mac pre =
      [134, 0, 0, 0, 64, 8, 7, 8, 0, 0, 0, 0, 0, 0, 0, 0] @ (1 # 1 # mac) @ (3 # 4 # ?body)"
    by (simp add: build_router_advertisement_def RA_ROUTER_LIFETIME_def be_constants)
  moreover have "u16_be 7 8 = 1800" by (simp add: u16_be_def)
  ultimately show ?thesis by (simp only: decode_ra_fixed option.map)
qed

end
