(* ===== verification/Gateway_Props.thy ===== *)
theory Gateway_Props
  imports Gateway
begin

text \<open>
  Properties of the gateway advertisement: the address and the route that it reads are the ones the
  system wrote, and what it sends means what it should.
\<close>

section \<open>Hexadecimal\<close>

lemma hex_digit_value:
  "d < 16 \<Longrightarrow> digit_value 16 (hex_digit d) = Some d" "d < 16 \<Longrightarrow> digit_value 16 (hex_digit_upper d) = Some d"
  by (auto simp: digit_value_def hex_value_def hex_digit_def hex_digit_upper_def is_digit_def)

lemma hex_digit_plain:
  "d < 16 \<Longrightarrow> hex_digit_upper d \<noteq> CHR ''+'' \<and> \<not> is_space (hex_digit_upper d) \<and> hex_digit_upper d \<noteq> CHR ''\<newline>''"
  "d < 16 \<Longrightarrow> hex_digit d \<noteq> CHR ''+'' \<and> hex_digit d \<noteq> CHR '':''"
proof -
  have "code (hex_digit_upper d) \<in> {48..57} \<union> {65..70}" if "d < 16"
    using that by (auto simp: hex_digit_upper_def digit_char_def)
  then show "d < 16 \<Longrightarrow> hex_digit_upper d \<noteq> CHR ''+'' \<and> \<not> is_space (hex_digit_upper d) \<and> hex_digit_upper d \<noteq> CHR ''\<newline>''"
    by (auto simp: is_space_def code_def)
  have "code (hex_digit d) \<in> {48..57} \<union> {97..102}" if "d < 16"
    using that by (auto simp: hex_digit_def digit_char_def)
  then show "d < 16 \<Longrightarrow> hex_digit d \<noteq> CHR ''+'' \<and> hex_digit d \<noteq> CHR '':''"
    by (auto simp: code_def)
qed

lemma parse_hex_digits:
  "parse_hex acc (map (\<lambda>k. hex_digit_upper (n div 16 ^ k mod 16)) (rev [0..<m])) = Some (acc * 16 ^ m + n mod 16 ^ m)"
proof (induction m arbitrary: acc)
  case (Suc m)
  have "n mod 16 ^ Suc m = 16 ^ m * (n div 16 ^ m mod 16) + n mod 16 ^ m"
    by (simp only: power_Suc2 mod_mult2_eq)
  then show ?case using Suc by (simp add: hex_digit_value algebra_simps)
qed simp

lemma rev_upt_8: "rev [0..<8] = [7, 6, 5, 4, 3, 2, 1, 0 :: nat]"
  by (simp add: upt_rec)

lemma hex8_Cons: "\<exists>c cs. hex8 n = c # cs \<and> c \<noteq> CHR ''+''"
  by (simp add: hex8_def rev_upt_8 hex_digit_plain)

lemma hex8_value: "n < 4294967296 \<Longrightarrow> from_str_radix16 4294967296 (hex8 n) = Some n"
  using parse_hex_digits [of 0 n 8] hex8_Cons [of n]
  by (auto simp: from_str_radix16_def hex8_def [symmetric])

lemma hex8_chars: "\<forall>c \<in> set (hex8 n). \<not> is_space c \<and> c \<noteq> CHR ''\<newline>''"
  by (auto simp: hex8_def hex_digit_plain)

lemma ipv4_le_less: "ipv4_le a < 4294967296"
proof (cases a)
  case (Ipv4 w x y z)
  then show ?thesis
    using unat_u8_less [of w] unat_u8_less [of x] unat_u8_less [of y] unat_u8_less [of z]
    unfolding Ipv4 ipv4_le_def ipv4.case by linarith
qed

lemma le_digits:
  fixes w x y z :: nat
  assumes "w < 256" "x < 256" "y < 256" "z < 256"
  shows "(w + 256 * x + 65536 * y + 16777216 * z) mod 256 = w"
    "(w + 256 * x + 65536 * y + 16777216 * z) div 256 mod 256 = x"
    "(w + 256 * x + 65536 * y + 16777216 * z) div 65536 mod 256 = y"
    "(w + 256 * x + 65536 * y + 16777216 * z) div 16777216 mod 256 = z"
proof -
  let ?n = "w + 256 * x + 65536 * y + 16777216 * z"
  have n: "?n = w + 256 * (x + 256 * (y + 256 * z))" by simp
  have 1: "?n div 256 = x + 256 * (y + 256 * z)" using assms(1) unfolding n by simp
  have "?n div 65536 = ?n div 256 div 256" by (simp add: div_mult2_eq [symmetric])
  then have 2: "?n div 65536 = y + 256 * z" using assms(2) unfolding 1 by simp
  show "?n mod 256 = w" using assms(1) unfolding n mod_mult_self2 by simp
  show "?n div 256 mod 256 = x" using assms(2) unfolding 1 mod_mult_self2 by simp
  show "?n div 65536 mod 256 = y" using assms(3) unfolding 2 mod_mult_self2 by simp
  have "?n div 16777216 = ?n div 65536 div 256" by (simp add: div_mult2_eq [symmetric])
  then show "?n div 16777216 mod 256 = z" using assms(3,4) unfolding 2 by simp
qed

lemma ipv4_from_le_le [simp]: "ipv4_from_le (ipv4_le a) = a"
proof (cases a)
  case (Ipv4 w x y z)
  then show ?thesis
    using le_digits [of "unat w" "unat x" "unat y" "unat z"] by (simp add: ipv4_from_le_def ipv4_le_def)
qed

lemma hex8_zero: "hex8 (ipv4_le a) = ''00000000'' \<longleftrightarrow> a = ipv4_unspecified"
proof
  have "hex8 0 = ''00000000''" by (simp add: hex8_def rev_upt_8 hex_digit_upper_def digit_char_def char_of_def bit_Suc_0_iff bit_numeral_rec)
  moreover have zero: "ipv4_le ipv4_unspecified = 0" by (simp add: ipv4_le_def ipv4_unspecified_def)
  ultimately show "a = ipv4_unspecified \<Longrightarrow> hex8 (ipv4_le a) = ''00000000''" by simp
  assume "hex8 (ipv4_le a) = ''00000000''"
  with \<open>hex8 0 = ''00000000''\<close> have "from_str_radix16 4294967296 (hex8 (ipv4_le a)) = from_str_radix16 4294967296 (hex8 0)" by simp
  then have "ipv4_le a = 0" using hex8_value [OF ipv4_le_less, of a] hex8_value [of 0] by simp
  then show "a = ipv4_unspecified" using zero ipv4_from_le_le by metis
qed

section \<open>Lines and fields\<close>

lemma split_ws_snoc: "is_space c \<Longrightarrow> split_ws cur (s @ [c]) = split_ws cur s"
  by (induction s arbitrary: cur) auto

lemma split_whitespace_strip_cr [simp]: "split_whitespace (strip_cr l) = split_whitespace l"
proof (cases "l \<noteq> [] \<and> last l = char_of (13 :: nat)")
  case True
  then have "l = strip_cr l @ [char_of (13 :: nat)]"
    unfolding strip_cr_def if_P [OF True] by (metis append_butlast_last_id)
  moreover have "is_space (char_of (13 :: nat))" by (simp add: is_space_def)
  ultimately show ?thesis using split_ws_snoc unfolding split_whitespace_def by metis
qed (auto simp: strip_cr_def)

definition good_route :: "string \<times> ipv4 \<times> ipv4 \<times> string \<Rightarrow> bool" where
  "good_route r \<longleftrightarrow>
     (case r of (iface, dest, gw, rest) \<Rightarrow>
        iface \<noteq> [] \<and> list_all (\<lambda>c. \<not> is_space c) iface \<and> CHR ''\<newline>'' \<notin> set rest)"

lemma tab_space: "is_space tab"
  by (simp add: is_space_def code_def)

lemma newline_space: "is_space CHR ''\<newline>''"
  by (simp add: is_space_def code_def)

lemma route_line_fields:
  assumes "good_route (iface, dest, gw, rest)"
  shows "split_whitespace (route_line (iface, dest, gw, rest)) =
    [iface, hex8 (ipv4_le dest), hex8 (ipv4_le gw)] @ split_whitespace rest"
proof -
  have "hex8 n \<noteq> []" for n using hex8_Cons [of n] by auto
  then show ?thesis
    using assms hex8_chars tab_space
    by (simp add: route_line_def split_whitespace_def split_ws_word good_route_def list_all_iff)
qed

lemma route_line_no_lf: "good_route r \<Longrightarrow> CHR ''\<newline>'' \<notin> set (route_line r)"
  using hex8_chars newline_space by (auto simp: route_line_def good_route_def list_all_iff split: prod.splits)

lemma split_on_lines:
  "\<forall>l \<in> set ls. sep \<notin> set l \<Longrightarrow> split_on sep (concat (map (\<lambda>l. l @ [sep]) ls)) = ls @ [[]]"
  by (induction ls) (simp_all add: split_on_Cons_append)

lemma str_lines_concat:
  "\<forall>l \<in> set ls. CHR ''\<newline>'' \<notin> set l \<Longrightarrow> str_lines (concat (map (\<lambda>l. l @ [CHR ''\<newline>'']) ls)) = map strip_cr ls"
  by (simp add: str_lines_def split_on_lines Let_def)

lemma gateway_lines_routes:
  "\<forall>r \<in> set routes. good_route r \<Longrightarrow>
   gateway_lines iface (map strip_cr (map route_line routes)) =
     (case find (\<lambda>(n, dest, gw, rest). n = iface \<and> dest = ipv4_unspecified) routes of
        Some (n, dest, gw, rest) \<Rightarrow> Inr gw | None \<Rightarrow> Inl NoDefaultGateway)"
proof (induction routes)
  case (Cons r routes)
  obtain n dest gw rest where r: "r = (n, dest, gw, rest)" by (cases r)
  then have fields: "split_whitespace (route_line r) = [n, hex8 (ipv4_le dest), hex8 (ipv4_le gw)] @ split_whitespace rest"
    using route_line_fields Cons.prems by simp
  show ?case
    using Cons fields hex8_value [OF ipv4_le_less, of gw] by (simp add: r hex8_zero Let_def)
qed simp

lemma parse_route_table:
  assumes "CHR ''\<newline>'' \<notin> set titles" "\<forall>r \<in> set routes. good_route r"
  shows "parse_linux_default_gateway_ipv4 iface (route_table titles routes) =
    (case find (\<lambda>(n, dest, gw, rest). n = iface \<and> dest = ipv4_unspecified) routes of
       Some (n, dest, gw, rest) \<Rightarrow> Inr gw | None \<Rightarrow> Inl NoDefaultGateway)"
proof -
  have "str_lines (route_table titles routes) = map strip_cr (titles # map route_line routes)"
    unfolding route_table_def using assms route_line_no_lf by (intro str_lines_concat) auto
  then show ?thesis
    using gateway_lines_routes [OF assms(2)] by (simp add: parse_linux_default_gateway_ipv4_def)
qed

section \<open>The MAC address\<close>

text \<open>The address as \<open>run\<close> logs it and the kernel prints it.\<close>

definition mac_str :: "mac \<Rightarrow> string" where
  "mac_str mac = join '':'' (map (\<lambda>b. [hex_digit (unat b div 16), hex_digit (unat b mod 16)]) mac)"

lemma hex_octet:
  "from_str_radix16 256 [hex_digit (unat (b :: u8) div 16), hex_digit (unat b mod 16)] = Some (unat b)"
proof -
  have d: "unat b div 16 < 16" "unat b mod 16 < 16" using unat_u8_less [of b] by (linarith, simp)
  then show ?thesis by (simp add: from_str_radix16_def hex_digit_plain hex_digit_value)
qed

lemma parse_octets_mac:
  "parse_octets (map (\<lambda>b. [hex_digit (unat b div 16), hex_digit (unat b mod 16)]) mac) = Inr mac"
  by (induction mac) (simp_all add: hex_octet)

lemma parse_mac_str: "length mac = 6 \<Longrightarrow> parse_mac (mac_str mac) = Inr mac"
proof -
  assume len: "length mac = 6"
  have d: "unat b div 16 < 16" "unat b mod 16 < 16" for b :: u8 using unat_u8_less [of b] by (linarith, simp)
  have no_colon: "CHR '':'' \<noteq> hex_digit (unat b div 16)" "CHR '':'' \<noteq> hex_digit (unat b mod 16)" for b :: u8
    using hex_digit_plain(2) [OF d(1) [of b]] hex_digit_plain(2) [OF d(2) [of b]] by metis+
  have "split_on CHR '':'' (mac_str mac) = map (\<lambda>b. [hex_digit (unat b div 16), hex_digit (unat b mod 16)]) mac"
    unfolding mac_str_def using len no_colon by (intro split_on_join) auto
  then show ?thesis using len by (simp add: parse_mac_def parse_octets_mac)
qed

lemma parse_octets_length: "parse_octets ps = Inr mac \<Longrightarrow> length mac = length ps"
  by (induction ps arbitrary: mac) (auto split: option.splits sum.splits)

lemma parse_mac_length: "parse_mac s = Inr mac \<Longrightarrow> length mac = 6"
  by (auto simp: parse_mac_def Let_def dest: parse_octets_length split: if_splits)

section \<open>The loop\<close>

definition is_arp :: "advert \<Rightarrow> bool" where
  "is_arp a = (case a of Arp _ \<Rightarrow> True | Ra _ _ \<Rightarrow> False)"

lemma gateway_loop_arps: "filter is_arp (gateway_loop g t n) = replicate n (Arp (gw_arp g))"
  by (induction n arbitrary: t) (simp_all add: gateway_tick_def is_arp_def split: option.split)

lemma multiples_step:
  fixes c t :: nat
  assumes "Suc t div m \<le> c"
  shows "c - t div m = (if Suc t mod m = 0 then 1 else 0) + (c - Suc t div m)"
  using assms unfolding div_Suc by (cases "Suc t mod m = 0") simp_all

lemma gateway_tick_ras:
  "gw_ra g = Some ra \<Longrightarrow>
   filter (\<lambda>a. \<not> is_arp a) (gateway_tick g t) =
     replicate (if t mod RA_INTERVAL_TICKS = 0 then 1 else 0) (Ra (gw_link_local g) ra)"
  by (simp add: gateway_tick_def is_arp_def)

lemma gateway_loop_ras:
  "filter (\<lambda>a. \<not> is_arp a) (gateway_loop g t n) =
     (case gw_ra g of None \<Rightarrow> []
      | Some ra \<Rightarrow> replicate ((t + n) div RA_INTERVAL_TICKS - t div RA_INTERVAL_TICKS) (Ra (gw_link_local g) ra))"
proof (cases "gw_ra g")
  case None
  then show ?thesis by (induction n arbitrary: t) (simp_all add: gateway_tick_def is_arp_def)
next
  case (Some ra)
  let ?m = RA_INTERVAL_TICKS and ?R = "Ra (gw_link_local g) ra"
  have "filter (\<lambda>a. \<not> is_arp a) (gateway_loop g t n) = replicate ((t + n) div ?m - t div ?m) ?R"
  proof (induction n arbitrary: t)
    case (Suc n)
    have le: "Suc t div ?m \<le> (t + Suc n) div ?m" by (rule div_le_mono) simp
    have "filter (\<lambda>a. \<not> is_arp a) (gateway_loop g t (Suc n)) =
        replicate (if Suc t mod ?m = 0 then 1 else 0) ?R @ replicate ((Suc t + n) div ?m - Suc t div ?m) ?R"
      using gateway_tick_ras [OF Some] Suc [of "Suc t"] by simp
    also have "\<dots> = replicate ((t + Suc n) div ?m - t div ?m) ?R"
      unfolding multiples_step [OF le] replicate_add by simp
    finally show ?case .
  qed simp
  then show ?thesis by (simp add: Some)
qed

section \<open>The addresses of the interface\<close>

definition ra_addrs_ok :: "ipv6 option \<Rightarrow> ipv6 option \<Rightarrow> bool" where
  "ra_addrs_ok ll pre \<longleftrightarrow>
     (\<forall>a. ll = Some a \<longrightarrow> ipv6_is_link_local a) \<and>
     (\<forall>a. pre = Some a \<longrightarrow> \<not> ipv6_is_link_local a \<and> \<not> ipv6_is_multicast a \<and> a \<noteq> ipv6_localhost)"

lemma scan_ipv6_ok: "ra_addrs_ok ll pre \<Longrightarrow> scan_ipv6 name addrs ll pre = (ll', pre') \<Longrightarrow> ra_addrs_ok ll' pre'"
proof (induction addrs arbitrary: ll pre)
  case (Cons e rest)
  obtain n a where e: "e = (n, a)" by (cases e)
  have link_local: "ra_addrs_ok (Some ip) pre" if "ipv6_is_link_local ip" for ip
    using Cons.prems(1) that by (simp add: ra_addrs_ok_def)
  have global: "ra_addrs_ok ll (Some ip)"
    if "\<not> ipv6_is_link_local ip" "ip \<noteq> ipv6_localhost \<and> \<not> ipv6_is_multicast ip" for ip
    using Cons.prems(1) that by (simp add: ra_addrs_ok_def)
  consider "n = name" "\<exists>ip. a = Some (IpV6 ip)" | "scan_ipv6 name rest ll pre = (ll', pre')"
    using Cons.prems(2) unfolding e by (cases "n = name"; cases a; cases "the a") auto
  then show ?case
  proof cases
    case 1
    then obtain ip where ip: "a = Some (IpV6 ip)" by blast
    then show ?thesis
      using Cons.prems Cons.IH link_local [of ip] global [of ip] 1(1) unfolding e
      by (simp split: if_splits)
  qed (use Cons in blast)
qed simp

lemma get_interface_ipv6_ok:
  "get_interface_ipv6 addrs name = Inr (ll, global) \<Longrightarrow>
   ipv6_is_link_local ll \<and> \<not> ipv6_is_link_local global \<and> \<not> ipv6_is_multicast global \<and> global \<noteq> ipv6_localhost"
proof -
  assume "get_interface_ipv6 addrs name = Inr (ll, global)"
  then obtain l where "scan_ipv6 name l None None = (Some ll, Some global)"
    by (auto simp: get_interface_ipv6_def select_router_advertisement_addrs_def split: if_splits option.splits prod.splits)
  from scan_ipv6_ok [OF _ this] show ?thesis by (simp add: ra_addrs_ok_def)
qed

lemma link_local_specified: "ipv6_is_link_local a \<Longrightarrow> a \<noteq> ipv6_unspecified"
  by (auto simp: ipv6_is_link_local_def ipv6_unspecified_def)

lemma mac_str_plain: "\<forall>c \<in> set (mac_str mac). \<not> is_space c"
proof -
  have no_space: "\<not> is_space (hex_digit d)" if "d < 16" for d
  proof -
    have "code (hex_digit d) \<in> {48..57} \<union> {97..102}" using that by (auto simp: hex_digit_def digit_char_def)
    then show ?thesis by (auto simp: is_space_def code_def)
  qed
  have d: "unat b div 16 < 16" "unat b mod 16 < 16" for b :: u8 using unat_u8_less [of b] by (linarith, simp)
  have "\<not> is_space (CHR '':'')" by (simp add: is_space_def code_def)
  then have "list_all (\<lambda>c. \<not> is_space c) (mac_str mac)"
    unfolding mac_str_def by (intro join_chars) (simp_all add: list_all_iff no_space [OF d(1)] no_space [OF d(2)])
  then show ?thesis by (simp add: list_all_iff)
qed

section \<open>Properties\<close>

text \<open>
  The gateway advertises the identity that the system reports.  The hardware address reads back from the
  text of \<^verbatim>\<open>/sys/class/net\<close>, and the default gateway is the one of the first default route of the
  interface in the table of \<^verbatim>\<open>/proc/net/route\<close>, its octets in the order of the address although the kernel prints
  them as a little-endian number.
\<close>

theorem gateway_identity:
  assumes "length mac = 6" "CHR ''\<newline>'' \<notin> set titles" "\<forall>r \<in> set routes. good_route r"
  shows "get_mac_address (Some (mac_str mac @ [CHR ''\<newline>''])) = Inr mac \<and>
    linux_default_gateway iface (Some (route_table titles routes)) =
      (case find (\<lambda>(n, dest, gw, rest). n = iface \<and> dest = ipv4_unspecified) routes of
         Some (n, dest, gw, rest) \<Rightarrow> Inr gw | None \<Rightarrow> Inl NoDefaultGateway)"
  using parse_mac_str [OF assms(1)] parse_route_table [OF assms(2,3)]
  by (simp add: get_mac_address_def linux_default_gateway_def trim_snoc_space [OF newline_space]
      trim_no_space [OF mac_str_plain])

theorem gateway_identity_witness:
  "linux_default_gateway ''wlan0'' (Some (route_table ''Iface''
     [(''eth0'', Ipv4 0 0 0 0, Ipv4 192 168 1 1, ''0003''), (''wlan0'', Ipv4 10 0 0 0, Ipv4 0 0 0 0, ''0001''),
      (''wlan0'', Ipv4 0 0 0 0, Ipv4 192 168 1 254, ''0003'')])) = Inr (Ipv4 192 168 1 254)"
  using gateway_identity [of "[0, 17, 34, 51, 68, 85]" "''Iface''"
      "[(''eth0'', Ipv4 0 0 0 0, Ipv4 192 168 1 1, ''0003''), (''wlan0'', Ipv4 10 0 0 0, Ipv4 0 0 0 0, ''0001''),
        (''wlan0'', Ipv4 0 0 0 0, Ipv4 192 168 1 254, ''0003'')]" "''wlan0''"]
  by (simp add: good_route_def is_space_def code_def ipv4_unspecified_def)

text \<open>
  C38. What is advertised is what a receiver should believe.  The ARP frame decodes as a broadcast reply that
  binds the gateway's address to this machine; router advertisements are sent exactly when the interface
  has a link-local and another usable IPv6 address, and decode with high preference, the lifetime of 1800
  seconds, this machine's hardware address and the /64 of the address.  Every tick sends the ARP frame, every fifteenth
  the advertisement too.
\<close>

theorem gateway_advertises:
  assumes "gateway_start (get_mac_address content) gateway_result (get_interface_ipv6 addrs iface) = Inr g"
  shows "\<exists>mac gateway_ip. get_mac_address content = Inr mac \<and> gateway_result = Inr gateway_ip \<and>
    decode_arp (gw_arp g) =
      Some \<lparr>arp_eth_dst = replicate 6 0xff, arp_eth_src = mac, arp_oper = 2,
            arp_sender = (mac, octets4 gateway_ip), arp_target = (replicate 6 0xff, octets4 gateway_ip)\<rparr> \<and>
    (case get_interface_ipv6 addrs iface of
       Inl _ \<Rightarrow> gw_ra g = None
     | Inr (link_local, global) \<Rightarrow>
         gw_link_local g = link_local \<and> ipv6_is_link_local link_local \<and> \<not> ipv6_is_multicast global \<and>
         map_option decode_ra (gw_ra g) =
           Some (Some (64, 0x08, 1800,
             [(1, mac), (3, [64, 0xc0] @ be32 2592000 @ be32 604800 @ be32 0 @ take 8 (octets6 global) @ replicate 8 0)]))) \<and>
    filter is_arp (gateway_loop g 0 n) = replicate n (Arp (gw_arp g)) \<and>
    filter (\<lambda>a. \<not> is_arp a) (gateway_loop g 0 n) =
      (case gw_ra g of None \<Rightarrow> [] | Some ra \<Rightarrow> replicate (n div 15) (Ra (gw_link_local g) ra))"
proof -
  obtain mac gateway_ip where mac: "get_mac_address content = Inr mac" and gw: "gateway_result = Inr gateway_ip"
    using assms by (auto simp: gateway_start_def split: sum.splits)
  then have len: "length mac = 6" by (auto simp: get_mac_address_def dest: parse_mac_length split: option.splits)
  have arp: "gw_arp g = build_gratuitous_arp mac gateway_ip"
    using assms by (auto simp: gateway_start_def mac gw Let_def split: prod.splits)
  have v6: "case get_interface_ipv6 addrs iface of
       Inl _ \<Rightarrow> gw_ra g = None
     | Inr (link_local, global) \<Rightarrow>
         gw_link_local g = link_local \<and> ipv6_is_link_local link_local \<and> \<not> ipv6_is_multicast global \<and>
         map_option decode_ra (gw_ra g) =
           Some (Some (64, 0x08, 1800,
             [(1, mac), (3, [64, 0xc0] @ be32 2592000 @ be32 604800 @ be32 0 @ take 8 (octets6 global) @ replicate 8 0)]))"
  proof (cases "get_interface_ipv6 addrs iface")
    case (Inl e)
    then show ?thesis using assms by (auto simp: gateway_start_def mac gw)
  next
    case (Inr r)
    obtain ll global where r: "r = (ll, global)" by (cases r)
    note ok = get_interface_ipv6_ok [OF Inr [unfolded r]]
    then have "ll \<noteq> ipv6_unspecified" using link_local_specified by blast
    then have "gw_link_local g = ll" "gw_ra g = Some (build_router_advertisement mac global)"
      using assms Inr r by (auto simp: gateway_start_def mac gw)
    then show ?thesis using ok decode_build_ra [OF len] by (simp add: Inr r)
  qed
  have "filter (\<lambda>a. \<not> is_arp a) (gateway_loop g 0 n) =
      (case gw_ra g of None \<Rightarrow> [] | Some ra \<Rightarrow> replicate (n div 15) (Ra (gw_link_local g) ra))"
    unfolding gateway_loop_ras by (simp add: RA_INTERVAL_TICKS_def split: option.split)
  then show ?thesis
    using mac gw v6 decode_build_arp [OF len] by (simp add: arp gateway_loop_arps)
qed

theorem gateway_advertises_witness:
  "\<exists>g. gateway_start (get_mac_address (Some (mac_str [0, 17, 34, 51, 68, 85] @ [CHR ''\<newline>'']))) (Inr (Ipv4 192 168 0 1))
        (get_interface_ipv6 None ''eth0'') = Inr g \<and>
     gw_ra g = None \<and> filter is_arp (gateway_loop g 0 2) = [Arp (gw_arp g), Arp (gw_arp g)]"
proof -
  have "get_mac_address (Some (mac_str [0, 17, 34, 51, 68, 85] @ [CHR ''\<newline>''])) = Inr [0, 17, 34, 51, 68, 85]"
    using parse_mac_str [of "[0, 17, 34, 51, 68, 85]"]
    by (simp add: get_mac_address_def trim_snoc_space [OF newline_space] trim_no_space [OF mac_str_plain])
  moreover have v6: "get_interface_ipv6 None ''eth0'' = Inl GetifaddrsFailed"
    by (simp add: get_interface_ipv6_def char_of_def)
  ultimately obtain g where g: "gateway_start (get_mac_address (Some (mac_str [0, 17, 34, 51, 68, 85] @ [CHR ''\<newline>''])))
      (Inr (Ipv4 192 168 0 1)) (get_interface_ipv6 None ''eth0'') = Inr g"
    by (simp add: gateway_start_def)
  from gateway_advertises [OF this, of 2] show ?thesis
    using g v6 by (auto simp: numeral_2_eq_2)
qed

lemma open_bpf_calls:
  "open_bpf k [m..<m + d] (map OpenBpf [0..<m]) = (ok, calls) \<Longrightarrow> \<exists>n \<le> m + d. calls = map OpenBpf [0..<n]"
proof (induction d arbitrary: m)
  case (Suc d)
  have upt: "[m..<m + Suc d] = m # [Suc m..<Suc m + d]" by (simp add: upt_conv_Cons)
  have snoc: "map OpenBpf [0..<m] @ [OpenBpf m] = map OpenBpf [0..<Suc m]" by simp
  show ?case
  proof (cases "k (map OpenBpf [0..<m]) (OpenBpf m)")
    case True
    then have "calls = map OpenBpf [0..<Suc m]" using Suc.prems unfolding upt by simp
    then show ?thesis by (intro exI [of _ "Suc m"]) simp
  next
    case False
    then have "open_bpf k [Suc m..<Suc m + d] (map OpenBpf [0..<Suc m]) = (ok, calls)"
      using Suc.prems unfolding upt by (simp add: snoc del: upt_Suc)
    then show ?thesis using Suc.IH [of "Suc m"] by simp
  qed
qed auto

lemma macos_arp_calls:
  "case macos_send_arp_packet k iface packet of (ok, calls) \<Rightarrow>
      (\<exists>n \<le> 256. calls = map OpenBpf [0..<n] \<and> \<not> ok) \<or>
      (\<exists>n \<le> 256. \<exists>steps. calls = map OpenBpf [0..<n] @ steps @ [CloseSocket] \<and>
         prefix steps [SetInterface (take 15 iface), WritePacket packet] \<and> (ok \<longrightarrow> length steps = 2))"
proof -
  obtain opened calls where bpf: "open_bpf k [0..<256] [] = (opened, calls)" by fastforce
  then obtain n where n: "n \<le> 256" "calls = map OpenBpf [0..<n]" using open_bpf_calls [of k 0 256] by auto
  have name: "take (min (length iface) (IFNAMSIZ - Suc 0)) iface = take 15 iface"
    by (simp add: IFNAMSIZ_def min_def)
  let ?steps = "[SetInterface (take 15 iface), WritePacket packet]"
  obtain ok t where checked: "checked k ?steps calls = (ok, t)" by fastforce
  with checked_trace [OF checked] obtain steps where "t = calls @ steps" "prefix steps ?steps"
      "ok \<longrightarrow> length steps = 2" by auto
  then show ?thesis
    using n by (cases opened) (auto simp: macos_send_arp_packet_def bpf name checked [unfolded n(2)] simp del: checked.simps)
qed

text \<open>
  No sender leaks its socket or sends a packet that receivers must discard.  Every call that opened a
  socket closes it, exactly once and last, whichever system call fails; the advertisement is only
  handed to the kernel after the hop limits were set to 255, the interface was chosen and the link-local
  source was bound; success means that it was sent.
\<close>

theorem gateway_sends_safely:
  "(case macos_send_arp_packet k iface packet of (ok, calls) \<Rightarrow>
      (\<exists>n \<le> 256. calls = map OpenBpf [0..<n] \<and> \<not> ok) \<or>
      (\<exists>n \<le> 256. \<exists>steps. calls = map OpenBpf [0..<n] @ steps @ [CloseSocket] \<and>
         prefix steps [SetInterface (take 15 iface), WritePacket packet] \<and> (ok \<longrightarrow> length steps = 2))) \<and>
   (case send_arp_packet k ifindex packet of (ok, calls) \<Rightarrow>
      calls = [] \<and> \<not> ok \<or>
      calls = [OpenSocket ''AF_PACKET'', SendTo (replicate 6 0xff) ifindex packet, CloseSocket] \<and> ifindex \<noteq> 0) \<and>
   (case send_ra_packet k ifindex src packet of (ok, calls) \<Rightarrow>
      calls = [] \<and> \<not> ok \<or>
      (\<exists>steps. calls = [OpenSocket ''AF_INET6''] @ steps @ [CloseSocket] \<and> ifindex \<noteq> 0 \<and>
         prefix steps [SetOption ''IPV6_MULTICAST_HOPS'' 255, SetOption ''IPV6_UNICAST_HOPS'' 255,
           SetOption ''IPV6_MULTICAST_IF'' ifindex, BindAddr src ifindex, SendTo all_nodes ifindex packet] \<and>
         (ok = (k ([OpenSocket ''AF_INET6''] @ butlast steps) (last steps) \<and> length steps = 5))))"
proof (intro conjI)
  show "case macos_send_arp_packet k iface packet of (ok, calls) \<Rightarrow>
      (\<exists>n \<le> 256. calls = map OpenBpf [0..<n] \<and> \<not> ok) \<or>
      (\<exists>n \<le> 256. \<exists>steps. calls = map OpenBpf [0..<n] @ steps @ [CloseSocket] \<and>
         prefix steps [SetInterface (take 15 iface), WritePacket packet] \<and> (ok \<longrightarrow> length steps = 2))"
    by (rule macos_arp_calls)
  show "case send_arp_packet k ifindex packet of (ok, calls) \<Rightarrow>
      calls = [] \<and> \<not> ok \<or>
      calls = [OpenSocket ''AF_PACKET'', SendTo (replicate 6 0xff) ifindex packet, CloseSocket] \<and> ifindex \<noteq> 0"
    by (simp add: send_arp_packet_def Let_def)
  let ?steps = "[SetOption ''IPV6_MULTICAST_HOPS'' 255, SetOption ''IPV6_UNICAST_HOPS'' 255,
           SetOption ''IPV6_MULTICAST_IF'' ifindex, BindAddr src ifindex, SendTo all_nodes ifindex packet]"
  obtain ok t where checked: "checked k ?steps [OpenSocket ''AF_INET6''] = (ok, t)" by (cases "checked k ?steps [OpenSocket ''AF_INET6'']")
  from checked_trace [OF this] obtain pre where "t = [OpenSocket ''AF_INET6''] @ pre" "prefix pre ?steps"
    "ok \<longleftrightarrow> k ([OpenSocket ''AF_INET6''] @ butlast pre) (last pre) \<and> length pre = 5" by (auto simp: eval_nat_numeral)
  then show "case send_ra_packet k ifindex src packet of (ok, calls) \<Rightarrow>
      calls = [] \<and> \<not> ok \<or>
      (\<exists>steps. calls = [OpenSocket ''AF_INET6''] @ steps @ [CloseSocket] \<and> ifindex \<noteq> 0 \<and>
         prefix steps ?steps \<and> (ok = (k ([OpenSocket ''AF_INET6''] @ butlast steps) (last steps) \<and> length steps = 5)))"
    unfolding send_ra_packet_def checked by simp
qed

end
