(* ===== verification/Proxy.thy ===== *)
theory Proxy
  imports Orig_Dest Sni Dns_Table Tunnel_Props
begin

text \<open>
  The handling of one redirected connection, \<open>handle_connection\<close> of \<^verbatim>\<open>src/src/proxy.rs\<close>: the original
  destination is recovered, a host name is looked for, the tunnel is opened, and what it already
  delivered is written to the client.  The relay that follows is in \<open>Relay\<close>.
\<close>

datatype conn_error = LocalAddrFailed | NoOriginalDest orig_dest_error | DialFailed | TunnelFailed tunnel_error | ClientWriteFailed

text \<open>
  What a connection meets: its addresses (\<open>None\<close> when \<open>local_addr()\<close> fails), the recovery of the
  destination from client, local and listen address, the peeks and whether the three seconds for the
  SNI run out first, the time of the table lookup, and the connection to the upstream for a proxy and
  a firewall mark.
\<close>

record conn_env =
  ce_client :: socket_addr
  ce_local :: "socket_addr option"
  ce_recover :: "socket_addr \<Rightarrow> socket_addr \<Rightarrow> socket_addr \<Rightarrow> orig_dest"
  ce_peeks :: "nat \<Rightarrow> bytes option"
  ce_sni_timeout :: bool
  ce_lookup_time :: nat
  ce_dial :: "upstream_proxy \<Rightarrow> u32 option \<Rightarrow> stream option"

definition sni_hostname :: "config \<Rightarrow> conn_env \<Rightarrow> socket_addr \<Rightarrow> string option exec" where
  "sni_hostname c env orig_dest =
     (if cf_sni c \<and> sock_port orig_dest = 443 then
        if ce_sni_timeout env then Some None
        else do { (_, r) \<leftarrow> extract_sni (ce_peeks env); Some (case r of Some h \<Rightarrow> h | None \<Rightarrow> None) }
      else Some None)"

definition connection_hostname ::
    "config \<Rightarrow> conn_env \<Rightarrow> dns_table \<Rightarrow> socket_addr \<Rightarrow> string option exec" where
  "connection_hostname c env table orig_dest = do {
     sni \<leftarrow> sni_hostname c env orig_dest;
     Some (case sni of Some h \<Rightarrow> Some h | None \<Rightarrow> table_lookup (ce_lookup_time env) table (sock_ip orig_dest)) }"

definition connection_fwmark :: "config \<Rightarrow> u32 option" where
  "connection_fwmark c = (if cf_local_traffic c then Some (cf_fwmark c) else None)"

text \<open>
  \<open>expect\<close> panics without an upstream.  The result is the client's stream and the upstream's stream as
  the relay gets them.
\<close>

definition handle_connection ::
    "config \<Rightarrow> conn_env \<Rightarrow> dns_table \<Rightarrow> stream \<Rightarrow> (conn_error + stream \<times> stream) exec" where
  "handle_connection c env table inbound =
     (case ce_local env of
        None \<Rightarrow> Some (Inl LocalAddrFailed)
      | Some local_addr \<Rightarrow>
          (case ce_recover env (ce_client env) local_addr (cf_listen_addr c) of
             Inl e \<Rightarrow> Some (Inl (NoOriginalDest e))
           | Inr orig_dest \<Rightarrow> do {
               hostname \<leftarrow> connection_hostname c env table orig_dest;
               proxy \<leftarrow> cf_upstream_proxy c;
               Some (case ce_dial env proxy (connection_fwmark c) of
                 None \<Rightarrow> Inl DialFailed
               | Some outbound \<Rightarrow>
                   (case connect_via_proxy proxy orig_dest hostname outbound of
                      (Error e, _) \<Rightarrow> Inl (TunnelFailed e)
                    | (Hang, _) \<Rightarrow> Inl DialFailed
                    | (Done leftover, outbound) \<Rightarrow>
                        if leftover = [] then Inr (inbound, outbound)
                        else (case io_write_all leftover inbound of
                                (Done _, inbound) \<Rightarrow> Inr (inbound, outbound)
                              | _ \<Rightarrow> Inl ClientWriteFailed))) }))"

section \<open>Lemmas\<close>

lemma sni_hostname_no_panic [no_panic]: "runs (sni_hostname c env dest)"
proof -
  have "runs (extract_sni (ce_peeks env))"
    unfolding extract_sni_def by (auto intro!: no_panic split: option.split)
  then show ?thesis by (auto simp: sni_hostname_def elim!: runsE split: prod.split)
qed

lemma connection_hostname_no_panic [no_panic]: "runs (connection_hostname c env table dest)"
  unfolding connection_hostname_def by (intro no_panic) simp_all

lemma connection_hostname_table:
  "\<not> cf_sni c \<or> sock_port dest \<noteq> 443 \<or> ce_sni_timeout env \<Longrightarrow>
     connection_hostname c env table dest = Some (table_lookup (ce_lookup_time env) table (sock_ip dest))"
  by (auto simp: connection_hostname_def sni_hostname_def)

lemma connection_hostname_sni:
  "cf_sni c \<Longrightarrow> sock_port dest = 443 \<Longrightarrow> \<not> ce_sni_timeout env \<Longrightarrow>
     extract_sni (ce_peeks env) = Some (n, Some (Some h)) \<Longrightarrow> connection_hostname c env table dest = Some (Some h)"
  by (simp add: connection_hostname_def sni_hostname_def)

lemma handle_connection_tunnel:
  assumes "ce_local env = Some local_addr"
    "ce_recover env (ce_client env) local_addr (cf_listen_addr c) = Inr dest"
    "connection_hostname c env table dest = Some hostname" "cf_upstream_proxy c = Some proxy"
    "ce_dial env proxy (connection_fwmark c) = Some outbound"
    "connect_via_proxy proxy dest hostname outbound = (Done leftover, outbound')" "s_wfail inbound = None"
  shows "handle_connection c env table inbound = Some (Inr (inbound\<lparr>s_out := s_out inbound @ leftover\<rparr>, outbound'))"
  using assms by (simp add: handle_connection_def)

text \<open>A connection for the examples.\<close>

definition demo_env :: conn_env where
  "demo_env =
     \<lparr>ce_client = SockV4 (Ipv4 192 168 1 7) 50000, ce_local = Some (SockV4 (Ipv4 192 168 1 1) 8443),
      ce_recover = (\<lambda>_ local_addr listen_addr.
        get_original_dest_linux (Some \<lparr>sin_port = port_to_be 22, sin_addr = (192, 0, 2, 1)\<rparr>) None local_addr listen_addr),
      ce_peeks = (\<lambda>_. None), ce_sni_timeout = False, ce_lookup_time = 0,
      ce_dial = (\<lambda>_ _. Some (stream_of [bytes_of (''HTTP/1.1 200 OK'' @ crlf @ crlf @ ''SSH'')]))\<rparr>"

lemma demo_accepts:
  "accepts_connect (in_bytes (stream_of [bytes_of (''HTTP/1.1 200 OK'' @ crlf @ crlf @ ''SSH'')])) 19"
  unfolding accepts_connect_def
proof (intro conjI exI)
  let ?b = "in_bytes (stream_of [bytes_of (''HTTP/1.1 200 OK'' @ crlf @ crlf @ ''SSH'')])"
  show "find_header_end ?b = Some 19" "19 \<le> MAX_RESPONSE_SIZE" by code_simp+
  show "from_utf8 (take 19 ?b) = Some (''HTTP/1.1 200 OK'' @ crlf @ crlf)" by code_simp
  show "parse_connect_response (''HTTP/1.1 200 OK'' @ crlf @ crlf) = Inr ()" by (rule parse_ok_response)
qed

lemma demo_recover:
  "ce_recover demo_env (ce_client demo_env) (SockV4 (Ipv4 192 168 1 1) 8443) (cf_listen_addr demo_config) =
     Inr (SockV4 (Ipv4 192 0 2 1) 22)"
  by (simp add: demo_env_def demo_config_def get_original_dest_linux_def is_v4_mapped_def get_original_dest_v4_def)

section \<open>Properties\<close>



text \<open>
  C16. Through an HTTP proxy no byte of the server's side is lost or reordered on the way to the relay:
  when the tunnel opens, what the client has been sent and what the relay will still read are
  together exactly the bytes after the proxy's response, however they were segmented.
\<close>

theorem handle_connection_no_byte_lost:
  assumes "ce_local env = Some local_addr"
    "ce_recover env (ce_client env) local_addr (cf_listen_addr c) = Inr dest"
    "cf_upstream_proxy c = Some proxy" "up_protocol proxy = HttpConnect"
    "ce_dial env proxy (connection_fwmark c) = Some outbound"
    "s_wfail inbound = None" "s_wfail outbound = None" "accepts_connect (in_bytes outbound) q"
  shows "\<exists>inbound' outbound'. handle_connection c env table inbound = Some (Inr (inbound', outbound')) \<and>
    s_out inbound' @ in_bytes outbound' = s_out inbound @ drop q (in_bytes outbound)"
proof -
  obtain hostname where h: "connection_hostname c env table dest = Some hostname"
    using connection_hostname_no_panic by (blast elim: runsE)
  from handshake_http_done [OF assms(7,8), of dest hostname] obtain l s' where
    l: "connect_via_proxy proxy dest hostname outbound = (Done l, s')" "l @ in_bytes s' = drop q (in_bytes outbound)"
    using assms(4) by (auto simp: connect_via_proxy_def)
  show ?thesis
    using handle_connection_tunnel [OF assms(1,2) h assms(3,5) l(1) assms(6)] l(2) by simp
qed

theorem handle_connection_no_byte_lost_witness:
  "\<exists>inbound' outbound'. handle_connection demo_config demo_env new_table (stream_of []) = Some (Inr (inbound', outbound')) \<and>
    s_out inbound' @ in_bytes outbound' = bytes_of ''SSH''"
proof -
  let ?us = "stream_of [bytes_of (''HTTP/1.1 200 OK'' @ crlf @ crlf @ ''SSH'')]"
  have "ce_local demo_env = Some (SockV4 (Ipv4 192 168 1 1) 8443)"
    "cf_upstream_proxy demo_config = Some \<lparr>up_protocol = HttpConnect, up_addr = SockV4 (Ipv4 10 0 0 9) 3128\<rparr>"
    "ce_dial demo_env \<lparr>up_protocol = HttpConnect, up_addr = SockV4 (Ipv4 10 0 0 9) 3128\<rparr> (connection_fwmark demo_config) = Some ?us"
    "s_wfail (stream_of []) = None" "s_wfail ?us = None" "drop 19 (in_bytes ?us) = bytes_of ''SSH''"
    "s_out (stream_of []) = []"
    by (simp_all add: demo_env_def demo_config_def stream_of_def del: in_bytes_stream_of) code_simp+
  moreover note demo_accepts demo_recover
  ultimately show ?thesis
    using handle_connection_no_byte_lost [of demo_env "SockV4 (Ipv4 192 168 1 1) 8443" demo_config
        "SockV4 (Ipv4 192 0 2 1) 22" "\<lparr>up_protocol = HttpConnect, up_addr = SockV4 (Ipv4 10 0 0 9) 3128\<rparr>" ?us
        "stream_of []" 19 new_table]
    by simp
qed

end
