(* ===== verification/Firewall.thy ===== *)
theory Firewall
  imports Config Orig_Dest
begin

text \<open>
  The platform-independent part of the firewall, \<^verbatim>\<open>src/src/firewall/mod.rs\<close>: its configuration and the
  decisions it makes (which UDP ports carry QUIC, where intercepted DNS goes), the addresses of an
  interface, and the running of external commands.
\<close>

section \<open>Configuration\<close>

record interface_addrs =
  ia_ipv4 :: "ipv4 option"
  ia_ipv6 :: "ipv6 option"

record firewall_config =
  fc_interface :: string
  fc_proxy_port :: u16
  fc_fwmark :: "u32 option"
  fc_upstream_addr :: "socket_addr option"
  fc_ports :: "u16 list option"
  fc_dns_listen :: "socket_addr option"
  fc_block_quic :: bool
  fc_proxy_udp :: bool

definition from_config :: "ifaddr list option \<Rightarrow> config \<Rightarrow> firewall_config" where
  "from_config ifaddrs c =
     \<lparr>fc_interface = cf_interface c,
      fc_proxy_port = sock_port (cf_listen_addr c),
      fc_fwmark = (if cf_local_traffic c then Some (cf_fwmark c) else None),
      fc_upstream_addr = (if cf_local_traffic c then map_option up_addr (cf_upstream_proxy c) else None),
      fc_ports = cf_ports c,
      fc_dns_listen = resolve_dns_listen ifaddrs c,
      fc_block_quic = (\<not> cf_allow_quic c),
      fc_proxy_udp = proxy_udp_enabled c\<rparr>"

text \<open>Ports as text.\<close>

lemma dec_port_eq: "dec (unat (p :: u16)) = dec (unat q) \<longleftrightarrow> p = q"
  by (metis dec_inj unsigned_word_eqI)

lemma dec_well_known [simp]: "dec 53 = ''53''" "dec 22 = ''22''"
  by code_simp+

definition quic_block_ports :: "firewall_config \<Rightarrow> u16 list" where
  "quic_block_ports fc =
     (if \<not> fc_block_quic fc then []
      else (case fc_ports fc of Some ports \<Rightarrow> filter (\<lambda>p. p \<noteq> 53) ports | None \<Rightarrow> [443]))"

definition dns_target_v4 :: "firewall_config \<Rightarrow> ipv4 option \<Rightarrow> (ipv4 \<times> u16) option" where
  "dns_target_v4 fc iface_v4 =
     (case fc_dns_listen fc of
        None \<Rightarrow> None
      | Some listen \<Rightarrow>
          (case sock_ip listen of
             IpV4 ip \<Rightarrow>
               if ip \<noteq> ipv4_unspecified then Some (ip, sock_port listen)
               else map_option (\<lambda>ip. (ip, sock_port listen)) iface_v4
           | IpV6 ip \<Rightarrow>
               if ip = ipv6_unspecified then map_option (\<lambda>ip. (ip, sock_port listen)) iface_v4 else None))"

definition dns_target_v6 :: "firewall_config \<Rightarrow> ipv6 option \<Rightarrow> (ipv6 \<times> u16) option" where
  "dns_target_v6 fc iface_v6 =
     (case fc_dns_listen fc of
        None \<Rightarrow> None
      | Some listen \<Rightarrow>
          (case sock_ip listen of
             IpV6 ip \<Rightarrow>
               if ip \<noteq> ipv6_unspecified then Some (ip, sock_port listen)
               else map_option (\<lambda>ip. (ip, sock_port listen)) iface_v6
           | IpV4 _ \<Rightarrow> None))"

fun scan_interface_ips :: "string \<Rightarrow> ifaddr list \<Rightarrow> interface_addrs \<Rightarrow> interface_addrs" where
  "scan_interface_ips name [] addrs = addrs"
| "scan_interface_ips name ((n, a) # rest) addrs =
     scan_interface_ips name rest
       (if n = name then
          (case a of
             Some (IpV4 x) \<Rightarrow> if ia_ipv4 addrs = None then addrs\<lparr>ia_ipv4 := Some x\<rparr> else addrs
           | Some (IpV6 x) \<Rightarrow> if ia_ipv6 addrs = None \<and> ipv6_usable x then addrs\<lparr>ia_ipv6 := Some x\<rparr> else addrs
           | None \<Rightarrow> addrs)
        else addrs)"

definition get_interface_ips :: "ifaddr list option \<Rightarrow> string \<Rightarrow> interface_addrs" where
  "get_interface_ips ifaddrs name =
     (let none = \<lparr>ia_ipv4 = None, ia_ipv6 = None\<rparr> in
      if char_of (0 :: nat) \<in> set name then none
      else (case ifaddrs of None \<Rightarrow> none | Some l \<Rightarrow> scan_interface_ips name l none))"

section \<open>External commands\<close>

text \<open>
  A command is a program with its arguments.  The commands run so far, with whether each succeeded, are
  the state; a world decides the outcome of the next command from them.
\<close>

type_synonym command = "string \<times> string list"
type_synonym shell = "(command \<times> bool) list"
type_synonym world = "shell \<Rightarrow> command \<Rightarrow> bool"
type_synonym cmd_result = "(command + unit) \<times> shell"

definition run_cmd :: "world \<Rightarrow> command \<Rightarrow> shell \<Rightarrow> cmd_result" where
  "run_cmd w c s = (if w s c then (Inr (), s @ [(c, True)]) else (Inl c, s @ [(c, False)]))"

definition run_cmd_ignore :: "world \<Rightarrow> command \<Rightarrow> shell \<Rightarrow> shell" where
  "run_cmd_ignore w c s = s @ [(c, w s c)]"

text \<open>\<open>?\<close> between commands, and a sequence of \<open>run_cmd(..)?\<close>.\<close>

definition cmd_then :: "('e + unit) \<times> 's \<Rightarrow> ('s \<Rightarrow> ('e + unit) \<times> 's) \<Rightarrow> ('e + unit) \<times> 's" where
  "cmd_then r f = (case r of (Inl c, s) \<Rightarrow> (Inl c, s) | (Inr _, s) \<Rightarrow> f s)"

fun run_all :: "world \<Rightarrow> command list \<Rightarrow> shell \<Rightarrow> cmd_result" where
  "run_all w [] s = (Inr (), s)"
| "run_all w (c # cs) s = cmd_then (run_cmd w c s) (run_all w cs)"

fun run_all_ignore :: "world \<Rightarrow> command list \<Rightarrow> shell \<Rightarrow> shell" where
  "run_all_ignore w [] s = s"
| "run_all_ignore w (c # cs) s = run_all_ignore w cs (run_cmd_ignore w c s)"

lemma cmd_then_simps [simp]: "cmd_then (Inl c, s) f = (Inl c, s)" "cmd_then (Inr u, s) f = f s"
  by (simp_all add: cmd_then_def)

lemma cmd_then_Inr:
  "cmd_then r f = (Inr u, t) \<longleftrightarrow> (\<exists>s. r = (Inr (), s) \<and> f s = (Inr u, t))"
  by (cases r; cases "fst r") auto

lemma run_cmd_Inr: "run_cmd w c s = (Inr u, t) \<longleftrightarrow> w s c \<and> t = s @ [(c, True)]"
  by (auto simp: run_cmd_def)

text \<open>A sequence that succeeded has run all its commands.\<close>

lemma run_all_Inr: "run_all w cs s = (Inr u, t) \<Longrightarrow> t = s @ map (\<lambda>c. (c, True)) cs"
  by (induction cs arbitrary: s) (fastforce simp: cmd_then_Inr run_cmd_Inr)+

text \<open>What has run stays in the log.\<close>

lemma run_cmd_grows: "\<exists>l. snd (run_cmd w c s) = s @ l"
  by (simp add: run_cmd_def)

lemma run_all_grows: "\<exists>l. snd (run_all w cs s) = s @ l"
proof (induction cs arbitrary: s)
  case (Cons c cs)
  then obtain l where "snd (run_all w cs (s @ [(c, True)])) = (s @ [(c, True)]) @ l" by blast
  then show ?case by (simp add: run_cmd_def)
qed simp

lemma run_all_ignore_grows: "\<exists>l. run_all_ignore w cs s = s @ l"
proof (induction cs arbitrary: s)
  case (Cons c cs)
  then obtain l where "run_all_ignore w cs (s @ [(c, w s c)]) = (s @ [(c, w s c)]) @ l" by blast
  then show ?case by (simp add: run_cmd_ignore_def)
qed simp

section \<open>Properties\<close>

text \<open>
  What the firewall intercepts follows from the options alone: no UDP port is blocked or diverted when
  QUIC is allowed, port 53 never is, and with a port list every other listed port is; DNS is diverted
  only to a forwarder that can receive it, under the port it listens on, and not at all when the
  forwarder is off; an unspecified target is never used.
\<close>

theorem firewall_policy:
  "(cf_allow_quic c \<longrightarrow> quic_block_ports (from_config ifaddrs c) = []) \<and>
   53 \<notin> set (quic_block_ports (from_config ifaddrs c)) \<and>
   (\<not> cf_allow_quic c \<and> cf_ports c = Some ports \<and> p \<in> set ports \<and> p \<noteq> 53 \<longrightarrow>
      p \<in> set (quic_block_ports (from_config ifaddrs c))) \<and>
   (\<not> cf_allow_quic c \<and> cf_ports c = None \<longrightarrow> quic_block_ports (from_config ifaddrs c) = [443]) \<and>
   (cf_dns_listen c = None \<and> \<not> cf_dns c \<longrightarrow>
      dns_target_v4 (from_config ifaddrs c) v4 = None \<and> dns_target_v6 (from_config ifaddrs c) v6 = None) \<and>
   (cf_dns_listen c = Some listen \<longrightarrow>
      (\<forall>ip port. dns_target_v4 (from_config ifaddrs c) v4 = Some (ip, port) \<longrightarrow>
         port = sock_port listen \<and> (sock_ip listen = IpV4 ip \<or> ip_is_unspecified (sock_ip listen) \<and> v4 = Some ip)) \<and>
      (\<forall>ip port. dns_target_v6 (from_config ifaddrs c) v6 = Some (ip, port) \<longrightarrow>
         port = sock_port listen \<and> (sock_ip listen = IpV6 ip \<or> sock_ip listen = IpV6 ipv6_unspecified \<and> v6 = Some ip)))"
  by (auto simp: quic_block_ports_def from_config_def dns_target_v4_def dns_target_v6_def resolve_dns_listen_def
      split: option.splits ip_addr.splits if_splits)

theorem firewall_policy_witness:
  "443 \<in> set (quic_block_ports (from_config None (demo_config\<lparr>cf_ports := Some [53, 443]\<rparr>))) \<and>
   53 \<notin> set (quic_block_ports (from_config None (demo_config\<lparr>cf_ports := Some [53, 443]\<rparr>)))"
proof -
  have "\<not> cf_allow_quic demo_config" by (simp add: demo_config_def)
  then show ?thesis
    using firewall_policy [of "demo_config\<lparr>cf_ports := Some [53, 443]\<rparr>" None "[53, 443]" 443] by simp
qed

end
