(* ===== verification/Nftables.thy ===== *)
theory Nftables
  imports Firewall
begin

text \<open>
  The Linux firewall, \<^verbatim>\<open>src/src/firewall/nftables.rs\<close>: the commands that \<open>setup\<close> and \<open>teardown\<close> run, in
  their order and with their error handling.  A rule is its argument list after the chain name.
\<close>

section \<open>Commands\<close>

datatype nft_family = Ip | Ip6

fun nft_table :: "nft_family \<Rightarrow> string" where
  "nft_table Ip = ''ip''"
| "nft_table Ip6 = ''ip6''"

definition delete_table :: "nft_family \<Rightarrow> command" where
  "delete_table fam = (''nft'', [''delete'', ''table'', nft_table fam, ''trans_proxy''])"

definition add_table :: "nft_family \<Rightarrow> command" where
  "add_table fam = (''nft'', [''add'', ''table'', nft_table fam, ''trans_proxy''])"

definition add_chain :: "nft_family \<Rightarrow> string \<Rightarrow> string \<Rightarrow> command" where
  "add_chain fam chain spec = (''nft'', [''add'', ''chain'', nft_table fam, ''trans_proxy'', chain, spec])"

definition add_rule :: "nft_family \<Rightarrow> string \<Rightarrow> string list \<Rightarrow> command" where
  "add_rule fam chain body = (''nft'', [''add'', ''rule'', nft_table fam, ''trans_proxy'', chain] @ body)"

definition sysctl :: "string \<Rightarrow> command" where
  "sysctl setting = (''sysctl'', [''-w'', setting])"

section \<open>Redirection of TCP and DNS\<close>

text \<open>
  The rules of the two NAT chains, which are written out once for each family in the source:
  \<open>dns_target\<close> is where DNS goes, \<open>addr\<close> the address of the interface in that family.
\<close>

definition prerouting_bodies ::
    "nft_family \<Rightarrow> string \<Rightarrow> string option \<Rightarrow> u16 list option \<Rightarrow> string option \<Rightarrow> string \<Rightarrow> string list list" where
  "prerouting_bodies fam iface dns_target ports addr port_str =
     (case dns_target of
        Some dns_target \<Rightarrow>
          [[''iifname'', iface, ''udp'', ''dport'', ''53'', ''dnat'', ''to'', dns_target],
           [''iifname'', iface, ''tcp'', ''dport'', ''53'', ''dnat'', ''to'', dns_target]]
      | None \<Rightarrow> []) @
     (case ports of
        Some ports \<Rightarrow>
          map (\<lambda>p. [''iifname'', iface, ''tcp'', ''dport'', dec (unat p), ''redirect'', ''to'', '':'' @ port_str]) ports
      | None \<Rightarrow>
          (case addr of
             Some ip_str \<Rightarrow>
               [[''iifname'', iface, nft_table fam, ''daddr'', ip_str, ''tcp'', ''dport'', ''22'', ''return'']]
           | None \<Rightarrow> []) @
          [[''iifname'', iface, ''fib'', ''daddr'', ''type'', ''local'', ''return''],
           [''iifname'', iface, ''meta'', ''l4proto'', ''tcp'', ''redirect'', ''to'', '':'' @ port_str]])"

definition upstream_exclusion_body :: "nft_family \<Rightarrow> socket_addr \<Rightarrow> string list option" where
  "upstream_exclusion_body fam upstream =
     (let body = (\<lambda>keyword. [keyword, ''daddr'', ip_display (sock_ip upstream), ''tcp'', ''dport'',
                              dec (unat (sock_port upstream)), ''return'']) in
      case (fam, sock_ip upstream) of
        (Ip, IpV4 _) \<Rightarrow> Some (body ''ip'')
      | (Ip6, IpV6 _) \<Rightarrow> Some (body ''ip6'')
      | _ \<Rightarrow> None)"

definition output_bodies ::
    "nft_family \<Rightarrow> u32 \<Rightarrow> socket_addr option \<Rightarrow> u16 list option \<Rightarrow> string option \<Rightarrow> string \<Rightarrow> string list list" where
  "output_bodies fam fwmark upstream ports addr port_str =
     [[''meta'', ''mark'', dec (unat fwmark), ''return'']] @
     (case upstream of
        Some u \<Rightarrow> (case upstream_exclusion_body fam u of Some body \<Rightarrow> [body] | None \<Rightarrow> [])
      | None \<Rightarrow> []) @
     [[''fib'', ''daddr'', ''type'', ''local'', ''return'']] @
     (case ports of
        Some ports \<Rightarrow> map (\<lambda>p. [''tcp'', ''dport'', dec (unat p), ''redirect'', ''to'', '':'' @ port_str]) ports
      | None \<Rightarrow>
          (case addr of
             Some ip_str \<Rightarrow> [[nft_table fam, ''daddr'', ip_str, ''tcp'', ''dport'', ''22'', ''return'']]
           | None \<Rightarrow> []) @
          [[''meta'', ''l4proto'', ''tcp'', ''redirect'', ''to'', '':'' @ port_str]])"

definition prerouting_commands :: "nft_family \<Rightarrow> string list list \<Rightarrow> command list" where
  "prerouting_commands fam bodies =
     [add_table fam, add_chain fam ''prerouting'' ''{ type nat hook prerouting priority -100 ; }''] @
     map (add_rule fam ''prerouting'') bodies"

definition output_commands :: "nft_family \<Rightarrow> string list list \<Rightarrow> command list" where
  "output_commands fam bodies =
     add_chain fam ''output'' ''{ type nat hook output priority -100 ; }'' # map (add_rule fam ''output'') bodies"

text \<open>The two families.\<close>

definition prerouting_v4 :: "firewall_config \<Rightarrow> interface_addrs \<Rightarrow> string list list" where
  "prerouting_v4 fc addrs =
     prerouting_bodies Ip (fc_interface fc)
       (map_option (\<lambda>(ip, port). ipv4_display ip @ '':'' @ dec (unat port)) (dns_target_v4 fc (ia_ipv4 addrs)))
       (fc_ports fc) (map_option ipv4_display (ia_ipv4 addrs)) (dec (unat (fc_proxy_port fc)))"

definition prerouting_v6 :: "firewall_config \<Rightarrow> interface_addrs \<Rightarrow> string list list" where
  "prerouting_v6 fc addrs =
     prerouting_bodies Ip6 (fc_interface fc)
       (map_option (\<lambda>(ip, port). ''['' @ ipv6_display ip @ '']:'' @ dec (unat port)) (dns_target_v6 fc (ia_ipv6 addrs)))
       (fc_ports fc) (map_option ipv6_display (ia_ipv6 addrs)) (dec (unat (fc_proxy_port fc)))"

definition output_v4 :: "firewall_config \<Rightarrow> interface_addrs \<Rightarrow> command list" where
  "output_v4 fc addrs =
     (case fc_fwmark fc of
        None \<Rightarrow> []
      | Some fwmark \<Rightarrow>
          output_commands Ip (output_bodies Ip fwmark (fc_upstream_addr fc) (fc_ports fc)
            (map_option ipv4_display (ia_ipv4 addrs)) (dec (unat (fc_proxy_port fc)))))"

definition output_v6 :: "firewall_config \<Rightarrow> interface_addrs \<Rightarrow> command list" where
  "output_v6 fc addrs =
     (case fc_fwmark fc of
        None \<Rightarrow> []
      | Some fwmark \<Rightarrow>
          output_commands Ip6 (output_bodies Ip6 fwmark (fc_upstream_addr fc) (fc_ports fc)
            (map_option ipv6_display (ia_ipv6 addrs)) (dec (unat (fc_proxy_port fc)))))"

section \<open>QUIC\<close>

definition TPROXY_MARK :: string where "TPROXY_MARK = ''0x40000000''"
definition TPROXY_MASK :: string where "TPROXY_MASK = ''0x40000000''"
definition TPROXY_TABLE :: string where "TPROXY_TABLE = ''0x2333''"

definition tproxy_fwmark_spec :: string where
  "tproxy_fwmark_spec = TPROXY_MARK @ ''/'' @ TPROXY_MASK"

definition tproxy_body :: "string \<Rightarrow> u16 \<Rightarrow> u16 \<Rightarrow> string list" where
  "tproxy_body iface port proxy_port =
     [''iifname'', iface, ''udp'', ''dport'', dec (unat port), ''tproxy'', ''to'', '':'' @ dec (unat proxy_port),
      ''meta'', ''mark'', ''set'', TPROXY_MARK, ''accept'']"

definition quic_drop_body :: "string \<Rightarrow> string \<Rightarrow> u16 \<Rightarrow> string list" where
  "quic_drop_body dir iface port = [dir, iface, ''udp'', ''dport'', dec (unat port), ''drop'']"

definition setup_udp_tproxy :: "world \<Rightarrow> firewall_config \<Rightarrow> nft_family \<Rightarrow> shell \<Rightarrow> cmd_result" where
  "setup_udp_tproxy w fc fam s =
     (let ports = quic_block_ports fc in
      if ports = [] then (Inr (), s)
      else run_all w
        (add_chain fam ''tproxy_prerouting'' ''{ type filter hook prerouting priority mangle ; }'' #
         map (\<lambda>port. add_rule fam ''tproxy_prerouting'' (tproxy_body (fc_interface fc) port (fc_proxy_port fc))) ports) s)"

definition setup_quic_block_output :: "world \<Rightarrow> firewall_config \<Rightarrow> nft_family \<Rightarrow> shell \<Rightarrow> cmd_result" where
  "setup_quic_block_output w fc fam s =
     (let ports = quic_block_ports fc in
      if ports = [] \<or> fc_fwmark fc = None then (Inr (), s)
      else run_all w
        (add_chain fam ''quic_output'' ''{ type filter hook output priority 0 ; }'' #
         map (\<lambda>port. add_rule fam ''quic_output'' (quic_drop_body ''oifname'' (fc_interface fc) port)) ports) s)"

definition setup_quic_block :: "world \<Rightarrow> firewall_config \<Rightarrow> nft_family \<Rightarrow> shell \<Rightarrow> cmd_result" where
  "setup_quic_block w fc fam s =
     (let ports = quic_block_ports fc in
      if ports = [] then (Inr (), s)
      else cmd_then
        (run_all w
          (add_chain fam ''quic_forward'' ''{ type filter hook forward priority 0 ; }'' #
           map (\<lambda>port. add_rule fam ''quic_forward'' (quic_drop_body ''iifname'' (fc_interface fc) port)) ports) s)
        (setup_quic_block_output w fc fam))"

definition setup_udp_handling :: "world \<Rightarrow> firewall_config \<Rightarrow> nft_family \<Rightarrow> shell \<Rightarrow> cmd_result" where
  "setup_udp_handling w fc fam s =
     (if fc_proxy_udp fc then
        (case setup_udp_tproxy w fc fam s of
           (Inr _, s) \<Rightarrow> setup_quic_block_output w fc fam s
         | (Inl _, s) \<Rightarrow> setup_quic_block w fc fam s)
      else if fc_block_quic fc then setup_quic_block w fc fam s
      else (Inr (), s))"

section \<open>Policy routing\<close>

definition ip_rule :: "string list \<Rightarrow> string \<Rightarrow> command" where
  "ip_rule fam action =
     (''ip'', fam @ [''rule'', action, ''fwmark'', tproxy_fwmark_spec, ''lookup'', TPROXY_TABLE])"

definition flush_routes :: "string list \<Rightarrow> command" where
  "flush_routes fam = (''ip'', fam @ [''route'', ''flush'', ''table'', TPROXY_TABLE])"

definition add_local_route :: "string list \<Rightarrow> string \<Rightarrow> command" where
  "add_local_route fam net =
     (''ip'', fam @ [''route'', ''add'', ''local'', net, ''dev'', ''lo'', ''table'', TPROXY_TABLE])"

definition setup_tproxy_routing :: "world \<Rightarrow> shell \<Rightarrow> cmd_result" where
  "setup_tproxy_routing w s =
     cmd_then (run_cmd w (ip_rule [] ''add'') (run_cmd_ignore w (ip_rule [] ''del'') s)) (\<lambda>s.
     cmd_then (run_cmd w (add_local_route [] ''0.0.0.0/0'') (run_cmd_ignore w (flush_routes []) s)) (\<lambda>s.
       (Inr (), run_all_ignore w
         [ip_rule [''-6''] ''del'', ip_rule [''-6''] ''add'', flush_routes [''-6''], add_local_route [''-6''] ''::/0''] s)))"

definition teardown_tproxy_routing :: "world \<Rightarrow> shell \<Rightarrow> shell" where
  "teardown_tproxy_routing w s =
     run_all_ignore w [ip_rule [] ''del'', flush_routes [], ip_rule [''-6''] ''del'', flush_routes [''-6'']] s"

section \<open>Setup and teardown\<close>

definition setup_ipv6 :: "world \<Rightarrow> firewall_config \<Rightarrow> interface_addrs \<Rightarrow> shell \<Rightarrow> cmd_result" where
  "setup_ipv6 w fc addrs s =
     cmd_then (run_all w (prerouting_commands Ip6 (prerouting_v6 fc addrs)) s) (\<lambda>s.
     cmd_then (run_all w (output_v6 fc addrs) s) (setup_udp_handling w fc Ip6))"

definition setup_ipv4 :: "world \<Rightarrow> firewall_config \<Rightarrow> interface_addrs \<Rightarrow> shell \<Rightarrow> cmd_result" where
  "setup_ipv4 w fc addrs s =
     cmd_then (run_all w (prerouting_commands Ip (prerouting_v4 fc addrs)) s) (\<lambda>s.
     cmd_then (run_all w (output_v4 fc addrs) s) (setup_udp_handling w fc Ip))"

definition nft_setup :: "world \<Rightarrow> ifaddr list option \<Rightarrow> firewall_config \<Rightarrow> shell \<Rightarrow> cmd_result" where
  "nft_setup w ifaddrs fc s =
     cmd_then (run_cmd w (sysctl ''net.ipv4.ip_forward=1'') (run_all_ignore w [delete_table Ip, delete_table Ip6] s)) (\<lambda>s.
       let s = run_cmd_ignore w (sysctl ''net.ipv6.conf.all.forwarding=1'') s;
           addrs = get_interface_ips ifaddrs (fc_interface fc) in
       cmd_then (setup_ipv4 w fc addrs s) (\<lambda>s.
         let (_, s) = setup_ipv6 w fc addrs s;
             s = (if fc_proxy_udp fc then snd (setup_tproxy_routing w s) else s) in
         (Inr (), s)))"

definition nft_teardown :: "world \<Rightarrow> shell \<Rightarrow> cmd_result" where
  "nft_teardown w s =
     (let s = run_all_ignore w [delete_table Ip, delete_table Ip6] s;
          s = teardown_tproxy_routing w s in
      cmd_then (run_cmd w (sysctl ''net.ipv4.ip_forward=0'') s) (\<lambda>s.
        (Inr (), run_cmd_ignore w (sysctl ''net.ipv6.conf.all.forwarding=0'') s)))"

end
