(* ===== verification/Nft_Semantics.thy ===== *)
theory Nft_Semantics
  imports Nftables
begin

text \<open>
  What the nftables commands mean: the rules that a log of commands leaves in a chain, and the verdict
  of a chain on a packet, by the first rule that decides.  This is the documented behaviour of \<open>nft\<close>
  for the statements that the source uses; it is the specification side of the Linux firewall.
\<close>

section \<open>Packets and verdicts\<close>

record packet =
  pk_iif :: string
  pk_oif :: string
  pk_udp :: bool
  pk_daddr :: string
  pk_dport :: u16
  pk_local :: bool
  pk_mark :: u32

datatype verdict = Return | Drop | Redirect string | Dnat string | Tproxy string

text \<open>Matches to the left of the statement must all hold.  A packet is TCP or UDP.\<close>

fun body_verdict :: "packet \<Rightarrow> string list \<Rightarrow> verdict option" where
  "body_verdict pk [] = None"
| "body_verdict pk (k # ts) =
     (if k = ''return'' then Some Return
      else if k = ''drop'' then Some Drop
      else (case ts of [] \<Rightarrow> None | x # ts \<Rightarrow>
        if k = ''iifname'' then (if pk_iif pk = x then body_verdict pk ts else None)
        else if k = ''oifname'' then (if pk_oif pk = x then body_verdict pk ts else None)
        else (case ts of [] \<Rightarrow> None | y # ts \<Rightarrow>
          if k = ''udp'' \<and> x = ''dport'' then
            (if pk_udp pk \<and> dec (unat (pk_dport pk)) = y then body_verdict pk ts else None)
          else if k = ''tcp'' \<and> x = ''dport'' then
            (if \<not> pk_udp pk \<and> dec (unat (pk_dport pk)) = y then body_verdict pk ts else None)
          else if (k = ''ip'' \<or> k = ''ip6'') \<and> x = ''daddr'' then
            (if pk_daddr pk = y then body_verdict pk ts else None)
          else if k = ''meta'' \<and> x = ''mark'' then
            (if dec (unat (pk_mark pk)) = y then body_verdict pk ts else None)
          else if k = ''meta'' \<and> x = ''l4proto'' then
            (if (y = ''udp'') = pk_udp pk then body_verdict pk ts else None)
          else if k = ''redirect'' then Some (Redirect y)
          else if k = ''dnat'' then Some (Dnat y)
          else if k = ''tproxy'' then Some (Tproxy y)
          else if k = ''fib'' \<and> x = ''daddr'' \<and> y = ''type'' then
            (case ts of [] \<Rightarrow> None | z # ts \<Rightarrow> if z = ''local'' \<and> pk_local pk then body_verdict pk ts else None)
          else None)))"

fun chain_verdict :: "packet \<Rightarrow> string list list \<Rightarrow> verdict option" where
  "chain_verdict pk [] = None"
| "chain_verdict pk (b # bs) = (case body_verdict pk b of Some v \<Rightarrow> Some v | None \<Rightarrow> chain_verdict pk bs)"

text \<open>Where a NAT chain sends a packet; \<open>return\<close> and the end of the chain leave it alone.\<close>

definition nat_target :: "packet \<Rightarrow> string list list \<Rightarrow> verdict option" where
  "nat_target pk bs =
     (case chain_verdict pk bs of
        Some (Redirect t) \<Rightarrow> Some (Redirect t) | Some (Dnat t) \<Rightarrow> Some (Dnat t) | _ \<Rightarrow> None)"

lemma chain_verdict_append:
  "chain_verdict pk (bs @ cs) = (case chain_verdict pk bs of Some v \<Rightarrow> Some v | None \<Rightarrow> chain_verdict pk cs)"
  by (induction bs) (auto split: option.split)

lemma dec_mark_eq: "dec (unat (p :: u32)) = dec (unat q) \<longleftrightarrow> p = q"
  by (metis dec_inj unsigned_word_eqI)

lemma dec_53: "dec (unat (p :: u16)) = ''53'' \<longleftrightarrow> p = 53"
  using dec_port_eq [of p 53] by simp

lemma dec_22: "dec (unat (p :: u16)) = ''22'' \<longleftrightarrow> p = 22"
  using dec_port_eq [of p 22] by simp

section \<open>The NAT chains\<close>

text \<open>What the chains are meant to do, as decisions on the packet.\<close>

definition tcp_target :: "u16 list option \<Rightarrow> string option \<Rightarrow> string \<Rightarrow> packet \<Rightarrow> verdict option" where
  "tcp_target ports addr port_str pk =
     (case ports of
        Some ps \<Rightarrow> if pk_dport pk \<in> set ps then Some (Redirect ('':'' @ port_str)) else None
      | None \<Rightarrow> if pk_dport pk = 22 \<and> addr = Some (pk_daddr pk) then None else Some (Redirect ('':'' @ port_str)))"

definition prerouting_decision ::
    "string \<Rightarrow> string option \<Rightarrow> u16 list option \<Rightarrow> string option \<Rightarrow> string \<Rightarrow> packet \<Rightarrow> verdict option" where
  "prerouting_decision iface dns_target ports addr port_str pk =
     (if pk_iif pk \<noteq> iface then None
      else if pk_dport pk = 53 \<and> dns_target \<noteq> None then map_option Dnat dns_target
      else if pk_udp pk then None
      else if ports = None \<and> pk_local pk then None
      else tcp_target ports addr port_str pk)"

definition excluded :: "nft_family \<Rightarrow> socket_addr option \<Rightarrow> packet \<Rightarrow> bool" where
  "excluded fam upstream pk \<longleftrightarrow>
     (case upstream of
        Some u \<Rightarrow> (fam = Ip) = (case sock_ip u of IpV4 _ \<Rightarrow> True | IpV6 _ \<Rightarrow> False) \<and>
          pk_daddr pk = ip_display (sock_ip u) \<and> pk_dport pk = sock_port u
      | None \<Rightarrow> False)"

definition output_decision ::
    "nft_family \<Rightarrow> u32 \<Rightarrow> socket_addr option \<Rightarrow> u16 list option \<Rightarrow> string option \<Rightarrow> string \<Rightarrow> packet \<Rightarrow> verdict option" where
  "output_decision fam fwmark upstream ports addr port_str pk =
     (if pk_mark pk = fwmark \<or> pk_local pk \<or> pk_udp pk then None
      else if excluded fam upstream pk then None
      else tcp_target ports addr port_str pk)"

lemma chain_verdict_port_rules:
  "chain_verdict pk (map (\<lambda>p. [''iifname'', iface, ''tcp'', ''dport'', dec (unat p), ''redirect'', ''to'', t]) ps) =
     (if pk_iif pk = iface \<and> \<not> pk_udp pk \<and> pk_dport pk \<in> set ps then Some (Redirect t) else None)"
  by (induction ps) (auto simp: dec_port_eq)

lemma chain_verdict_output_port_rules:
  "chain_verdict pk (map (\<lambda>p. [''tcp'', ''dport'', dec (unat p), ''redirect'', ''to'', t]) ps) =
     (if \<not> pk_udp pk \<and> pk_dport pk \<in> set ps then Some (Redirect t) else None)"
  by (induction ps) (auto simp: dec_port_eq)

lemma prerouting_bodies_correct:
  "nat_target pk (prerouting_bodies fam iface dns_target ports addr port_str) =
   prerouting_decision iface dns_target ports addr port_str pk"
  by (cases fam; cases dns_target; cases ports; cases addr)
    (auto simp: nat_target_def prerouting_bodies_def prerouting_decision_def tcp_target_def
      chain_verdict_append chain_verdict_port_rules dec_53 dec_22)

lemma chain_verdict_exclusion:
  "chain_verdict pk (case upstream of
        Some u \<Rightarrow> (case upstream_exclusion_body fam u of Some body \<Rightarrow> [body] | None \<Rightarrow> [])
      | None \<Rightarrow> []) = (if excluded fam upstream pk \<and> \<not> pk_udp pk then Some Return else None)"
proof (cases upstream)
  case (Some u)
  then show ?thesis
    by (cases fam; cases "sock_ip u") (auto simp: excluded_def upstream_exclusion_body_def dec_port_eq)
qed (simp add: excluded_def)

lemma chain_verdict_tcp:
  "chain_verdict pk (case ports of
        Some ports \<Rightarrow> map (\<lambda>p. [''tcp'', ''dport'', dec (unat p), ''redirect'', ''to'', '':'' @ port_str]) ports
      | None \<Rightarrow>
          (case addr of
             Some ip_str \<Rightarrow> [[nft_table fam, ''daddr'', ip_str, ''tcp'', ''dport'', ''22'', ''return'']]
           | None \<Rightarrow> []) @
          [[''meta'', ''l4proto'', ''tcp'', ''redirect'', ''to'', '':'' @ port_str]]) =
   (if pk_udp pk then None
    else if ports = None \<and> pk_dport pk = 22 \<and> addr = Some (pk_daddr pk) then Some Return
    else tcp_target ports addr port_str pk)"
  by (cases fam; cases ports; cases addr)
    (auto simp: tcp_target_def chain_verdict_output_port_rules dec_22)

lemma output_bodies_correct:
  "nat_target pk (output_bodies fam fwmark upstream ports addr port_str) =
   output_decision fam fwmark upstream ports addr port_str pk"
proof -
  have "tcp_target ports addr port_str pk = None \<or> (\<exists>t. tcp_target ports addr port_str pk = Some (Redirect t))"
    by (auto simp: tcp_target_def split: option.split)
  moreover have "ports = None \<and> pk_dport pk = 22 \<and> addr = Some (pk_daddr pk) \<Longrightarrow> tcp_target ports addr port_str pk = None"
    by (simp add: tcp_target_def)
  ultimately show ?thesis
    unfolding nat_target_def output_bodies_def output_decision_def chain_verdict_append chain_verdict_exclusion
      chain_verdict_tcp
    by (auto simp: dec_mark_eq)
qed

section \<open>The rules that a log leaves\<close>

definition rule_effect :: "nft_family \<Rightarrow> string \<Rightarrow> command \<times> bool \<Rightarrow> string list list \<Rightarrow> string list list" where
  "rule_effect fam chain e rules =
     (if \<not> snd e then rules
      else if fst e = delete_table fam then []
      else if fst (fst e) = ''nft'' \<and> take 5 (snd (fst e)) = [''add'', ''rule'', nft_table fam, ''trans_proxy'', chain]
      then rules @ [drop 5 (snd (fst e))] else rules)"

definition chain_rules :: "nft_family \<Rightarrow> string \<Rightarrow> shell \<Rightarrow> string list list" where
  "chain_rules fam chain log = fold (rule_effect fam chain) log []"

lemma add_rule_not_delete: "add_rule fam chain body \<noteq> delete_table fam'"
  by (simp add: add_rule_def delete_table_def)

lemma chain_rules_snoc: "chain_rules fam chain (log @ [e]) = rule_effect fam chain e (chain_rules fam chain log)"
  by (simp add: chain_rules_def)

text \<open>\<open>logs P\<close>: commands were run in between, all of which satisfy \<open>P\<close>.\<close>

definition logs :: "(command \<Rightarrow> bool) \<Rightarrow> shell \<Rightarrow> shell \<Rightarrow> bool" where
  "logs P s t \<longleftrightarrow> (\<exists>l. t = s @ l \<and> (\<forall>e \<in> set l. P (fst e)))"

lemma logs_refl [simp, intro]: "logs P s s"
  by (simp add: logs_def)

lemma logs_trans: "logs P s t \<Longrightarrow> logs P t u \<Longrightarrow> logs P s u"
  by (auto simp: logs_def)

lemma logs_snoc: "P c \<Longrightarrow> logs P s (s @ [(c, ok)])"
  by (auto simp: logs_def)

lemma logs_run_cmd: "P c \<Longrightarrow> logs P s (snd (run_cmd w c s))"
  by (simp add: run_cmd_def logs_snoc)

lemma logs_run_cmd_ignore: "P c \<Longrightarrow> logs P s (run_cmd_ignore w c s)"
  by (simp add: run_cmd_ignore_def logs_snoc)

lemma logs_cmd_then:
  "logs P s (snd r) \<Longrightarrow> (\<And>t. logs P t (snd (f t))) \<Longrightarrow> logs P s (snd (cmd_then r f))"
  by (cases r; cases "fst r") (auto intro: logs_trans)

lemma logs_run_all:
  assumes "\<And>c. c \<in> set cs \<Longrightarrow> P c"
  shows "logs P s (snd (run_all w cs s))"
  using assms
proof (induction cs arbitrary: s)
  case (Cons c cs)
  have "P c" by (rule Cons.prems) simp
  then have "logs P s (snd (run_cmd w c s))" by (rule logs_run_cmd)
  moreover have "logs P r (snd (run_all w cs r))" for r by (rule Cons.IH) (rule Cons.prems, simp)
  ultimately show ?case by (simp add: logs_cmd_then)
qed simp

lemma logs_run_all_ignore: "(\<And>c. c \<in> set cs \<Longrightarrow> P c) \<Longrightarrow> logs P s (run_all_ignore w cs s)"
proof (induction cs arbitrary: s)
  case (Cons c cs)
  have "logs P s (run_cmd_ignore w c s)" by (rule logs_run_cmd_ignore) (rule Cons.prems, simp)
  moreover have "logs P (run_cmd_ignore w c s) (run_all_ignore w cs (run_cmd_ignore w c s))" using Cons by simp
  ultimately show ?case by (auto intro: logs_trans)
qed simp

text \<open>A command that leaves a chain alone.\<close>

definition quiet :: "nft_family \<Rightarrow> string \<Rightarrow> command \<Rightarrow> bool" where
  "quiet fam chain c \<longleftrightarrow>
     c \<noteq> delete_table fam \<and>
     \<not> (fst c = ''nft'' \<and> take 5 (snd c) = [''add'', ''rule'', nft_table fam, ''trans_proxy'', chain])"

lemma quiet_simps [simp]:
  "quiet fam chain (add_table fam')" "quiet fam chain (add_chain fam' chain' spec)"
  "quiet fam chain (sysctl setting)" "quiet fam chain (''ip'', args)"
  "quiet fam chain (add_rule fam' chain' body) \<longleftrightarrow> fam \<noteq> fam' \<or> chain \<noteq> chain'"
  "quiet fam chain (delete_table fam') \<longleftrightarrow> fam \<noteq> fam'"
  by (cases fam; cases fam'; auto simp: quiet_def add_table_def add_chain_def add_rule_def delete_table_def sysctl_def)+

lemma chain_rules_quiet:
  assumes "logs (quiet fam chain) s t"
  shows "chain_rules fam chain t = chain_rules fam chain s"
proof -
  obtain l where t: "t = s @ l" and l: "\<forall>e \<in> set l. quiet fam chain (fst e)"
    using assms by (auto simp: logs_def)
  from l have "chain_rules fam chain (s @ l) = chain_rules fam chain s"
  proof (induction l rule: rev_induct)
    case (snoc e l)
    then show ?case
      using chain_rules_snoc [of fam chain "s @ l" e] by (auto simp: rule_effect_def quiet_def)
  qed simp
  then show ?thesis by (simp add: t)
qed

text \<open>A successful sequence adds its rules for the chain, in order.\<close>

lemma chain_rules_add_rule:
  "chain_rules fam chain (s @ [(add_rule fam chain body, True)]) = chain_rules fam chain s @ [body]"
  by (simp add: chain_rules_snoc rule_effect_def add_rule_not_delete) (simp add: add_rule_def)

lemma run_all_rules:
  assumes "run_all w (map (add_rule fam chain) bodies) s = (Inr u, t)"
  shows "chain_rules fam chain t = chain_rules fam chain s @ bodies"
proof -
  have "chain_rules fam chain (s @ map (\<lambda>c. (c, True)) (map (add_rule fam chain) bodies)) = chain_rules fam chain s @ bodies"
  proof (induction bodies rule: rev_induct)
    case (snoc b bs)
    then show ?case
      using chain_rules_add_rule [of fam chain "s @ map (\<lambda>c. (c, True)) (map (add_rule fam chain) bs)" b] by simp
  qed simp
  then show ?thesis using run_all_Inr [OF assms] by simp
qed

lemma run_all_append:
  "run_all w (cs @ ds) s = (Inr u, t) \<longleftrightarrow> (\<exists>r. run_all w cs s = (Inr (), r) \<and> run_all w ds r = (Inr u, t))"
  by (induction cs arbitrary: s) (auto simp: cmd_then_Inr)

lemma run_all_quiet:
  assumes "run_all w cs s = (Inr u, t)" "\<And>c. c \<in> set cs \<Longrightarrow> quiet fam chain c"
  shows "chain_rules fam chain t = chain_rules fam chain s"
  using chain_rules_quiet [OF logs_run_all [where cs = cs and P = "quiet fam chain" and s = s and w = w]] assms by simp

end
