(* ===== verification/Nft_Props.thy ===== *)
theory Nft_Props
  imports Nft_Semantics
begin

text \<open>
  What the Linux firewall guarantees once \<open>setup\<close> has returned: the NAT chains decide as intended, and QUIC is
  never forwarded past the proxy, whichever commands failed on the way.
\<close>

section \<open>What each part of the setup runs\<close>

lemma logs_quic_block_output:
  assumes "\<And>chain spec. P (add_chain fam chain spec)" "\<And>body. P (add_rule fam ''quic_output'' body)"
  shows "logs P s (snd (setup_quic_block_output w fc fam s))"
  using assms unfolding setup_quic_block_output_def Let_def by (auto intro!: logs_cmd_then logs_run_cmd logs_run_all)

lemma logs_quic_block:
  assumes "\<And>chain spec. P (add_chain fam chain spec)" "\<And>body. P (add_rule fam ''quic_output'' body)"
    "\<And>body. P (add_rule fam ''quic_forward'' body)"
  shows "logs P s (snd (setup_quic_block w fc fam s))"
  using assms logs_quic_block_output [OF assms(1,2)]
  unfolding setup_quic_block_def Let_def by (auto intro!: logs_cmd_then logs_run_cmd logs_run_all)

lemma logs_udp_tproxy:
  assumes "\<And>chain spec. P (add_chain fam chain spec)" "\<And>body. P (add_rule fam ''tproxy_prerouting'' body)"
  shows "logs P s (snd (setup_udp_tproxy w fc fam s))"
  using assms unfolding setup_udp_tproxy_def Let_def by (auto intro!: logs_cmd_then logs_run_cmd logs_run_all)

lemma logs_udp_handling:
  assumes "\<And>chain spec. P (add_chain fam chain spec)" "\<And>body. P (add_rule fam ''quic_output'' body)"
    "\<And>body. P (add_rule fam ''quic_forward'' body)" "\<And>body. P (add_rule fam ''tproxy_prerouting'' body)"
  shows "logs P s (snd (setup_udp_handling w fc fam s))"
proof -
  obtain r t where t: "setup_udp_tproxy w fc fam s = (r, t)" by fastforce
  have "logs P s t" using logs_udp_tproxy [OF assms(1,4), of s w fc] t by simp
  moreover have "logs P t (snd (setup_quic_block_output w fc fam t))" "logs P t (snd (setup_quic_block w fc fam t))"
    using assms by (auto intro!: logs_quic_block_output logs_quic_block)
  ultimately show ?thesis
    using t logs_quic_block [OF assms(1-3), of s w fc]
    by (auto simp: setup_udp_handling_def intro: logs_trans split: sum.split)
qed

lemma logs_output:
  assumes "\<And>chain spec. P (add_chain fam chain spec)" "\<And>body. P (add_rule fam ''output'' body)"
    "cs = output_commands fam bodies \<or> cs = []"
  shows "logs P s (snd (run_all w cs s))"
  using assms by (intro logs_run_all) (auto simp: output_commands_def)

lemma output_v6_cases: "\<exists>bodies. output_v6 fc addrs = output_commands Ip6 bodies \<or> output_v6 fc addrs = []"
  by (auto simp: output_v6_def split: option.split)

lemma output_v4_cases: "\<exists>bodies. output_v4 fc addrs = output_commands Ip bodies \<or> output_v4 fc addrs = []"
  by (auto simp: output_v4_def split: option.split)

lemma logs_setup_ipv6:
  assumes "P (add_table Ip6)" "\<And>chain spec. P (add_chain Ip6 chain spec)" "\<And>chain body. P (add_rule Ip6 chain body)"
  shows "logs P s (snd (setup_ipv6 w fc addrs s))"
proof -
  have pre: "logs P s (snd (run_all w (prerouting_commands Ip6 (prerouting_v6 fc addrs)) s))"
    using assms by (intro logs_run_all) (auto simp: prerouting_commands_def)
  have out: "logs P r (snd (run_all w (output_v6 fc addrs) r))" for r
    using output_v6_cases [of fc addrs] assms by (blast intro: logs_output)
  have udp: "logs P r (snd (setup_udp_handling w fc Ip6 r))" for r
    using assms by (intro logs_udp_handling) blast+
  show ?thesis
    unfolding setup_ipv6_def by (intro logs_cmd_then pre out udp)
qed

lemma logs_tproxy_routing:
  assumes "\<And>args. P (''ip'', args)"
  shows "logs P s (snd (setup_tproxy_routing w s))"
proof -
  have c: "P (ip_rule fam a)" "P (flush_routes fam)" "P (add_local_route fam n)" for fam a n
    using assms by (simp_all add: ip_rule_def flush_routes_def add_local_route_def)
  have ign: "logs P r (run_all_ignore w [ip_rule [''-6''] ''del'', ip_rule [''-6''] ''add'', flush_routes [''-6''],
      add_local_route [''-6''] ''::/0''] r)" for r
    using c by (intro logs_run_all_ignore) auto
  have "logs P r (snd (run_cmd w d (run_cmd_ignore w d' r)))" if "P d" "P d'" for r d d'
    using logs_trans [OF logs_run_cmd_ignore [of P d' r w] logs_run_cmd [of P d "run_cmd_ignore w d' r" w]] that by simp
  then show ?thesis
    unfolding setup_tproxy_routing_def using c ign by (intro logs_cmd_then) simp_all
qed

text \<open>After the IPv4 part nothing touches the IPv4 chains.\<close>

definition after_ipv4 :: "world \<Rightarrow> firewall_config \<Rightarrow> interface_addrs \<Rightarrow> shell \<Rightarrow> shell" where
  "after_ipv4 w fc addrs s =
     (let (_, s) = setup_ipv6 w fc addrs s in if fc_proxy_udp fc then snd (setup_tproxy_routing w s) else s)"

lemma logs_after_ipv4:
  assumes "P (add_table Ip6)" "\<And>chain spec. P (add_chain Ip6 chain spec)" "\<And>chain body. P (add_rule Ip6 chain body)"
    "\<And>args. P (''ip'', args)"
  shows "logs P s (after_ipv4 w fc addrs s)"
proof -
  obtain r t where t: "setup_ipv6 w fc addrs s = (r, t)" by fastforce
  then have "logs P s t" using logs_setup_ipv6 [OF assms(1-3), of s w fc addrs] by simp
  then show ?thesis
    using t logs_tproxy_routing [of P t w, OF assms(4)] by (auto simp: after_ipv4_def intro: logs_trans)
qed

lemma nft_setup_eq:
  "nft_setup w ifaddrs fc s =
     cmd_then (run_cmd w (sysctl ''net.ipv4.ip_forward=1'') (run_all_ignore w [delete_table Ip, delete_table Ip6] s)) (\<lambda>s.
       let addrs = get_interface_ips ifaddrs (fc_interface fc) in
       cmd_then (setup_ipv4 w fc addrs (run_cmd_ignore w (sysctl ''net.ipv6.conf.all.forwarding=1'') s)) (\<lambda>s.
         (Inr (), after_ipv4 w fc addrs s)))"
  by (simp add: nft_setup_def after_ipv4_def Let_def split_def)

lemma nft_setup_split:
  assumes "nft_setup w ifaddrs fc s = (Inr u, t)"
  obtains s1 s2 where
    "s1 = run_cmd_ignore w (sysctl ''net.ipv6.conf.all.forwarding=1'')
       (run_all_ignore w [delete_table Ip, delete_table Ip6] s @ [(sysctl ''net.ipv4.ip_forward=1'', True)])"
    "setup_ipv4 w fc (get_interface_ips ifaddrs (fc_interface fc)) s1 = (Inr (), s2)"
    "t = after_ipv4 w fc (get_interface_ips ifaddrs (fc_interface fc)) s2"
  using assms unfolding nft_setup_eq Let_def cmd_then_Inr run_cmd_Inr by blast

section \<open>The IPv4 chains after setup\<close>

lemma setup_ipv4_split:
  assumes "setup_ipv4 w fc addrs s = (Inr u, t)"
  obtains s1 s2 where
    "run_all w (map (add_rule Ip ''prerouting'') (prerouting_v4 fc addrs))
       (s @ [(add_table Ip, True), (add_chain Ip ''prerouting'' ''{ type nat hook prerouting priority -100 ; }'', True)]) = (Inr (), s1)"
    "run_all w (output_v4 fc addrs) s1 = (Inr (), s2)" "setup_udp_handling w fc Ip s2 = (Inr (), t)"
  using assms unfolding setup_ipv4_def prerouting_commands_def cmd_then_Inr run_all_append
  by (auto simp: cmd_then_Inr run_cmd_Inr)

lemma start_step:
  "chain_rules fam chain s = [] \<Longrightarrow> c = delete_table fam \<or> quiet fam chain c \<Longrightarrow>
     chain_rules fam chain (s @ [(c, ok)]) = []"
  by (auto simp: chain_rules_snoc rule_effect_def quiet_def)

lemma start_rules:
  assumes "chain_rules Ip chain s = []"
  shows "chain_rules Ip chain (run_cmd_ignore w (sysctl ''net.ipv6.conf.all.forwarding=1'')
       (run_all_ignore w [delete_table Ip, delete_table Ip6] s @ [(sysctl ''net.ipv4.ip_forward=1'', True)])) = []"
  unfolding run_all_ignore.simps run_cmd_ignore_def by (intro start_step assms) simp_all

lemma logs_after_ipv4_quiet: "chain_rules Ip chain (after_ipv4 w fc addrs s) = chain_rules Ip chain s"
  by (rule chain_rules_quiet, rule logs_after_ipv4) simp_all

lemma setup_ipv4_prerouting:
  assumes "setup_ipv4 w fc addrs s = (Inr u, t)" "chain_rules Ip ''prerouting'' s = []"
  shows "chain_rules Ip ''prerouting'' t = prerouting_v4 fc addrs"
proof -
  obtain s1 s2 where s1: "run_all w (map (add_rule Ip ''prerouting'') (prerouting_v4 fc addrs))
       (s @ [(add_table Ip, True), (add_chain Ip ''prerouting'' ''{ type nat hook prerouting priority -100 ; }'', True)]) = (Inr (), s1)"
    and s2: "run_all w (output_v4 fc addrs) s1 = (Inr (), s2)" and t: "setup_udp_handling w fc Ip s2 = (Inr (), t)"
    using setup_ipv4_split [OF assms(1)] by blast
  have "logs (quiet Ip ''prerouting'') s
      (s @ [(add_table Ip, True), (add_chain Ip ''prerouting'' ''{ type nat hook prerouting priority -100 ; }'', True)])"
    by (simp add: logs_def)
  then have "chain_rules Ip ''prerouting'' s1 = prerouting_v4 fc addrs"
    using run_all_rules [OF s1] chain_rules_quiet assms(2) by simp
  moreover have "chain_rules Ip ''prerouting'' s2 = chain_rules Ip ''prerouting'' s1"
    using s2 by (rule run_all_quiet) (auto simp: output_v4_def output_commands_def split: option.splits)
  moreover have "logs (quiet Ip ''prerouting'') s2 (snd (setup_udp_handling w fc Ip s2))"
    by (rule logs_udp_handling) simp_all
  ultimately show ?thesis using chain_rules_quiet t by simp
qed

lemma setup_ipv4_output:
  assumes "setup_ipv4 w fc addrs s = (Inr u, t)" "chain_rules Ip ''output'' s = []"
  shows "chain_rules Ip ''output'' t =
    (case fc_fwmark fc of None \<Rightarrow> []
     | Some fwmark \<Rightarrow> output_bodies Ip fwmark (fc_upstream_addr fc) (fc_ports fc)
         (map_option ipv4_display (ia_ipv4 addrs)) (dec (unat (fc_proxy_port fc))))"
proof -
  obtain s1 s2 where s1: "run_all w (map (add_rule Ip ''prerouting'') (prerouting_v4 fc addrs))
       (s @ [(add_table Ip, True), (add_chain Ip ''prerouting'' ''{ type nat hook prerouting priority -100 ; }'', True)]) = (Inr (), s1)"
    and s2: "run_all w (output_v4 fc addrs) s1 = (Inr (), s2)" and t: "setup_udp_handling w fc Ip s2 = (Inr (), t)"
    using setup_ipv4_split [OF assms(1)] by blast
  have "logs (quiet Ip ''output'') s
      (s @ [(add_table Ip, True), (add_chain Ip ''prerouting'' ''{ type nat hook prerouting priority -100 ; }'', True)])"
    by (simp add: logs_def)
  moreover have "chain_rules Ip ''output'' s1 =
      chain_rules Ip ''output'' (s @ [(add_table Ip, True), (add_chain Ip ''prerouting'' ''{ type nat hook prerouting priority -100 ; }'', True)])"
    using s1 by (rule run_all_quiet) auto
  ultimately have e1: "chain_rules Ip ''output'' s1 = []" using chain_rules_quiet assms(2) by simp
  have "logs (quiet Ip ''output'') s2 (snd (setup_udp_handling w fc Ip s2))"
    by (rule logs_udp_handling) simp_all
  then have e2: "chain_rules Ip ''output'' t = chain_rules Ip ''output'' s2" using chain_rules_quiet t by simp
  show ?thesis
  proof (cases "fc_fwmark fc")
    case None
    then show ?thesis using s2 e1 e2 by (simp add: output_v4_def)
  next
    case (Some fwmark)
    let ?spec = "''{ type nat hook output priority -100 ; }''"
    have "logs (quiet Ip ''output'') s1 (s1 @ [(add_chain Ip ''output'' ?spec, True)])" by (simp add: logs_def)
    then have "chain_rules Ip ''output'' (s1 @ [(add_chain Ip ''output'' ?spec, True)]) = []"
      using chain_rules_quiet e1 by simp
    moreover have "run_all w (map (add_rule Ip ''output'') (output_bodies Ip fwmark (fc_upstream_addr fc) (fc_ports fc)
         (map_option ipv4_display (ia_ipv4 addrs)) (dec (unat (fc_proxy_port fc)))))
       (s1 @ [(add_chain Ip ''output'' ?spec, True)]) = (Inr (), s2)"
      using s2 Some by (auto simp: output_v4_def output_commands_def cmd_then_Inr run_cmd_Inr)
    ultimately show ?thesis using run_all_rules e2 Some by fastforce
  qed
qed

section \<open>QUIC\<close>

lemma quic_bodies_verdict:
  assumes "pk_udp pk" "pk_dport pk = p"
  shows "pk_iif pk = iface \<Longrightarrow> body_verdict pk (tproxy_body iface p pp) = Some (Tproxy ('':'' @ dec (unat pp)))"
    "pk_iif pk = iface \<Longrightarrow> body_verdict pk (quic_drop_body ''iifname'' iface p) = Some Drop"
    "pk_oif pk = iface \<Longrightarrow> body_verdict pk (quic_drop_body ''oifname'' iface p) = Some Drop"
  using assms by (simp_all add: tproxy_body_def quic_drop_body_def)

lemma run_all_rule_present:
  assumes "run_all w (add_chain fam chain spec # map (\<lambda>p. add_rule fam chain (body p)) ps) s = (Inr u, t)" "p \<in> set ps"
  shows "body p \<in> set (chain_rules fam chain t)"
proof -
  have "run_all w (map (add_rule fam chain) (map body ps)) (s @ [(add_chain fam chain spec, True)]) = (Inr u, t)"
    using assms(1) by (auto simp: cmd_then_Inr run_cmd_Inr comp_def)
  from run_all_rules [OF this] show ?thesis using assms(2) by simp
qed

lemma quic_block_output_drops:
  assumes "setup_quic_block_output w fc fam s = (Inr u, t)" "p \<in> set (quic_block_ports fc)" "fc_fwmark fc \<noteq> None"
  shows "quic_drop_body ''oifname'' (fc_interface fc) p \<in> set (chain_rules fam ''quic_output'' t)"
proof -
  have "quic_block_ports fc \<noteq> []" using assms(2) by auto
  with assms show ?thesis
    unfolding setup_quic_block_output_def Let_def by (auto intro: run_all_rule_present simp del: run_all.simps)
qed

lemma quic_block_drops:
  assumes "setup_quic_block w fc fam s = (Inr u, t)" "p \<in> set (quic_block_ports fc)"
  shows "quic_drop_body ''iifname'' (fc_interface fc) p \<in> set (chain_rules fam ''quic_forward'' t)"
    "fc_fwmark fc \<noteq> None \<Longrightarrow> quic_drop_body ''oifname'' (fc_interface fc) p \<in> set (chain_rules fam ''quic_output'' t)"
proof -
  have ne: "quic_block_ports fc \<noteq> []" using assms(2) by auto
  obtain r where r: "run_all w
          (add_chain fam ''quic_forward'' ''{ type filter hook forward priority 0 ; }'' #
           map (\<lambda>port. add_rule fam ''quic_forward'' (quic_drop_body ''iifname'' (fc_interface fc) port)) (quic_block_ports fc)) s
      = (Inr (), r)" and t: "setup_quic_block_output w fc fam r = (Inr u, t)"
    using assms(1) ne unfolding setup_quic_block_def Let_def by (auto simp: cmd_then_Inr simp del: run_all.simps)
  have "logs (quiet fam ''quic_forward'') r (snd (setup_quic_block_output w fc fam r))"
    by (rule logs_quic_block_output) simp_all
  then show "quic_drop_body ''iifname'' (fc_interface fc) p \<in> set (chain_rules fam ''quic_forward'' t)"
    using run_all_rule_present [OF r assms(2)] chain_rules_quiet t by simp
  show "fc_fwmark fc \<noteq> None \<Longrightarrow> quic_drop_body ''oifname'' (fc_interface fc) p \<in> set (chain_rules fam ''quic_output'' t)"
    using quic_block_output_drops [OF t assms(2)] .
qed

lemma udp_handling_covers:
  assumes "setup_udp_handling w fc fam s = (Inr u, t)" "p \<in> set (quic_block_ports fc)"
  shows "tproxy_body (fc_interface fc) p (fc_proxy_port fc) \<in> set (chain_rules fam ''tproxy_prerouting'' t) \<or>
      quic_drop_body ''iifname'' (fc_interface fc) p \<in> set (chain_rules fam ''quic_forward'' t)"
    "fc_fwmark fc \<noteq> None \<Longrightarrow> quic_drop_body ''oifname'' (fc_interface fc) p \<in> set (chain_rules fam ''quic_output'' t)"
proof -
  have block: "fc_block_quic fc" "quic_block_ports fc \<noteq> []"
    using assms(2) by (auto simp: quic_block_ports_def split: if_splits)
  obtain r x where r: "setup_udp_tproxy w fc fam s = (x, r)" by fastforce
  consider (drop) v where "setup_quic_block w fc fam v = (Inr u, t)"
    | (tproxy) "x = Inr ()" "setup_quic_block_output w fc fam r = (Inr u, t)"
    using assms(1) r block by (auto simp: setup_udp_handling_def split: if_splits sum.splits)
  then have "(tproxy_body (fc_interface fc) p (fc_proxy_port fc) \<in> set (chain_rules fam ''tproxy_prerouting'' t) \<or>
      quic_drop_body ''iifname'' (fc_interface fc) p \<in> set (chain_rules fam ''quic_forward'' t)) \<and>
    (fc_fwmark fc \<noteq> None \<longrightarrow> quic_drop_body ''oifname'' (fc_interface fc) p \<in> set (chain_rules fam ''quic_output'' t))"
  proof cases
    case drop
    then show ?thesis using quic_block_drops [OF drop assms(2)] by blast
  next
    case tproxy
    then have "run_all w (add_chain fam ''tproxy_prerouting'' ''{ type filter hook prerouting priority mangle ; }'' #
         map (\<lambda>port. add_rule fam ''tproxy_prerouting'' (tproxy_body (fc_interface fc) port (fc_proxy_port fc))) (quic_block_ports fc)) s
        = (Inr (), r)"
      using r block by (simp add: setup_udp_tproxy_def Let_def del: run_all.simps)
    note present = run_all_rule_present [OF this assms(2)]
    have "logs (quiet fam ''tproxy_prerouting'') r (snd (setup_quic_block_output w fc fam r))"
      by (rule logs_quic_block_output) simp_all
    then show ?thesis
      using present chain_rules_quiet quic_block_output_drops [OF tproxy(2) assms(2)] tproxy(2) by simp
  qed
  then show "tproxy_body (fc_interface fc) p (fc_proxy_port fc) \<in> set (chain_rules fam ''tproxy_prerouting'' t) \<or>
      quic_drop_body ''iifname'' (fc_interface fc) p \<in> set (chain_rules fam ''quic_forward'' t)"
    "fc_fwmark fc \<noteq> None \<Longrightarrow> quic_drop_body ''oifname'' (fc_interface fc) p \<in> set (chain_rules fam ''quic_output'' t)"
    by blast+
qed

section \<open>The chains after a setup\<close>

lemma setup_chains:
  assumes "nft_setup w ifaddrs fc s = (Inr u, t)"
    "chain_rules Ip ''prerouting'' s = []" "chain_rules Ip ''output'' s = []"
    "addrs = get_interface_ips ifaddrs (fc_interface fc)"
  shows "chain_rules Ip ''prerouting'' t = prerouting_v4 fc addrs"
    "chain_rules Ip ''output'' t =
      (case fc_fwmark fc of None \<Rightarrow> []
       | Some fwmark \<Rightarrow> output_bodies Ip fwmark (fc_upstream_addr fc) (fc_ports fc)
           (map_option ipv4_display (ia_ipv4 addrs)) (dec (unat (fc_proxy_port fc))))"
proof -
  obtain s1 s2 where s1: "s1 = run_cmd_ignore w (sysctl ''net.ipv6.conf.all.forwarding=1'')
       (run_all_ignore w [delete_table Ip, delete_table Ip6] s @ [(sysctl ''net.ipv4.ip_forward=1'', True)])"
    and s2: "setup_ipv4 w fc addrs s1 = (Inr (), s2)" and t: "t = after_ipv4 w fc addrs s2"
    using nft_setup_split [OF assms(1)] unfolding assms(4) by blast
  show "chain_rules Ip ''prerouting'' t = prerouting_v4 fc addrs"
    unfolding t logs_after_ipv4_quiet
    by (rule setup_ipv4_prerouting [OF s2]) (simp only: s1 start_rules [OF assms(2)])
  show "chain_rules Ip ''output'' t =
      (case fc_fwmark fc of None \<Rightarrow> []
       | Some fwmark \<Rightarrow> output_bodies Ip fwmark (fc_upstream_addr fc) (fc_ports fc)
           (map_option ipv4_display (ia_ipv4 addrs)) (dec (unat (fc_proxy_port fc))))"
    unfolding t logs_after_ipv4_quiet
    by (rule setup_ipv4_output [OF s2]) (simp only: s1 start_rules [OF assms(3)])
qed

lemma nat_target_empty [simp]: "nat_target pk [] = None"
  by (simp add: nat_target_def)

lemma setup_prerouting_target:
  assumes "nft_setup w ifaddrs fc s = (Inr u, t)"
    "chain_rules Ip ''prerouting'' s = []" "chain_rules Ip ''output'' s = []"
    "addrs = get_interface_ips ifaddrs (fc_interface fc)"
  shows "nat_target pk (chain_rules Ip ''prerouting'' t) =
      prerouting_decision (fc_interface fc)
        (map_option (\<lambda>(ip, port). ipv4_display ip @ '':'' @ dec (unat port)) (dns_target_v4 fc (ia_ipv4 addrs)))
        (fc_ports fc) (map_option ipv4_display (ia_ipv4 addrs)) (dec (unat (fc_proxy_port fc))) pk"
  unfolding setup_chains(1) [OF assms] prerouting_v4_def by (simp add: prerouting_bodies_correct)

lemma setup_output_target:
  assumes "nft_setup w ifaddrs fc s = (Inr u, t)"
    "chain_rules Ip ''prerouting'' s = []" "chain_rules Ip ''output'' s = []"
    "addrs = get_interface_ips ifaddrs (fc_interface fc)"
  shows "nat_target pk (chain_rules Ip ''output'' t) =
      (case fc_fwmark fc of
         None \<Rightarrow> None
       | Some fwmark \<Rightarrow>
           if pk_mark pk = fwmark \<or> pk_local pk \<or> pk_udp pk \<or> excluded Ip (fc_upstream_addr fc) pk then None
           else tcp_target (fc_ports fc) (map_option ipv4_display (ia_ipv4 addrs)) (dec (unat (fc_proxy_port fc))) pk)"
  unfolding setup_chains(2) [OF assms]
  by (auto simp: output_bodies_correct output_decision_def split: option.split)

section \<open>Properties\<close>


text \<open>
  C10. QUIC fails closed: whichever of the optional commands fail, when setup returns normally every UDP port
  that is to be kept from bypassing the proxy has a rule on IPv4 that diverts datagrams arriving on the
  interface to the proxy, or one that drops them; and with local traffic enabled a rule drops those the
  gateway sends itself.
\<close>

theorem nft_quic_fails_closed:
  assumes "nft_setup w ifaddrs fc s = (Inr u, t)" "p \<in> set (quic_block_ports fc)" "pk_udp pk" "pk_dport pk = p"
  shows "(pk_iif pk = fc_interface fc \<longrightarrow>
      (\<exists>body \<in> set (chain_rules Ip ''tproxy_prerouting'' t).
         body_verdict pk body = Some (Tproxy ('':'' @ dec (unat (fc_proxy_port fc))))) \<or>
      (\<exists>body \<in> set (chain_rules Ip ''quic_forward'' t). body_verdict pk body = Some Drop)) \<and>
    (pk_oif pk = fc_interface fc \<and> fc_fwmark fc \<noteq> None \<longrightarrow>
      (\<exists>body \<in> set (chain_rules Ip ''quic_output'' t). body_verdict pk body = Some Drop))"
proof -
  let ?addrs = "get_interface_ips ifaddrs (fc_interface fc)"
  obtain s1 s2 where "setup_ipv4 w fc ?addrs s1 = (Inr (), s2)" and t: "t = after_ipv4 w fc ?addrs s2"
    using nft_setup_split [OF assms(1)] by metis
  then obtain s3 where udp: "setup_udp_handling w fc Ip s3 = (Inr (), s2)"
    using setup_ipv4_split by metis
  note covers = udp_handling_covers [OF udp assms(2)]
  show ?thesis
    unfolding t logs_after_ipv4_quiet using covers quic_bodies_verdict [OF assms(3,4)] by blast
qed

text \<open>A gateway with an HTTP upstream, on a host where no IPv6 table can be added.\<close>

text \<open>Where every command works, the setup succeeds.\<close>

lemma run_all_succeeds: "run_all (\<lambda>_ _. True) cs s = (Inr (), s @ map (\<lambda>c. (c, True)) cs)"
  by (induction cs arbitrary: s) (simp_all add: run_cmd_def)

lemma setup_succeeds: "\<exists>t. nft_setup (\<lambda>_ _. True) ifaddrs fc s = (Inr (), t)"
  by (simp add: nft_setup_def setup_ipv4_def setup_udp_handling_def setup_udp_tproxy_def setup_quic_block_def
      setup_quic_block_output_def run_all_succeeds run_cmd_def Let_def split_beta)

definition demo_firewall :: firewall_config where
  "demo_firewall =
     \<lparr>fc_interface = ''eth0'', fc_proxy_port = 8443, fc_fwmark = Some 1, fc_upstream_addr = None, fc_ports = None,
      fc_dns_listen = None, fc_block_quic = True, fc_proxy_udp = False\<rparr>"

definition demo_world :: world where
  "demo_world log c \<longleftrightarrow> \<not> (fst c = ''nft'' \<and> ''ip6'' \<in> set (snd c))"

lemma dec_not_ip6: "dec n \<noteq> ''ip6''" "''ip6'' \<noteq> dec n"
proof -
  have "\<not> list_all is_digit ''ip6''" by (simp add: is_digit_def code_def)
  then show "dec n \<noteq> ''ip6''" "''ip6'' \<noteq> dec n" using dec_digits [of n] by metis+
qed

lemma demo_setup: "\<exists>t. nft_setup demo_world None demo_firewall [] = (Inr (), t)"
proof -
  have "\<exists>t. setup_ipv4 demo_world demo_firewall \<lparr>ia_ipv4 = None, ia_ipv6 = None\<rparr> s = (Inr (), t)" for s
    by (simp add: setup_ipv4_def prerouting_commands_def prerouting_v4_def prerouting_bodies_def output_v4_def
        output_commands_def output_bodies_def setup_udp_handling_def setup_quic_block_def setup_quic_block_output_def
        quic_block_ports_def demo_firewall_def run_cmd_def demo_world_def add_table_def add_chain_def add_rule_def
        dns_target_v4_def quic_drop_body_def dec_not_ip6)
  then show ?thesis
    by (simp add: nft_setup_eq get_interface_ips_def demo_firewall_def [THEN arg_cong [where f = fc_interface]]
        run_cmd_def demo_world_def sysctl_def Let_def) (metis cmd_then_simps(2))
qed


theorem nft_quic_fails_closed_witness:
  "\<exists>t body. nft_setup demo_world None demo_firewall [] = (Inr (), t) \<and>
     (body \<in> set (chain_rules Ip ''tproxy_prerouting'' t) \<or> body \<in> set (chain_rules Ip ''quic_forward'' t))"
proof -
  obtain t where t: "nft_setup demo_world None demo_firewall [] = (Inr (), t)" using demo_setup by blast
  have "443 \<in> set (quic_block_ports demo_firewall)" by (simp add: quic_block_ports_def demo_firewall_def)
  from nft_quic_fails_closed [OF t this, of "\<lparr>pk_iif = ''eth0'', pk_oif = [], pk_udp = True, pk_daddr = ''192.0.2.1'',
      pk_dport = 443, pk_local = False, pk_mark = 0\<rparr>"] t
  show ?thesis by (simp add: demo_firewall_def) blast
qed

end
