(* ===== verification/Dial.thy ===== *)
theory Dial
  imports Proxy Nft_Props Machine
begin

text \<open>
  The connection to the upstream proxy, \<open>connect_proxy_stream\<close> of \<^verbatim>\<open>src/src/tunnel.rs\<close>: the socket and the options
  that keep the firewall from intercepting the proxy's own traffic, set before it connects.  Together with the
  rules of \<open>Nftables\<close> this is what prevents loops.
\<close>

section \<open>The calls\<close>

text \<open>
  \<open>NewSocket\<close> is for IPv4 or not; \<open>BoundIf\<close> is \<open>IP_BOUND_IF\<close> or, for an IPv6 socket, \<open>IPV6_BOUND_IF\<close>, with the
  index of an interface.  The kernel decides which calls succeed; connecting also fails by the timeout.
\<close>

datatype dial_call =
    NewSocket bool
  | SetMark u32
  | BoundIf bool nat
  | ConnectTo socket_addr

definition connect_proxy_stream ::
    "dial_call kernel \<Rightarrow> upstream_proxy \<Rightarrow> u32 option \<Rightarrow> bool \<times> dial_call list" where
  "connect_proxy_stream k proxy fwmark =
     checked k
       ([NewSocket (is_ipv4 (up_addr proxy))] @
        (case fwmark of Some mark \<Rightarrow> [SetMark mark] | None \<Rightarrow> []) @
        [ConnectTo (up_addr proxy)]) []"

text \<open>On macOS; \<open>lo0_index\<close> is what \<open>if_nametoindex\<close> answers, 0 for no such interface.\<close>

definition bind_to_loopback :: "dial_call kernel \<Rightarrow> nat \<Rightarrow> bool \<Rightarrow> dial_call list \<Rightarrow> bool \<times> dial_call list" where
  "bind_to_loopback k lo0_index v4 calls =
     (if lo0_index = 0 then (False, calls) else checked k [BoundIf (\<not> v4) lo0_index] calls)"

definition macos_connect_proxy_stream ::
    "dial_call kernel \<Rightarrow> nat \<Rightarrow> upstream_proxy \<Rightarrow> bool \<Rightarrow> bool \<times> dial_call list" where
  "macos_connect_proxy_stream k lo0_index proxy local_traffic =
     (let v4 = is_ipv4 (up_addr proxy) in
      case checked k [NewSocket v4] [] of
        (False, calls) \<Rightarrow> (False, calls)
      | (True, calls) \<Rightarrow>
          (case (if local_traffic \<and> ip_is_loopback (sock_ip (up_addr proxy)) then bind_to_loopback k lo0_index v4 calls
                 else (True, calls)) of
             (False, calls) \<Rightarrow> (False, calls)
           | (True, calls) \<Rightarrow> checked k [ConnectTo (up_addr proxy)] calls))"

section \<open>The mark of a connection\<close>

text \<open>The packets of a connection carry the mark that its socket has when it connects, 0 by default.\<close>

fun marks_at_connect :: "u32 \<Rightarrow> dial_call list \<Rightarrow> u32 list" where
  "marks_at_connect m [] = []"
| "marks_at_connect m (SetMark m' # cs) = marks_at_connect m' cs"
| "marks_at_connect m (ConnectTo a # cs) = m # marks_at_connect m cs"
| "marks_at_connect m (_ # cs) = marks_at_connect m cs"

lemma marks_at_connect_prefix:
  "prefix cs ([NewSocket v4] @ (case fwmark of Some mark \<Rightarrow> [SetMark mark] | None \<Rightarrow> []) @ [ConnectTo a]) \<Longrightarrow>
   set (marks_at_connect 0 cs) \<subseteq> {case fwmark of Some mark \<Rightarrow> mark | None \<Rightarrow> 0}"
  by (cases fwmark) (auto simp: prefix_Cons)

lemma dial_marks:
  assumes "connect_proxy_stream k proxy fwmark = (ok, calls)"
  shows "set (marks_at_connect 0 calls) \<subseteq> {case fwmark of Some mark \<Rightarrow> mark | None \<Rightarrow> 0}"
    "ok \<Longrightarrow> marks_at_connect 0 calls = [case fwmark of Some mark \<Rightarrow> mark | None \<Rightarrow> 0]"
proof -
  let ?steps = "[NewSocket (is_ipv4 (up_addr proxy))] @ (case fwmark of Some mark \<Rightarrow> [SetMark mark] | None \<Rightarrow> []) @
        [ConnectTo (up_addr proxy)]"
  have "checked k ?steps [] = (ok, calls)" using assms by (simp add: connect_proxy_stream_def)
  from checked_trace [OF this] have calls: "prefix calls ?steps" "ok \<Longrightarrow> length calls = length ?steps" by auto
  from marks_at_connect_prefix [OF calls(1)]
  show "set (marks_at_connect 0 calls) \<subseteq> {case fwmark of Some mark \<Rightarrow> mark | None \<Rightarrow> 0}" .
  assume ok
  moreover obtain zs where zs: "?steps = calls @ zs" using calls(1) unfolding prefix_def by blast
  ultimately have "zs = []" using calls(2) arg_cong [OF zs, of length] by simp
  then have "calls = ?steps" using zs by simp
  then show "marks_at_connect 0 calls = [case fwmark of Some mark \<Rightarrow> mark | None \<Rightarrow> 0]"
    by (simp split: option.split)
qed

lemma macos_dial_bound:
  assumes "macos_connect_proxy_stream k lo0_index proxy local_traffic = (ok, calls)" "ConnectTo a \<in> set calls"
  shows "calls = [NewSocket (is_ipv4 (up_addr proxy))] @
      (if local_traffic \<and> ip_is_loopback (sock_ip (up_addr proxy))
       then [BoundIf (\<not> is_ipv4 (up_addr proxy)) lo0_index] else []) @ [ConnectTo (up_addr proxy)]"
  using assms
  by (auto simp: macos_connect_proxy_stream_def bind_to_loopback_def Let_def split: if_splits prod.splits bool.splits)

section \<open>Properties\<close>



end
