(* ===== verification/Service.thy ===== *)
theory Service
  imports Firewall
begin

text \<open>
  What the two service managers share, \<^verbatim>\<open>src/src/service/mod.rs\<close>: which arguments go into a service
  definition, and the effects of installation on the host.  The command line that a service definition
  carries is read back by a program that is not part of the repository (a shell, systemd), so the
  contract between a quoting function and such a reader is a locale.
\<close>

section \<open>Arguments\<close>

definition skip_flags :: "string list" where
  "skip_flags =
     [''--install'', ''--uninstall'', ''--start'', ''--stop'', ''--daemon'', ''-d'', ''--setup-firewall'',
      ''--teardown-firewall'']"

definition skip_with_value :: "string list" where
  "skip_with_value = [''--pid-file'', ''--log-file'']"

text \<open>The inner loop: \<open>Some skip_next\<close> when the argument matched.\<close>

fun match_value_flag :: "string list \<Rightarrow> string \<Rightarrow> bool option" where
  "match_value_flag [] arg = None"
| "match_value_flag (pre # pres) arg =
     (if arg = pre then Some True
      else if starts_with (pre @ ''='') arg then Some False
      else match_value_flag pres arg)"

fun filter_args_loop :: "bool \<Rightarrow> string list \<Rightarrow> string list" where
  "filter_args_loop skip_next [] = []"
| "filter_args_loop skip_next (arg # args) =
     (if skip_next then filter_args_loop False args
      else if arg \<in> set skip_flags then filter_args_loop False args
      else (case match_value_flag skip_with_value arg of
              Some skip_next \<Rightarrow> filter_args_loop skip_next args
            | None \<Rightarrow> arg # filter_args_loop False args))"

definition filter_service_args :: "string list \<Rightarrow> string list" where
  "filter_service_args args = filter_args_loop False args"

fun extract_arg :: "string list \<Rightarrow> string \<Rightarrow> string option" where
  "extract_arg [] flag = None"
| "extract_arg (arg # args) flag =
     (if arg = flag then (case args of v # _ \<Rightarrow> Some v | [] \<Rightarrow> None)
      else (case strip_prefix (flag @ ''='') arg of
              Some v \<Rightarrow> Some v
            | None \<Rightarrow> extract_arg args flag))"

definition has_flag :: "string list \<Rightarrow> string \<Rightarrow> bool" where
  "has_flag args flag = list_ex (\<lambda>a. a = flag) args"

text \<open>The arguments of the command that sets the firewall up before the service starts.\<close>

definition forward_flags :: "string list \<Rightarrow> string list \<Rightarrow> string list \<Rightarrow> string list" where
  "forward_flags value_flags bool_flags filtered_args =
     [''--setup-firewall''] @
     concat (map (\<lambda>flag. case extract_arg filtered_args flag of Some v \<Rightarrow> [flag, v] | None \<Rightarrow> []) value_flags) @
     filter (has_flag filtered_args) bool_flags"

section \<open>The host\<close>

text \<open>
  The file system (contents by path, and directories), whether the process is root, and what was done.
  The operating system decides whether an action succeeds (\<open>None\<close>), with its documented effect, or fails,
  leaving anything behind at the paths that it touches.  Copying a file onto itself truncates it, as the
  documentation of \<open>fs::copy\<close> says.
\<close>

datatype action =
    CopyFile string string
  | WriteFile string string
  | RemoveFile string
  | RemoveDirAll string
  | CreateDirAll string
  | Exec command

record host =
  h_root :: bool
  h_files :: "string \<Rightarrow> string option"
  h_dirs :: "string \<Rightarrow> bool"
  h_done :: "action list"

type_synonym os = "host \<Rightarrow> action \<Rightarrow> ((string \<Rightarrow> string option) \<times> (string \<Rightarrow> bool)) option"

datatype service_error = NotRoot | NoExecutable | NotInstalled | ActionFailed action

type_synonym service_result = "(service_error + unit) \<times> host"

fun effect :: "action \<Rightarrow> host \<Rightarrow> host" where
  "effect (CopyFile from to) h = h\<lparr>h_files := (h_files h)(to := (if from = to then Some [] else h_files h from))\<rparr>"
| "effect (WriteFile path content) h = h\<lparr>h_files := (h_files h)(path := Some content)\<rparr>"
| "effect (RemoveFile path) h = h\<lparr>h_files := (h_files h)(path := None)\<rparr>"
| "effect (RemoveDirAll dir) h =
     h\<lparr>h_files := (\<lambda>p. if starts_with (dir @ ''/'') p then None else h_files h p),
       h_dirs := (\<lambda>p. p \<noteq> dir \<and> \<not> starts_with (dir @ ''/'') p \<and> h_dirs h p)\<rparr>"
| "effect (CreateDirAll dir) h = h\<lparr>h_dirs := (h_dirs h)(dir := True)\<rparr>"
| "effect (Exec c) h = h"

fun touches :: "action \<Rightarrow> string \<Rightarrow> bool" where
  "touches (CopyFile from to) p = (p = to)"
| "touches (WriteFile path content) p = (p = path)"
| "touches (RemoveFile path) p = (p = path)"
| "touches (RemoveDirAll dir) p = (p = dir \<or> starts_with (dir @ ''/'') p)"
| "touches (CreateDirAll dir) p = (p = dir)"
| "touches (Exec c) p = False"

definition perform :: "os \<Rightarrow> action \<Rightarrow> host \<Rightarrow> service_result" where
  "perform os a h =
     (case os h a of
        None \<Rightarrow> (Inr (), (effect a h)\<lparr>h_done := h_done h @ [a]\<rparr>)
      | Some (files, dirs) \<Rightarrow>
          (Inl (ActionFailed a),
           h\<lparr>h_files := (\<lambda>p. if touches a p then files p else h_files h p),
             h_dirs := (\<lambda>p. if touches a p then dirs p else h_dirs h p), h_done := h_done h @ [a]\<rparr>))"

fun perform_all :: "os \<Rightarrow> action list \<Rightarrow> host \<Rightarrow> service_result" where
  "perform_all os [] h = (Inr (), h)"
| "perform_all os (a # as) h = cmd_then (perform os a h) (perform_all os as)"

definition path_exists :: "host \<Rightarrow> string \<Rightarrow> bool" where
  "path_exists h p \<longleftrightarrow> h_files h p \<noteq> None \<or> h_dirs h p"

definition check_root :: "host \<Rightarrow> service_result" where
  "check_root h = (if h_root h then (Inr (), h) else (Inl NotRoot, h))"

definition set_executable :: "string \<Rightarrow> action" where
  "set_executable path = Exec (''chmod'', [''755'', path])"

definition INSTALL_BIN :: string where "INSTALL_BIN = ''/usr/local/bin/trans_proxy''"
definition SCRIPTS_DIR :: string where "SCRIPTS_DIR = ''/usr/local/lib/trans_proxy''"

section \<open>Quoting\<close>

abbreviation sq :: char where "sq \<equiv> CHR 0x27"
abbreviation dq :: char where "dq \<equiv> CHR 0x22"
abbreviation bs :: char where "bs \<equiv> CHR 0x5C"
abbreviation lf :: char where "lf \<equiv> CHR ''\<newline>''"

definition is_alnum :: "char \<Rightarrow> bool" where
  "is_alnum c \<longleftrightarrow> is_digit c \<or> 65 \<le> code c \<and> code c \<le> 90 \<or> 97 \<le> code c \<and> code c \<le> 122"

text \<open>\<open>str::replace\<close> of a character.\<close>

definition replace_char :: "char \<Rightarrow> string \<Rightarrow> string \<Rightarrow> string" where
  "replace_char c r s = concat (map (\<lambda>x. if x = c then r else [x]) s)"

text \<open>A reader extends the word it is reading, which a quote alone may have begun.\<close>

definition grow :: "string option \<Rightarrow> string \<Rightarrow> string option" where
  "grow cur s = Some ((case cur of None \<Rightarrow> [] | Some w \<Rightarrow> w) @ s)"

text \<open>
  A quoting function and the reader of command lines it is meant for: the reader takes a quoted
  argument that is safe for it, at the end of the line or before a space, as exactly that argument.
\<close>

locale quoting =
  fixes quote :: "string \<Rightarrow> string"
    and words :: "string \<Rightarrow> string list option"
    and safe :: "string \<Rightarrow> bool"
  assumes words_last: "safe a \<Longrightarrow> words (quote a) = Some [a]"
    and words_more: "safe a \<Longrightarrow> words (quote a @ CHR '' '' # s) = map_option ((#) a) (words s)"
begin

lemma words_join: "list_all safe as \<Longrightarrow> as \<noteq> [] \<Longrightarrow> words (join '' '' (map quote as)) = Some as"
proof (induction as)
  case (Cons a as)
  then show ?case by (cases as) (simp_all add: words_last words_more)
qed simp

lemma command_words:
  "quote program = program \<Longrightarrow> safe program \<Longrightarrow> list_all safe args \<Longrightarrow>
   words (join '' '' (program # map quote args)) = Some (program # args)"
  using words_join [of "program # args"] by simp

end

section \<open>Lemmas\<close>

lemma perform_Inr: "perform os a h = (Inr u, h') \<longleftrightarrow> os h a = None \<and> h' = (effect a h)\<lparr>h_done := h_done h @ [a]\<rparr>"
  by (auto simp: perform_def split: option.split)

text \<open>An action changes nothing but the paths it touches.\<close>

lemma effect_frame: "\<not> touches a p \<Longrightarrow> h_files (effect a h) p = h_files h p \<and> h_dirs (effect a h) p = h_dirs h p"
  by (cases a) auto

lemma perform_frame:
  "\<not> touches a p \<Longrightarrow> h_files (snd (perform os a h)) p = h_files h p \<and> h_dirs (snd (perform os a h)) p = h_dirs h p"
  by (simp add: perform_def effect_frame split: option.split)

lemma effect_root [simp]: "h_root (effect a h) = h_root h"
  by (cases a) simp_all

lemma effect_done [simp]: "h_done (effect a h) = h_done h"
  by (cases a) simp_all

lemma filter_args_loop_flags:
  "a \<in> set (filter_args_loop skip args) \<Longrightarrow> a \<notin> set skip_flags \<and> match_value_flag skip_with_value a = None"
  by (induction skip args rule: filter_args_loop.induct) (auto split: if_splits option.splits)

lemma filter_args_loop_keep:
  "\<forall>a \<in> set args. a \<notin> set skip_flags \<and> match_value_flag skip_with_value a = None \<Longrightarrow>
   filter_args_loop False args = args"
  by (induction args) auto

lemma filter_service_args_idem: "filter_service_args (filter_service_args args) = filter_service_args args"
  unfolding filter_service_args_def
  by (rule filter_args_loop_keep) (blast dest: filter_args_loop_flags)

lemma filter_args_loop_set: "a \<in> set (filter_args_loop skip args) \<Longrightarrow> a \<in> set args"
  by (induction skip args rule: filter_args_loop.induct) (auto split: if_splits option.splits)

lemma filter_service_args_set: "a \<in> set (filter_service_args args) \<Longrightarrow> a \<in> set args"
  unfolding filter_service_args_def by (rule filter_args_loop_set)

lemma replace_char_simps [simp]:
  "replace_char c r [] = []" "replace_char c r (x # s) = (if x = c then r else [x]) @ replace_char c r s"
  by (simp_all add: replace_char_def)

text \<open>The value of a flag is one of the arguments, or the rest of one.\<close>

lemma strip_prefix_SomeD: "strip_prefix p s = Some r \<Longrightarrow> s = p @ r"
  unfolding strip_prefix_def by (metis append_take_drop_id option.distinct(1) option.inject)

lemma extract_arg_sub: "extract_arg args flag = Some v \<Longrightarrow> \<exists>a \<in> set args. \<exists>pre. a = pre @ v"
proof (induction args)
  case (Cons arg args)
  from Cons.prems consider (found) "arg = flag" "\<exists>rest. args = v # rest"
    | (joined) "strip_prefix (flag @ ''='') arg = Some v"
    | (later) "extract_arg args flag = Some v"
    by (fastforce simp: neq_Nil_conv split: if_splits option.splits list.splits)
  then show ?case
  proof cases
    case found
    then have "v \<in> set (arg # args)" by auto
    then show ?thesis by (metis append_Nil)
  next
    case joined
    then show ?thesis by (metis strip_prefix_SomeD list.set_intros(1))
  next
    case later
    then show ?thesis using Cons.IH by auto
  qed
qed simp

lemma grow_simps [simp]:
  "grow (grow cur a) b = grow cur (a @ b)" "grow (Some w) [] = Some w" "grow None s = Some s"
  by (simp_all add: grow_def)

end
