(* ===== verification/Systemd.thy ===== *)
theory Systemd
  imports Service
begin

text \<open>
  The Linux service, \<^verbatim>\<open>src/src/service/linux.rs\<close>: quoting for systemd, the unit file, and installation.  The
  reader of the unit is systemd; \<open>unit_directive\<close> and \<open>systemd_argv\<close> state the rules of its documentation
  (systemd.syntax, systemd.service) that the unit relies on.
\<close>

definition UNIT_PATH :: string where "UNIT_PATH = ''/etc/systemd/system/trans_proxy.service''"

section \<open>Quoting\<close>

definition sd_bare :: "char \<Rightarrow> bool" where
  "sd_bare c \<longleftrightarrow> is_alnum c \<or> c \<in> set ''@_+=:,./-''"

definition sd_escape :: "char \<Rightarrow> string" where
  "sd_escape c = (if c = dq then [bs, dq] else if c = bs then [bs, bs] else [c])"

definition systemd_quote_arg :: "string \<Rightarrow> string" where
  "systemd_quote_arg arg =
     (let escaped = replace_char CHR ''$'' ''$$'' (replace_char CHR ''%'' ''%%'' arg) in
      if escaped \<noteq> [] \<and> list_all sd_bare escaped then escaped
      else [dq] @ concat (map sd_escape escaped) @ [dq])"

definition systemd_command :: "string \<Rightarrow> string list \<Rightarrow> string" where
  "systemd_command program args = join '' '' (program # map systemd_quote_arg args)"

section \<open>The unit\<close>

definition linux_setup_args :: "string list \<Rightarrow> string list" where
  "linux_setup_args args =
     forward_flags [''--interface'', ''--listen-addr'', ''--upstream-proxy'', ''--dns-listen'', ''--ports'', ''--fwmark'']
       [''--local-traffic'', ''--dns''] (filter_service_args args)"

definition generate_unit :: "string list \<Rightarrow> string" where
  "generate_unit args =
     (let exec_start = systemd_command INSTALL_BIN (filter_service_args args);
          setup_cmd = systemd_command INSTALL_BIN (linux_setup_args args);
          teardown_cmd = INSTALL_BIN @ '' --teardown-firewall'' in
      join [lf]
        [''[Unit]'',
         ''Description=Transparent proxy with upstream HTTP CONNECT and SOCKS5 support'',
         ''After=network-online.target'',
         ''Wants=network-online.target'',
         [],
         ''[Service]'',
         ''Type=simple'',
         ''ExecStartPre='' @ setup_cmd,
         ''ExecStart='' @ exec_start,
         ''ExecStopPost='' @ teardown_cmd,
         ''Restart=always'',
         ''RestartSec=5'',
         ''StandardOutput=journal'',
         ''StandardError=journal'',
         ''LimitNOFILE=65536'',
         ''ProtectSystem=false'',
         ''PrivateTmp=false'',
         ''AmbientCapabilities=CAP_NET_ADMIN CAP_NET_BIND_SERVICE'',
         [],
         ''[Install]'',
         ''WantedBy=multi-user.target'',
         []])"

section \<open>Installation\<close>

definition linux_install :: "os \<Rightarrow> string option \<Rightarrow> string list \<Rightarrow> host \<Rightarrow> service_result" where
  "linux_install os current_exe args h =
     cmd_then (check_root h) (\<lambda>h.
     case current_exe of None \<Rightarrow> (Inl NoExecutable, h) | Some exe \<Rightarrow>
     cmd_then (perform_all os [CopyFile exe INSTALL_BIN, set_executable INSTALL_BIN] h) (\<lambda>h.
     let h = (if path_exists h SCRIPTS_DIR then snd (perform os (RemoveDirAll SCRIPTS_DIR) h) else h) in
     perform_all os
       [WriteFile UNIT_PATH (generate_unit args), Exec (''systemctl'', [''daemon-reload'']),
        Exec (''systemctl'', [''enable'', ''--now'', ''trans_proxy''])] h))"

definition linux_start :: "os \<Rightarrow> host \<Rightarrow> service_result" where
  "linux_start os h =
     cmd_then (check_root h) (\<lambda>h.
     if \<not> path_exists h UNIT_PATH then (Inl NotInstalled, h)
     else perform os (Exec (''systemctl'', [''start'', ''trans_proxy''])) h)"

definition linux_stop :: "os \<Rightarrow> host \<Rightarrow> service_result" where
  "linux_stop os h =
     cmd_then (check_root h) (\<lambda>h.
     if \<not> path_exists h UNIT_PATH then (Inl NotInstalled, h)
     else perform os (Exec (''systemctl'', [''stop'', ''trans_proxy''])) h)"

definition linux_uninstall :: "os \<Rightarrow> host \<Rightarrow> service_result" where
  "linux_uninstall os h =
     cmd_then (check_root h) (\<lambda>h.
     cmd_then
       (if path_exists h UNIT_PATH then
          perform os (RemoveFile UNIT_PATH)
            (snd (perform os (Exec (''systemctl'', [''disable'', ''--now'', ''trans_proxy''])) h))
        else (Inr (), h)) (\<lambda>h.
     cmd_then (if path_exists h INSTALL_BIN then perform os (RemoveFile INSTALL_BIN) h else (Inr (), h)) (\<lambda>h.
     cmd_then (if path_exists h SCRIPTS_DIR then perform os (RemoveDirAll SCRIPTS_DIR) h else (Inr (), h)) (\<lambda>h.
     (Inr (), snd (perform os (Exec (''systemctl'', [''daemon-reload''])) h))))))"

section \<open>The reader\<close>

text \<open>
  The value of a directive that stands on one line of its own.  Then the words of a command line: blanks separate,
  double quotes group and know the escapes of a quote and of a backslash, and characters without a
  meaning stand for themselves; in each word a doubled percent sign and then a doubled dollar sign stand
  for one.  Everything else (other escapes, specifiers, variables, \<open>;\<close>) is \<open>None\<close>.
\<close>

definition unit_directive :: "string \<Rightarrow> string \<Rightarrow> string option" where
  "unit_directive key unit_text =
     (case filter (starts_with (key @ ''='')) (split_on lf unit_text) of
        [l] \<Rightarrow> strip_prefix (key @ ''='') l | _ \<Rightarrow> None)"

definition sd_plain :: "char \<Rightarrow> bool" where
  "sd_plain c \<longleftrightarrow> sd_bare c \<or> c = CHR ''%'' \<or> c = CHR ''$''"

fun sd_unquote :: "bool \<Rightarrow> string option \<Rightarrow> string \<Rightarrow> string list option" where
  "sd_unquote quoted cur [] = (if quoted then None else Some (case cur of None \<Rightarrow> [] | Some w \<Rightarrow> [w]))"
| "sd_unquote True cur (c # cs) =
     (if c = dq then sd_unquote False cur cs
      else if c = bs then
        (case cs of [] \<Rightarrow> None | d # ds \<Rightarrow> if d = dq \<or> d = bs then sd_unquote True (grow cur [d]) ds else None)
      else sd_unquote True (grow cur [c]) cs)"
| "sd_unquote False cur (c # cs) =
     (if c = CHR '' '' then
        (case cur of None \<Rightarrow> sd_unquote False None cs | Some w \<Rightarrow> map_option ((#) w) (sd_unquote False None cs))
      else if c = dq then sd_unquote True (grow cur []) cs
      else if sd_plain c then sd_unquote False (grow cur [c]) cs
      else None)"

fun undouble :: "char \<Rightarrow> string \<Rightarrow> string option" where
  "undouble x [] = Some []"
| "undouble x (c # cs) =
     (if c \<noteq> x then map_option ((#) c) (undouble x cs)
      else (case cs of [] \<Rightarrow> None | d # ds \<Rightarrow> if d = x then map_option ((#) x) (undouble x ds) else None))"

definition sd_word :: "string \<Rightarrow> string option" where
  "sd_word w = Option.bind (undouble CHR ''%'' w) (undouble CHR ''$'')"

definition systemd_argv :: "string \<Rightarrow> string list option" where
  "systemd_argv s = Option.bind (sd_unquote False None s) (\<lambda>ws. those (map sd_word ws))"

section \<open>Lemmas on the reader\<close>

lemma sd_bare_plain: "sd_bare c \<Longrightarrow> c \<noteq> CHR '' '' \<and> c \<noteq> dq \<and> c \<noteq> bs \<and> c \<noteq> CHR ''%'' \<and> c \<noteq> CHR ''$''"
  by (auto simp: sd_bare_def is_alnum_def is_digit_def code_def)

lemma sd_unquote_bare: "list_all sd_bare a \<Longrightarrow> sd_unquote False (Some w) (a @ s) = sd_unquote False (Some (w @ a)) s"
proof (induction a arbitrary: w)
  case (Cons c a)
  then show ?case using sd_bare_plain [of c] by (simp add: grow_def sd_plain_def)
qed simp

lemma sd_unquote_bare_word:
  "list_all sd_bare a \<Longrightarrow> a \<noteq> [] \<Longrightarrow> sd_unquote False None (a @ s) = sd_unquote False (Some a) s"
proof (cases a)
  case (Cons c b)
  assume "list_all sd_bare a"
  then show ?thesis using Cons sd_bare_plain [of c] sd_unquote_bare [of b "[c]" s] by (simp add: sd_plain_def)
qed simp

lemma sd_unquote_quoted:
  "sd_unquote True (Some w) (concat (map sd_escape a) @ dq # s) = sd_unquote False (Some (w @ a)) s"
  by (induction a arbitrary: w) (auto simp: sd_escape_def grow_def)

lemma undouble_double: "undouble x (replace_char x [x, x] a) = Some a"
  by (induction a) auto

definition sd_escaped :: "string \<Rightarrow> string" where
  "sd_escaped arg = replace_char CHR ''$'' ''$$'' (replace_char CHR ''%'' ''%%'' arg)"

lemma undouble_other:
  "x \<noteq> y \<Longrightarrow> undouble x (replace_char y [y, y] s) = map_option (replace_char y [y, y]) (undouble x s)"
proof (induction x s rule: undouble.induct)
  case (2 x c cs)
  then show ?case
    by (cases cs) (auto simp: option.map_comp comp_def)
qed simp

lemma sd_word_escaped: "sd_word (sd_escaped arg) = Some arg"
  using undouble_other [of "CHR ''%''" "CHR ''$''" "replace_char CHR ''%'' ''%%'' arg"]
  by (simp add: sd_word_def sd_escaped_def undouble_double)

lemma sd_unquote_quote: "sd_unquote False None (systemd_quote_arg a @ s) = sd_unquote False (Some (sd_escaped a)) s"
  using sd_unquote_bare_word [of "sd_escaped a" s] sd_unquote_quoted [of "[]" "sd_escaped a" s]
  by (auto simp: systemd_quote_arg_def sd_escaped_def Let_def)

lemma systemd_argv_quote:
  "systemd_argv (systemd_quote_arg a) = Some [a]"
  "systemd_argv (systemd_quote_arg a @ CHR '' '' # s) = map_option ((#) a) (systemd_argv s)"
proof -
  show "systemd_argv (systemd_quote_arg a) = Some [a]"
    using sd_unquote_quote [of a "[]"] by (simp add: systemd_argv_def sd_word_escaped)
  show "systemd_argv (systemd_quote_arg a @ CHR '' '' # s) = map_option ((#) a) (systemd_argv s)"
    by (cases "sd_unquote False None s") (simp_all add: systemd_argv_def sd_unquote_quote sd_word_escaped)
qed

interpretation sd: quoting systemd_quote_arg systemd_argv "\<lambda>_. True"
  by unfold_locales (simp_all add: systemd_argv_quote)

lemma systemd_quote_INSTALL_BIN: "systemd_quote_arg INSTALL_BIN = INSTALL_BIN"
  by (simp add: systemd_quote_arg_def INSTALL_BIN_def sd_bare_def is_alnum_def is_digit_def code_def)

lemma systemd_command_words: "systemd_argv (systemd_command INSTALL_BIN args) = Some (INSTALL_BIN # args)"
  unfolding systemd_command_def
  by (rule sd.command_words) (simp_all add: systemd_quote_INSTALL_BIN list.pred_True)

end
