(* ===== verification/Launchd.thy ===== *)
theory Launchd
  imports Service
begin

text \<open>
  The macOS service, \<^verbatim>\<open>src/src/service/macos.rs\<close>: shell quoting, the wrapper script, the property list, and
  installation.  The reader of the wrapper is a POSIX shell; \<open>sh_words\<close> states the part of its rules for
  word splitting and quoting that the script relies on.
\<close>

definition PLIST_LABEL :: string where "PLIST_LABEL = ''com.github.madeye.trans_proxy''"
definition PLIST_PATH :: string where "PLIST_PATH = ''/Library/LaunchDaemons/com.github.madeye.trans_proxy.plist''"
definition LOG_PATH :: string where "LOG_PATH = ''/var/log/trans_proxy.log''"
definition WRAPPER_SCRIPT :: string where "WRAPPER_SCRIPT = ''/usr/local/lib/trans_proxy/run.sh''"

section \<open>Quoting\<close>

definition sh_bare :: "char \<Rightarrow> bool" where
  "sh_bare c \<longleftrightarrow> is_alnum c \<or> c \<in> set ''@%_+=:,./-''"

definition shell_quote :: "string \<Rightarrow> string" where
  "shell_quote arg =
     (if arg \<noteq> [] \<and> list_all sh_bare arg then arg
      else [sq] @ replace_char sq [sq, bs, sq, sq] arg @ [sq])"

definition shell_command :: "string \<Rightarrow> string list \<Rightarrow> string" where
  "shell_command program args = join '' '' (program # map shell_quote args)"

section \<open>Generated files\<close>

definition macos_setup_args :: "string list \<Rightarrow> string list" where
  "macos_setup_args args =
     forward_flags [''--interface'', ''--listen-addr'', ''--upstream-proxy'', ''--dns-listen'', ''--ports'']
       [''--local-traffic'', ''--dns''] (filter_service_args args)"

definition generate_wrapper :: "string list \<Rightarrow> string" where
  "generate_wrapper args =
     (let exec_args = shell_command INSTALL_BIN (filter_service_args args);
          setup_cmd = shell_command INSTALL_BIN (macos_setup_args args);
          teardown_cmd = INSTALL_BIN @ '' --teardown-firewall'' in
      join [lf]
        [''#!/bin/bash'',
         ''# Auto-generated wrapper script for trans_proxy LaunchDaemon.'',
         ''# Sets up firewall rules before starting, tears down on exit.'',
         ''set -euo pipefail'',
         [],
         ''cleanup() {'',
         ''    '' @ teardown_cmd,
         ''}'',
         ''trap cleanup EXIT'',
         [],
         setup_cmd,
         [],
         ''exec '' @ exec_args,
         []])"

definition generate_plist :: "string list \<Rightarrow> string" where
  "generate_plist args =
     join [lf]
       [''<?xml version='' @ [dq] @ ''1.0'' @ [dq] @ '' encoding='' @ [dq] @ ''UTF-8'' @ [dq] @ ''?>'',
        ''<!DOCTYPE plist PUBLIC '' @ [dq] @ ''-//Apple//DTD PLIST 1.0//EN'' @ [dq] @ '' '' @
          [dq] @ ''http://www.apple.com/DTDs/PropertyList-1.0.dtd'' @ [dq] @ ''>'',
        ''<plist version='' @ [dq] @ ''1.0'' @ [dq] @ ''>'',
        ''<dict>'',
        ''    <key>Label</key>'',
        ''    <string>'' @ PLIST_LABEL @ ''</string>'',
        ''    <key>ProgramArguments</key>'',
        ''    <array>'',
        ''        <string>'' @ WRAPPER_SCRIPT @ ''</string>'',
        ''    </array>'',
        ''    <key>RunAtLoad</key>'',
        ''    <true/>'',
        ''    <key>KeepAlive</key>'',
        ''    <true/>'',
        ''    <key>StandardOutPath</key>'',
        ''    <string>'' @ LOG_PATH @ ''</string>'',
        ''    <key>StandardErrorPath</key>'',
        ''    <string>'' @ LOG_PATH @ ''</string>'',
        ''    <key>WorkingDirectory</key>'',
        ''    <string>/</string>'',
        ''</dict>'',
        ''</plist>'',
        []]"

section \<open>Installation\<close>

definition macos_install :: "os \<Rightarrow> string option \<Rightarrow> string list \<Rightarrow> host \<Rightarrow> service_result" where
  "macos_install os current_exe args h =
     cmd_then (check_root h) (\<lambda>h.
     case current_exe of None \<Rightarrow> (Inl NoExecutable, h) | Some exe \<Rightarrow>
     cmd_then (perform_all os [CopyFile exe INSTALL_BIN, set_executable INSTALL_BIN, CreateDirAll SCRIPTS_DIR] h) (\<lambda>h.
     let h = snd (perform os (RemoveFile ''/usr/local/lib/trans_proxy/pf_setup.sh'') h);
         h = snd (perform os (RemoveFile ''/usr/local/lib/trans_proxy/pf_teardown.sh'') h) in
     perform_all os
       [WriteFile WRAPPER_SCRIPT (generate_wrapper args), set_executable WRAPPER_SCRIPT,
        WriteFile PLIST_PATH (generate_plist args), Exec (''chmod'', [''644'', PLIST_PATH]),
        Exec (''chown'', [''root:wheel'', PLIST_PATH]), Exec (''launchctl'', [''load'', ''-w'', PLIST_PATH])] h))"

definition macos_start :: "os \<Rightarrow> host \<Rightarrow> service_result" where
  "macos_start os h =
     cmd_then (check_root h) (\<lambda>h.
     if \<not> path_exists h PLIST_PATH then (Inl NotInstalled, h)
     else perform os (Exec (''launchctl'', [''load'', ''-w'', PLIST_PATH])) h)"

definition macos_stop :: "os \<Rightarrow> host \<Rightarrow> service_result" where
  "macos_stop os h =
     cmd_then (check_root h) (\<lambda>h.
     if \<not> path_exists h PLIST_PATH then (Inl NotInstalled, h)
     else perform os (Exec (''launchctl'', [''unload'', PLIST_PATH])) h)"

definition macos_uninstall :: "os \<Rightarrow> host \<Rightarrow> service_result" where
  "macos_uninstall os h =
     cmd_then (check_root h) (\<lambda>h.
     cmd_then
       (if path_exists h PLIST_PATH then
          perform os (RemoveFile PLIST_PATH) (snd (perform os (Exec (''launchctl'', [''unload'', ''-w'', PLIST_PATH])) h))
        else (Inr (), h)) (\<lambda>h.
     cmd_then (if path_exists h INSTALL_BIN then perform os (RemoveFile INSTALL_BIN) h else (Inr (), h)) (\<lambda>h.
     if path_exists h SCRIPTS_DIR then perform os (RemoveDirAll SCRIPTS_DIR) h else (Inr (), h))))"

section \<open>The reader\<close>

text \<open>
  Words of a simple command: blanks separate, single quotes keep everything literal, a backslash keeps
  the next character, and only characters without a meaning for the shell stand for themselves.
  Everything else (expansions, operators, comments, patterns) is \<open>None\<close>.
\<close>

fun sh_read :: "bool \<Rightarrow> string option \<Rightarrow> string \<Rightarrow> string list option" where
  "sh_read quoted cur [] = (if quoted then None else Some (case cur of None \<Rightarrow> [] | Some w \<Rightarrow> [w]))"
| "sh_read True cur (c # cs) = (if c = sq then sh_read False cur cs else sh_read True (grow cur [c]) cs)"
| "sh_read False cur (c # cs) =
     (if c = CHR '' '' then
        (case cur of None \<Rightarrow> sh_read False None cs | Some w \<Rightarrow> map_option ((#) w) (sh_read False None cs))
      else if c = sq then sh_read True (grow cur []) cs
      else if c = bs then
        (case cs of [] \<Rightarrow> None | d # ds \<Rightarrow> if d = lf then None else sh_read False (grow cur [d]) ds)
      else if sh_bare c then sh_read False (grow cur [c]) cs
      else None)"

definition sh_words :: "string \<Rightarrow> string list option" where
  "sh_words s = sh_read False None s"

lemma sh_bare_plain: "sh_bare c \<Longrightarrow> c \<noteq> CHR '' '' \<and> c \<noteq> sq \<and> c \<noteq> bs"
  by (auto simp: sh_bare_def is_alnum_def is_digit_def code_def)

lemma sh_read_bare: "list_all sh_bare a \<Longrightarrow> sh_read False (Some w) (a @ s) = sh_read False (Some (w @ a)) s"
proof (induction a arbitrary: w)
  case (Cons c a)
  then show ?case using sh_bare_plain [of c] by (simp add: grow_def)
qed simp

lemma sh_read_bare_word: "list_all sh_bare a \<Longrightarrow> a \<noteq> [] \<Longrightarrow> sh_read False None (a @ s) = sh_read False (Some a) s"
proof (cases a)
  case (Cons c b)
  assume "list_all sh_bare a"
  then show ?thesis using Cons sh_bare_plain [of c] sh_read_bare [of b "[c]" s] by simp
qed simp

lemma sh_read_quoted:
  "sh_read True (Some w) (replace_char sq [sq, bs, sq, sq] a @ sq # s) = sh_read False (Some (w @ a)) s"
  by (induction a arbitrary: w) (auto simp: grow_def)

lemma sh_read_quote: "sh_read False None (shell_quote a @ s) = sh_read False (Some a) s"
  using sh_read_bare_word [of a s] sh_read_quoted [of "[]" a s] by (auto simp: shell_quote_def)

interpretation sh: quoting shell_quote sh_words "\<lambda>_. True"
proof
  fix a s :: string
  show "sh_words (shell_quote a) = Some [a]"
    using sh_read_quote [of a "[]"] by (simp add: sh_words_def)
  show "sh_words (shell_quote a @ CHR '' '' # s) = map_option ((#) a) (sh_words s)"
    by (simp add: sh_words_def sh_read_quote)
qed

lemma shell_quote_INSTALL_BIN: "shell_quote INSTALL_BIN = INSTALL_BIN"
  by (simp add: shell_quote_def INSTALL_BIN_def sh_bare_def is_alnum_def is_digit_def code_def)

lemma shell_command_words: "sh_words (shell_command INSTALL_BIN args) = Some (INSTALL_BIN # args)"
  unfolding shell_command_def
  by (rule sh.command_words) (simp_all add: shell_quote_INSTALL_BIN list.pred_True)

end
