(* ===== verification/Service_Props.thy ===== *)
theory Service_Props
  imports Systemd Launchd
begin

text \<open>
  Properties of the service management: what the service managers run, which firewall options the
  service passes on, and what installation and removal leave behind.
\<close>

section \<open>The lines of the unit\<close>

lemma join_set: "c \<in> set (join sep xs) \<Longrightarrow> c \<in> set sep \<or> (\<exists>x \<in> set xs. c \<in> set x)"
  by (induction sep xs rule: join.induct) auto

lemma replace_char_set: "c \<in> set (replace_char x r s) \<Longrightarrow> c \<in> set r \<or> c \<in> set s"
  by (induction s) (auto split: if_splits)

lemma sd_escape_set: "c \<in> set (concat (map sd_escape s)) \<Longrightarrow> c \<in> {dq, bs} \<or> c \<in> set s"
  by (auto simp: sd_escape_def split: if_splits)

lemma systemd_quote_line: "lf \<notin> set a \<Longrightarrow> lf \<notin> set (systemd_quote_arg a)"
proof
  assume a: "lf \<notin> set a" and "lf \<in> set (systemd_quote_arg a)"
  then have "lf \<in> set (replace_char CHR ''$'' ''$$'' (replace_char CHR ''%'' ''%%'' a))"
    using sd_escape_set [of lf] by (auto simp: systemd_quote_arg_def Let_def simp del: set_concat split: if_splits)
  then show False using a by (auto dest!: replace_char_set)
qed

lemma systemd_command_line: "\<forall>a \<in> set args. lf \<notin> set a \<Longrightarrow> lf \<notin> set (systemd_command INSTALL_BIN args)"
  unfolding systemd_command_def
  by (auto dest!: join_set simp: INSTALL_BIN_def systemd_quote_line)

lemma extract_arg_line: "\<forall>a \<in> set args. lf \<notin> set a \<Longrightarrow> extract_arg args flag = Some v \<Longrightarrow> lf \<notin> set v"
  by (drule extract_arg_sub) auto

lemma forward_flags_line:
  assumes "\<forall>a \<in> set args. lf \<notin> set a" "\<forall>f \<in> set vf. lf \<notin> set f" "\<forall>f \<in> set bf. lf \<notin> set f"
  shows "\<forall>a \<in> set (forward_flags vf bf args). lf \<notin> set a"
  using assms extract_arg_line [OF assms(1)] by (fastforce simp: forward_flags_def split: option.splits)

lemma filter_service_args_line: "\<forall>a \<in> set args. lf \<notin> set a \<Longrightarrow> \<forall>a \<in> set (filter_service_args args). lf \<notin> set a"
  using filter_service_args_set by blast

lemma linux_setup_args_line: "\<forall>a \<in> set args. lf \<notin> set a \<Longrightarrow> \<forall>a \<in> set (linux_setup_args args). lf \<notin> set a"
  unfolding linux_setup_args_def by (intro forward_flags_line filter_service_args_line) simp_all

lemma unit_directives:
  assumes "\<forall>a \<in> set args. lf \<notin> set a"
  shows "unit_directive ''ExecStart'' (generate_unit args) = Some (systemd_command INSTALL_BIN (filter_service_args args))"
    "unit_directive ''ExecStartPre'' (generate_unit args) = Some (systemd_command INSTALL_BIN (linux_setup_args args))"
    "unit_directive ''ExecStopPost'' (generate_unit args) = Some (INSTALL_BIN @ '' --teardown-firewall'')"
proof -
  define start where "start = systemd_command INSTALL_BIN (filter_service_args args)"
  define pre where "pre = systemd_command INSTALL_BIN (linux_setup_args args)"
  have "lf \<notin> set start" "lf \<notin> set pre"
    unfolding start_def pre_def
    using systemd_command_line filter_service_args_line [OF assms] linux_setup_args_line [OF assms] by blast+
  then have lines: "split_on lf (generate_unit args) =
      [''[Unit]'',
         ''Description=Transparent proxy with upstream HTTP CONNECT and SOCKS5 support'',
         ''After=network-online.target'',
         ''Wants=network-online.target'',
         [],
         ''[Service]'',
         ''Type=simple'',
         ''ExecStartPre='' @ pre,
         ''ExecStart='' @ start,
         ''ExecStopPost='' @ INSTALL_BIN @ '' --teardown-firewall'',
         ''Restart=always'',
         ''RestartSec=5'',
         ''StandardOutput=journal'',
         ''StandardError=journal'',
         ''LimitNOFILE=65536'',
         ''ProtectSystem=false'',
         ''PrivateTmp=false'',
         ''AmbientCapabilities=CAP_NET_ADMIN CAP_NET_BIND_SERVICE'',
         [],
         ''[Install]'',
         ''WantedBy=multi-user.target'',
         []]"
    unfolding generate_unit_def Let_def start_def [symmetric] pre_def [symmetric]
    by (subst split_on_join) (simp_all add: INSTALL_BIN_def)
  show "unit_directive ''ExecStart'' (generate_unit args) = Some (systemd_command INSTALL_BIN (filter_service_args args))"
    "unit_directive ''ExecStartPre'' (generate_unit args) = Some (systemd_command INSTALL_BIN (linux_setup_args args))"
    "unit_directive ''ExecStopPost'' (generate_unit args) = Some (INSTALL_BIN @ '' --teardown-firewall'')"
    unfolding start_def [symmetric] pre_def [symmetric] unit_directive_def lines
    by (simp_all add: starts_with_def strip_prefix_def)
qed

section \<open>Forwarded options\<close>

lemma extract_arg_skip:
  "\<forall>a \<in> set xs. a \<noteq> f \<and> strip_prefix (f @ ''='') a = None \<Longrightarrow> extract_arg (xs @ ys) f = extract_arg ys f"
  by (induction xs) auto

definition is_option :: "string \<Rightarrow> bool" where
  "is_option s \<longleftrightarrow> starts_with ''--'' s \<and> CHR ''='' \<notin> set s"

lemma is_option_other: "is_option f \<Longrightarrow> is_option g \<Longrightarrow> strip_prefix (f @ ''='') g = None"
  using strip_prefix_SomeD [of "f @ ''=''" g] by (cases "strip_prefix (f @ ''='') g") (auto simp: is_option_def)

lemma is_option_value:
  assumes "is_option f" "\<not> starts_with ''--'' v"
  shows "v \<noteq> f \<and> strip_prefix (f @ ''='') v = None"
proof -
  obtain r where f: "f = ''--'' @ r"
    using assms(1) unfolding is_option_def starts_with_def by (metis append_take_drop_id)
  have "v \<noteq> f @ xs" for xs using assms(2) by (auto simp: f starts_with_def)
  then have "v \<noteq> f" "strip_prefix (f @ ''='') v = None"
    using strip_prefix_SomeD [of "f @ ''=''" v] by (cases "strip_prefix (f @ ''='') v", fastforce, fastforce)+
  then show ?thesis ..
qed

abbreviation flag_block :: "string list \<Rightarrow> string \<Rightarrow> string list" where
  "flag_block args g \<equiv> (case extract_arg args g of Some v \<Rightarrow> [g, v] | None \<Rightarrow> [])"

lemma flag_blocks_skip:
  assumes "f \<notin> set vf" "is_option f" "\<forall>g \<in> set vf. is_option g"
    "\<forall>g \<in> set vf. \<forall>v. extract_arg args g = Some v \<longrightarrow> \<not> starts_with ''--'' v"
  shows "\<forall>a \<in> set (concat (map (flag_block args) vf)). a \<noteq> f \<and> strip_prefix (f @ ''='') a = None"
proof
  fix a
  assume "a \<in> set (concat (map (flag_block args) vf))"
  then obtain g where g: "g \<in> set vf" "a \<in> set (flag_block args g)" by auto
  then consider "a = g" | "extract_arg args g = Some a" by (auto split: option.splits)
  then show "a \<noteq> f \<and> strip_prefix (f @ ''='') a = None"
  proof cases
    case 1
    then show ?thesis using g assms is_option_other by auto
  next
    case 2
    then show ?thesis using g assms is_option_value by blast
  qed
qed

lemma flag_blocks_extract:
  assumes "distinct vf" "f \<in> set vf" "\<forall>g \<in> set vf. is_option g"
    "\<forall>g \<in> set vf. \<forall>v. extract_arg args g = Some v \<longrightarrow> \<not> starts_with ''--'' v" "extract_arg ys f = None"
  shows "extract_arg (concat (map (flag_block args) vf) @ ys) f = extract_arg args f"
proof -
  obtain us ws where vf: "vf = us @ f # ws" "f \<notin> set us" using split_list_first [OF assms(2)] by blast
  have skip: "extract_arg (concat (map (flag_block args) us) @ zs) f = extract_arg zs f" for zs
    using assms(3,4) vf by (intro extract_arg_skip flag_blocks_skip) auto
  have ws: "extract_arg (concat (map (flag_block args) ws) @ ys) f = None"
    using extract_arg_skip [OF flag_blocks_skip [of f ws args], of ys] assms vf by auto
  show ?thesis
    using skip [of "flag_block args f @ concat (map (flag_block args) ws) @ ys"] ws
    by (cases "extract_arg args f") (simp_all add: vf(1))
qed

lemma forward_flags_extract:
  assumes "distinct vf" "f \<in> set vf" "\<forall>g \<in> set vf. is_option g" "\<forall>g \<in> set bf. is_option g"
    "f \<notin> set bf" "f \<noteq> ''--setup-firewall''"
    "\<forall>g \<in> set vf. \<forall>v. extract_arg args g = Some v \<longrightarrow> \<not> starts_with ''--'' v"
  shows "extract_arg (forward_flags vf bf args) f = extract_arg args f"
proof -
  have f: "is_option f" using assms(2,3) by blast
  have "extract_arg (filter (has_flag args) bf @ []) f = extract_arg [] f"
    using assms(4,5) is_option_other [OF f] by (intro extract_arg_skip) auto
  moreover have "extract_arg ([''--setup-firewall''] @ ys) f = extract_arg ys f" for ys
    using assms(6) is_option_other [OF f, of "''--setup-firewall''"]
    by (intro extract_arg_skip) (simp add: is_option_def starts_with_def)
  ultimately show ?thesis
    using flag_blocks_extract [OF assms(1,2,3,7)] by (simp add: forward_flags_def)
qed

lemma forward_flags_mem:
  assumes "is_option f" "f \<noteq> ''--setup-firewall''" "f \<notin> set vf" "\<forall>g \<in> set vf. is_option g"
    "\<forall>g \<in> set vf. \<forall>v. extract_arg args g = Some v \<longrightarrow> \<not> starts_with ''--'' v"
  shows "has_flag (forward_flags vf bf args) f \<longleftrightarrow> f \<in> set bf \<and> has_flag args f"
  using assms(2) flag_blocks_skip [OF assms(3,1,4,5)]
  by (auto simp: forward_flags_def has_flag_def list_ex_iff simp del: set_concat)

section \<open>Installation\<close>

lemma effect_done_commute: "effect a (h\<lparr>h_done := x\<rparr>) = (effect a h)\<lparr>h_done := x\<rparr>"
  by (cases a) (simp_all cong: if_cong)

lemma fold_effect_done: "fold effect as (h\<lparr>h_done := x\<rparr>) = (fold effect as h)\<lparr>h_done := x\<rparr>"
  by (induction as arbitrary: h) (simp_all add: effect_done_commute)

lemma perform_all_Inr:
  "perform_all os as h = (Inr u, h') \<Longrightarrow> h' = (fold effect as h)\<lparr>h_done := h_done h @ as\<rparr>"
proof (induction as arbitrary: h)
  case (Cons a as)
  then have "perform_all os as ((effect a h)\<lparr>h_done := h_done h @ [a]\<rparr>) = (Inr u, h')"
    by (auto simp: cmd_then_Inr perform_Inr)
  from Cons.IH [OF this] show ?case by (simp add: fold_effect_done)
qed simp

lemma paths_apart:
  "INSTALL_BIN \<noteq> UNIT_PATH" "UNIT_PATH \<noteq> INSTALL_BIN" "PLIST_PATH \<noteq> INSTALL_BIN" "INSTALL_BIN \<noteq> PLIST_PATH"
  "WRAPPER_SCRIPT \<noteq> PLIST_PATH" "PLIST_PATH \<noteq> WRAPPER_SCRIPT" "WRAPPER_SCRIPT \<noteq> INSTALL_BIN" "INSTALL_BIN \<noteq> WRAPPER_SCRIPT"
  "\<not> touches (RemoveDirAll SCRIPTS_DIR) INSTALL_BIN" "\<not> touches (RemoveDirAll SCRIPTS_DIR) UNIT_PATH"
  "\<not> touches (RemoveDirAll SCRIPTS_DIR) PLIST_PATH"
  "INSTALL_BIN \<noteq> ''/usr/local/lib/trans_proxy/pf_setup.sh''" "INSTALL_BIN \<noteq> ''/usr/local/lib/trans_proxy/pf_teardown.sh''"
  "starts_with (SCRIPTS_DIR @ ''/'') WRAPPER_SCRIPT"
  by (simp_all add: INSTALL_BIN_def UNIT_PATH_def SCRIPTS_DIR_def PLIST_PATH_def WRAPPER_SCRIPT_def starts_with_def)

lemma linux_install_Inr:
  assumes "linux_install os current_exe args h = (Inr u, h')"
  shows "\<exists>exe. current_exe = Some exe \<and> h_root h \<and> h_files h' UNIT_PATH = Some (generate_unit args) \<and>
    h_files h' INSTALL_BIN = (if exe = INSTALL_BIN then Some [] else h_files h exe)"
proof -
  from assms obtain exe h1 where exe: "h_root h" "current_exe = Some exe"
    and h1: "perform_all os [CopyFile exe INSTALL_BIN, set_executable INSTALL_BIN] h = (Inr (), h1)"
    and rest: "perform_all os
       [WriteFile UNIT_PATH (generate_unit args), Exec (''systemctl'', [''daemon-reload'']),
        Exec (''systemctl'', [''enable'', ''--now'', ''trans_proxy''])]
       (if path_exists h1 SCRIPTS_DIR then snd (perform os (RemoveDirAll SCRIPTS_DIR) h1) else h1) = (Inr u, h')"
    by (auto simp: linux_install_def check_root_def cmd_then_Inr Let_def simp del: perform_all.simps
        split: if_splits option.splits)
  have "h_files h1 INSTALL_BIN = (if exe = INSTALL_BIN then Some [] else h_files h exe)"
    using perform_all_Inr [OF h1] by (simp add: set_executable_def)
  then show ?thesis
    using exe perform_all_Inr [OF rest] perform_frame [OF paths_apart(9), of os h1] paths_apart(1)
    by (auto split: if_splits)
qed

lemma macos_install_Inr:
  assumes "macos_install os current_exe args h = (Inr u, h')"
  shows "\<exists>exe. current_exe = Some exe \<and> h_root h \<and> h_files h' PLIST_PATH = Some (generate_plist args) \<and>
    h_files h' WRAPPER_SCRIPT = Some (generate_wrapper args) \<and>
    h_files h' INSTALL_BIN = (if exe = INSTALL_BIN then Some [] else h_files h exe)"
proof -
  from assms obtain exe h1 where exe: "h_root h" "current_exe = Some exe"
    and h1: "perform_all os [CopyFile exe INSTALL_BIN, set_executable INSTALL_BIN, CreateDirAll SCRIPTS_DIR] h = (Inr (), h1)"
    and rest: "perform_all os
       [WriteFile WRAPPER_SCRIPT (generate_wrapper args), set_executable WRAPPER_SCRIPT,
        WriteFile PLIST_PATH (generate_plist args), Exec (''chmod'', [''644'', PLIST_PATH]),
        Exec (''chown'', [''root:wheel'', PLIST_PATH]), Exec (''launchctl'', [''load'', ''-w'', PLIST_PATH])]
       (snd (perform os (RemoveFile ''/usr/local/lib/trans_proxy/pf_teardown.sh'')
         (snd (perform os (RemoveFile ''/usr/local/lib/trans_proxy/pf_setup.sh'') h1)))) = (Inr u, h')"
    by (auto simp: macos_install_def check_root_def cmd_then_Inr Let_def simp del: perform_all.simps
        split: if_splits option.splits)
  have "h_files h1 INSTALL_BIN = (if exe = INSTALL_BIN then Some [] else h_files h exe)"
    using perform_all_Inr [OF h1] by (simp add: set_executable_def)
  then show ?thesis
    using exe perform_all_Inr [OF rest] paths_apart
    by (simp add: set_executable_def perform_frame)
qed

lemma remove_if_exists:
  assumes "(if path_exists h p then perform os (RemoveFile p) h else (Inr (), h)) = (Inr u, h')"
  shows "h_files h' p = None" "\<And>q. q \<noteq> p \<Longrightarrow> h_files h' q = h_files h q"
  using assms by (auto simp: perform_Inr path_exists_def split: if_splits)

lemma remove_dir_if_exists:
  assumes "(if path_exists h SCRIPTS_DIR then perform os (RemoveDirAll SCRIPTS_DIR) h else (Inr (), h)) = (Inr u, h')"
  shows "\<not> h_dirs h' SCRIPTS_DIR" "\<not> touches (RemoveDirAll SCRIPTS_DIR) q \<Longrightarrow> h_files h' q = h_files h q"
  using assms by (auto simp: perform_Inr path_exists_def effect_frame split: if_splits)

lemma linux_uninstall_Inr:
  assumes "linux_uninstall os h = (Inr u, h')"
  shows "h_files h' UNIT_PATH = None \<and> h_files h' INSTALL_BIN = None \<and> \<not> h_dirs h' SCRIPTS_DIR"
proof -
  have root: "h_root h" using assms by (simp add: linux_uninstall_def check_root_def cmd_then_Inr split: if_splits)
  from assms root obtain h1 h2 h3 where
    h1: "(if path_exists h UNIT_PATH then
          perform os (RemoveFile UNIT_PATH)
            (snd (perform os (Exec (''systemctl'', [''disable'', ''--now'', ''trans_proxy''])) h))
        else (Inr (), h)) = (Inr (), h1)"
    and h2: "(if path_exists h1 INSTALL_BIN then perform os (RemoveFile INSTALL_BIN) h1 else (Inr (), h1)) = (Inr (), h2)"
    and h3: "(if path_exists h2 SCRIPTS_DIR then perform os (RemoveDirAll SCRIPTS_DIR) h2 else (Inr (), h2)) = (Inr (), h3)"
    and h': "h' = snd (perform os (Exec (''systemctl'', [''daemon-reload''])) h3)"
    by (auto simp: linux_uninstall_def check_root_def cmd_then_Inr)
  have "h_files h1 UNIT_PATH = None"
    using h1 by (auto simp: perform_Inr path_exists_def split: if_splits)
  then show ?thesis
    unfolding h' using remove_if_exists [OF h2] remove_dir_if_exists [OF h3] paths_apart
    by (simp add: perform_frame)
qed

lemma macos_uninstall_Inr:
  assumes "macos_uninstall os h = (Inr u, h')"
  shows "h_files h' PLIST_PATH = None \<and> h_files h' INSTALL_BIN = None \<and> \<not> h_dirs h' SCRIPTS_DIR"
proof -
  have root: "h_root h" using assms by (simp add: macos_uninstall_def check_root_def cmd_then_Inr split: if_splits)
  from assms root obtain h1 h2 where
    h1: "(if path_exists h PLIST_PATH then
          perform os (RemoveFile PLIST_PATH) (snd (perform os (Exec (''launchctl'', [''unload'', ''-w'', PLIST_PATH])) h))
        else (Inr (), h)) = (Inr (), h1)"
    and h2: "(if path_exists h1 INSTALL_BIN then perform os (RemoveFile INSTALL_BIN) h1 else (Inr (), h1)) = (Inr (), h2)"
    and h3: "(if path_exists h2 SCRIPTS_DIR then perform os (RemoveDirAll SCRIPTS_DIR) h2 else (Inr (), h2)) = (Inr u, h')"
    by (auto simp: macos_uninstall_def check_root_def cmd_then_Inr)
  have "h_files h1 PLIST_PATH = None"
    using h1 by (auto simp: perform_Inr path_exists_def split: if_splits)
  then show ?thesis
    using remove_if_exists [OF h2] remove_dir_if_exists [OF h3] paths_apart by simp
qed

section \<open>Properties\<close>



text \<open>
  The firewall is set up for the service with the values that the service itself is started with: every
  option that is forwarded has the same value (or is absent) in both command lines, as long as no value looks
  like an option.  But \<open>--allow-quic\<close> is not among the forwarded options, so the firewall of a service keeps
  blocking QUIC when the service is told to allow it.
\<close>

theorem service_firewall_options:
  assumes "\<forall>g \<in> set [''--interface'', ''--listen-addr'', ''--upstream-proxy'', ''--dns-listen'', ''--ports'', ''--fwmark''].
      \<forall>v. extract_arg (filter_service_args args) g = Some v \<longrightarrow> \<not> starts_with ''--'' v"
    "f \<in> set [''--interface'', ''--listen-addr'', ''--upstream-proxy'', ''--dns-listen'', ''--ports'']"
  shows "extract_arg (linux_setup_args args) f = extract_arg (filter_service_args args) f \<and>
    extract_arg (macos_setup_args args) f = extract_arg (filter_service_args args) f \<and>
    extract_arg (linux_setup_args args) ''--fwmark'' = extract_arg (filter_service_args args) ''--fwmark'' \<and>
    (\<forall>g \<in> {''--local-traffic'', ''--dns''}.
      has_flag (linux_setup_args args) g = has_flag (filter_service_args args) g \<and>
      has_flag (macos_setup_args args) g = has_flag (filter_service_args args) g) \<and>
    \<not> has_flag (linux_setup_args args) ''--allow-quic'' \<and> \<not> has_flag (macos_setup_args args) ''--allow-quic''"
proof -
  have opts: "is_option g" if "g \<in> set [''--interface'', ''--listen-addr'', ''--upstream-proxy'', ''--dns-listen'',
      ''--ports'', ''--fwmark'', ''--local-traffic'', ''--dns'', ''--allow-quic'']" for g
    using that by (auto simp: is_option_def starts_with_def)
  have linux: "extract_arg (linux_setup_args args) g = extract_arg (filter_service_args args) g"
    if "g \<in> set [''--interface'', ''--listen-addr'', ''--upstream-proxy'', ''--dns-listen'', ''--ports'', ''--fwmark'']" for g
    unfolding linux_setup_args_def using that by (intro forward_flags_extract) (use assms(1) in \<open>auto intro: opts\<close>)
  have macos: "extract_arg (macos_setup_args args) f = extract_arg (filter_service_args args) f"
    unfolding macos_setup_args_def using assms(2) by (intro forward_flags_extract) (use assms(1) in \<open>auto intro: opts\<close>)
  have flags: "has_flag (linux_setup_args args) g \<longleftrightarrow> g \<in> {''--local-traffic'', ''--dns''} \<and> has_flag (filter_service_args args) g"
    "has_flag (macos_setup_args args) g \<longleftrightarrow> g \<in> {''--local-traffic'', ''--dns''} \<and> has_flag (filter_service_args args) g"
    if "g \<in> {''--local-traffic'', ''--dns'', ''--allow-quic''}" for g
    unfolding linux_setup_args_def macos_setup_args_def
    using that by (subst forward_flags_mem; use assms(1) in \<open>auto intro: opts\<close>)+
  have "extract_arg (linux_setup_args args) f = extract_arg (filter_service_args args) f"
    using assms(2) by (intro linux) auto
  then show ?thesis
    using linux [of "''--fwmark''"] macos flags by simp
qed

theorem service_firewall_options_witness:
  "extract_arg (linux_setup_args [''--upstream-proxy'', ''10.0.0.9:1080'', ''--ports=80,443'', ''--allow-quic'']) ''--ports'' = Some ''80,443'' \<and>
   \<not> has_flag (linux_setup_args [''--upstream-proxy'', ''10.0.0.9:1080'', ''--ports=80,443'', ''--allow-quic'']) ''--allow-quic''"
proof -
  let ?args = "[''--upstream-proxy'', ''10.0.0.9:1080'', ''--ports=80,443'', ''--allow-quic'']"
  have same: "filter_service_args ?args = ?args"
    by (simp add: filter_service_args_def skip_flags_def skip_with_value_def starts_with_def)
  show ?thesis
    using service_firewall_options [of ?args "''--ports''"] unfolding same
    by (simp add: strip_prefix_def starts_with_def)
qed

text \<open>
  Installing leaves the service behind as it was asked for: when it succeeds, the binary, the unit (on macOS
  the wrapper and the property list) are in place with the generated content, unless the installing
  binary is the installed one itself, which the copy truncates.  Removing leaves none of them behind.
  Without root nothing is touched, and a service that is not installed is not started or stopped.
\<close>

theorem service_install_uninstall:
  "(linux_install os exe args h = (Inr u, h') \<longrightarrow>
      h_files h' UNIT_PATH = Some (generate_unit args) \<and>
      (\<exists>e. exe = Some e \<and> h_files h' INSTALL_BIN = (if e = INSTALL_BIN then Some [] else h_files h e))) \<and>
   (macos_install os exe args h = (Inr u, h') \<longrightarrow>
      h_files h' WRAPPER_SCRIPT = Some (generate_wrapper args) \<and> h_files h' PLIST_PATH = Some (generate_plist args) \<and>
      (\<exists>e. exe = Some e \<and> h_files h' INSTALL_BIN = (if e = INSTALL_BIN then Some [] else h_files h e))) \<and>
   (linux_uninstall os h = (Inr u, h') \<longrightarrow>
      h_files h' UNIT_PATH = None \<and> h_files h' INSTALL_BIN = None \<and> \<not> h_dirs h' SCRIPTS_DIR) \<and>
   (macos_uninstall os h = (Inr u, h') \<longrightarrow>
      h_files h' PLIST_PATH = None \<and> h_files h' INSTALL_BIN = None \<and> \<not> h_dirs h' SCRIPTS_DIR) \<and>
   (\<not> h_root h \<longrightarrow>
      (\<forall>f \<in> {linux_install os exe args, macos_install os exe args, linux_uninstall os, macos_uninstall os,
              linux_start os, macos_start os, linux_stop os, macos_stop os}. f h = (Inl NotRoot, h))) \<and>
   (h_root h \<and> \<not> path_exists h UNIT_PATH \<longrightarrow>
      linux_start os h = (Inl NotInstalled, h) \<and> linux_stop os h = (Inl NotInstalled, h)) \<and>
   (h_root h \<and> \<not> path_exists h PLIST_PATH \<longrightarrow>
      macos_start os h = (Inl NotInstalled, h) \<and> macos_stop os h = (Inl NotInstalled, h))"
proof (intro conjI)
  show "linux_install os exe args h = (Inr u, h') \<longrightarrow>
      h_files h' UNIT_PATH = Some (generate_unit args) \<and>
      (\<exists>e. exe = Some e \<and> h_files h' INSTALL_BIN = (if e = INSTALL_BIN then Some [] else h_files h e))"
    using linux_install_Inr by fastforce
  show "macos_install os exe args h = (Inr u, h') \<longrightarrow>
      h_files h' WRAPPER_SCRIPT = Some (generate_wrapper args) \<and> h_files h' PLIST_PATH = Some (generate_plist args) \<and>
      (\<exists>e. exe = Some e \<and> h_files h' INSTALL_BIN = (if e = INSTALL_BIN then Some [] else h_files h e))"
    using macos_install_Inr by fastforce
  show "linux_uninstall os h = (Inr u, h') \<longrightarrow>
      h_files h' UNIT_PATH = None \<and> h_files h' INSTALL_BIN = None \<and> \<not> h_dirs h' SCRIPTS_DIR"
    using linux_uninstall_Inr by blast
  show "macos_uninstall os h = (Inr u, h') \<longrightarrow>
      h_files h' PLIST_PATH = None \<and> h_files h' INSTALL_BIN = None \<and> \<not> h_dirs h' SCRIPTS_DIR"
    using macos_uninstall_Inr by blast
qed (simp_all add: linux_install_def macos_install_def linux_uninstall_def macos_uninstall_def linux_start_def
    macos_start_def linux_stop_def macos_stop_def check_root_def)

theorem service_install_uninstall_witness:
  "\<exists>h'. linux_install (\<lambda>_ _. None) (Some ''/tmp/trans_proxy'') [''--dns'']
       \<lparr>h_root = True, h_files = [''/tmp/trans_proxy'' \<mapsto> ''ELF''], h_dirs = (\<lambda>_. False), h_done = []\<rparr> = (Inr (), h') \<and>
     h_files h' UNIT_PATH = Some (generate_unit [''--dns'']) \<and> h_files h' INSTALL_BIN = Some ''ELF''"
proof -
  let ?h = "\<lparr>h_root = True, h_files = [''/tmp/trans_proxy'' \<mapsto> ''ELF''], h_dirs = (\<lambda>_. False), h_done = []\<rparr>"
  have "\<exists>h'. linux_install (\<lambda>_ _. None) (Some ''/tmp/trans_proxy'') [''--dns''] ?h = (Inr (), h')"
    by (simp add: linux_install_def check_root_def perform_def Let_def)
  then obtain h' where h': "linux_install (\<lambda>_ _. None) (Some ''/tmp/trans_proxy'') [''--dns''] ?h = (Inr (), h')" ..
  have "''/tmp/trans_proxy'' \<noteq> INSTALL_BIN" by (simp add: INSTALL_BIN_def)
  then show ?thesis
    using h' service_install_uninstall [of "\<lambda>_ _. None" "Some ''/tmp/trans_proxy''" "[''--dns'']" ?h "()" h'] by auto
qed

end
