(* ===== verification/Daemon.thy ===== *)
theory Daemon
  imports Machine
begin

text \<open>
  Daemonization, \<^verbatim>\<open>src/src/daemon.rs\<close>: the double fork and the pipe over which the daemon tells the
  foreground process whether it started.  Three processes run \<open>daemonize\<close> from different points on, and they
  interleave freely, so this is a machine: each event is one system call (or the death of a process),
  the booleans say whether the calls succeed.
\<close>

definition DAEMON_READY :: u8 where "DAEMON_READY = 0"
definition DAEMON_FAILED :: u8 where "DAEMON_FAILED = 1"

datatype daemon_error =
    PipeFailed
  | FirstForkFailed
  | SetsidFailed
  | SecondForkFailed
  | PidFileFailed
  | ChildFailed
  | UnknownStatus u8
  | ChildExited
  | ReadStatusFailed

section \<open>The processes\<close>

text \<open>
  The parent closes its write end, reads, reaps the child and ends with a result; the child closes its
  read end, becomes session leader, forks and exits; the daemon writes the PID file, redirects its
  standard streams, reports, and runs on.
\<close>

datatype parent_pc =
    ParentClosing
  | ParentReading
  | ParentReaping "daemon_error + unit"
  | ParentDone "daemon_error + unit"
  | ParentKilled

datatype child_pc =
    ChildClosing
  | ChildLeading
  | ChildForking
  | ChildExiting
  | ChildDone "daemon_error + unit"
  | ChildKilled

datatype daemon_pc =
    NoDaemon
  | WritingPid
  | Redirecting
  | Reporting
  | Running
  | DaemonErr daemon_error
  | DaemonKilled

text \<open>\<open>dm_pipe\<close> is what is in the pipe; the next three say which process holds a write end open.\<close>

record daemon_state =
  dm_pipe :: bytes
  dm_parent_writes :: bool
  dm_child_writes :: bool
  dm_daemon_writes :: bool
  dm_parent :: parent_pc
  dm_child :: child_pc
  dm_daemon :: daemon_pc
  dm_pid_file :: bool
  dm_detached :: bool

text \<open>The state after the first fork; without a pipe or a child \<open>daemonize\<close> fails at once.\<close>

definition daemonize_begin :: "bool \<Rightarrow> bool \<Rightarrow> daemon_error + daemon_state" where
  "daemonize_begin pipe_ok fork_ok =
     (if \<not> pipe_ok then Inl PipeFailed
      else if \<not> fork_ok then Inl FirstForkFailed
      else Inr \<lparr>dm_pipe = [], dm_parent_writes = True, dm_child_writes = True, dm_daemon_writes = False,
                dm_parent = ParentClosing, dm_child = ChildClosing, dm_daemon = NoDaemon,
                dm_pid_file = False, dm_detached = False\<rparr>)"

datatype process = Parent | Child | TheDaemon

datatype read_result = ReadByte | ReadEof | Interrupted | ReadError

datatype daemon_event =
    ParentCloses
  | ParentReads read_result
  | ParentReaps
  | ChildCloses
  | ChildSetsid bool bool
  | ChildForks bool bool
  | ChildExits
  | DaemonWritesPid bool bool
  | DaemonRedirects bool
  | DaemonReports bool
  | Killed process

section \<open>The steps\<close>

text \<open>\<open>wait_for_daemon_status\<close> on the byte that was read.\<close>

definition daemon_status :: "u8 \<Rightarrow> daemon_error + unit" where
  "daemon_status b =
     (if b = DAEMON_READY then Inr ()
      else if b = DAEMON_FAILED then Inl ChildFailed
      else Inl (UnknownStatus b))"

text \<open>\<open>signal_daemon_status\<close>: the result of the write is ignored, and the end is closed.\<close>

definition child_signals :: "bool \<Rightarrow> u8 \<Rightarrow> daemon_state \<Rightarrow> daemon_state" where
  "child_signals written status s =
     s\<lparr>dm_pipe := dm_pipe s @ (if written then [status] else []), dm_child_writes := False\<rparr>"

definition daemon_signals :: "bool \<Rightarrow> u8 \<Rightarrow> daemon_state \<Rightarrow> daemon_state" where
  "daemon_signals written status s =
     s\<lparr>dm_pipe := dm_pipe s @ (if written then [status] else []), dm_daemon_writes := False\<rparr>"

definition no_writer :: "daemon_state \<Rightarrow> bool" where
  "no_writer s \<longleftrightarrow> \<not> dm_parent_writes s \<and> \<not> dm_child_writes s \<and> \<not> dm_daemon_writes s"

definition parent_reads :: "read_result \<Rightarrow> daemon_state \<Rightarrow> daemon_state option" where
  "parent_reads r s =
     (case r of
        ReadByte \<Rightarrow>
          (case dm_pipe s of
             [] \<Rightarrow> None
           | b # bs \<Rightarrow> Some (s\<lparr>dm_pipe := bs, dm_parent := ParentReaping (daemon_status b)\<rparr>))
      | ReadEof \<Rightarrow>
          if dm_pipe s = [] \<and> no_writer s then Some (s\<lparr>dm_parent := ParentReaping (Inl ChildExited)\<rparr>) else None
      | Interrupted \<Rightarrow> Some s
      | ReadError \<Rightarrow> Some (s\<lparr>dm_parent := ParentReaping (Inl ReadStatusFailed)\<rparr>))"

definition child_gone :: "daemon_state \<Rightarrow> bool" where
  "child_gone s \<longleftrightarrow> (case dm_child s of ChildDone _ \<Rightarrow> True | ChildKilled \<Rightarrow> True | _ \<Rightarrow> False)"

definition killed :: "process \<Rightarrow> daemon_state \<Rightarrow> daemon_state option" where
  "killed p s =
     (case p of
        Parent \<Rightarrow>
          (case dm_parent s of ParentDone _ \<Rightarrow> None | ParentKilled \<Rightarrow> None
           | _ \<Rightarrow> Some (s\<lparr>dm_parent := ParentKilled, dm_parent_writes := False\<rparr>))
      | Child \<Rightarrow>
          if child_gone s then None else Some (s\<lparr>dm_child := ChildKilled, dm_child_writes := False\<rparr>)
      | TheDaemon \<Rightarrow>
          (case dm_daemon s of NoDaemon \<Rightarrow> None | DaemonErr _ \<Rightarrow> None | DaemonKilled \<Rightarrow> None
           | _ \<Rightarrow> Some (s\<lparr>dm_daemon := DaemonKilled, dm_daemon_writes := False\<rparr>)))"

fun daemon_step :: "daemon_event \<Rightarrow> daemon_state \<Rightarrow> daemon_state option" where
  "daemon_step ParentCloses s =
     (if dm_parent s = ParentClosing then Some (s\<lparr>dm_parent := ParentReading, dm_parent_writes := False\<rparr>) else None)"
| "daemon_step (ParentReads r) s = (if dm_parent s = ParentReading then parent_reads r s else None)"
| "daemon_step ParentReaps s =
     (case dm_parent s of
        ParentReaping r \<Rightarrow> if child_gone s then Some (s\<lparr>dm_parent := ParentDone r\<rparr>) else None
      | _ \<Rightarrow> None)"
| "daemon_step ChildCloses s =
     (if dm_child s = ChildClosing then Some (s\<lparr>dm_child := ChildLeading\<rparr>) else None)"
| "daemon_step (ChildSetsid ok written) s =
     (if dm_child s = ChildLeading then
        Some (if ok then s\<lparr>dm_child := ChildForking\<rparr>
              else (child_signals written DAEMON_FAILED s)\<lparr>dm_child := ChildDone (Inl SetsidFailed)\<rparr>)
      else None)"
| "daemon_step (ChildForks ok written) s =
     (if dm_child s = ChildForking then
        Some (if ok then s\<lparr>dm_child := ChildExiting, dm_daemon := WritingPid, dm_daemon_writes := True\<rparr>
              else (child_signals written DAEMON_FAILED s)\<lparr>dm_child := ChildDone (Inl SecondForkFailed)\<rparr>)
      else None)"
| "daemon_step ChildExits s =
     (if dm_child s = ChildExiting then Some (s\<lparr>dm_child := ChildDone (Inr ()), dm_child_writes := False\<rparr>) else None)"
| "daemon_step (DaemonWritesPid ok written) s =
     (if dm_daemon s = WritingPid then
        Some (if ok then s\<lparr>dm_daemon := Redirecting, dm_pid_file := True\<rparr>
              else (daemon_signals written DAEMON_FAILED s)\<lparr>dm_daemon := DaemonErr PidFileFailed\<rparr>)
      else None)"
| "daemon_step (DaemonRedirects devnull) s =
     (if dm_daemon s = Redirecting then Some (s\<lparr>dm_daemon := Reporting, dm_detached := devnull\<rparr>) else None)"
| "daemon_step (DaemonReports written) s =
     (if dm_daemon s = Reporting then
        Some ((daemon_signals written DAEMON_READY s)\<lparr>dm_daemon := Running\<rparr>)
      else None)"
| "daemon_step (Killed p) s = killed p s"

definition daemon_init :: daemon_state where
  "daemon_init = projr (daemonize_begin True True)"

section \<open>The invariant\<close>

text \<open>
  Who holds a write end; at most one byte is ever in the pipe, and it tells the truth; so does the result
  of the parent.
\<close>

fun child_open :: "child_pc \<Rightarrow> bool" where
  "child_open (ChildDone _) = False"
| "child_open ChildKilled = False"
| "child_open _ = True"

fun child_before_fork :: "child_pc \<Rightarrow> bool" where
  "child_before_fork ChildClosing = True"
| "child_before_fork ChildLeading = True"
| "child_before_fork ChildForking = True"
| "child_before_fork (ChildDone (Inl _)) = True"
| "child_before_fork _ = False"

fun child_failed :: "child_pc \<Rightarrow> bool" where
  "child_failed (ChildDone (Inl _)) = True"
| "child_failed _ = False"

fun daemon_open :: "daemon_pc \<Rightarrow> bool" where
  "daemon_open WritingPid = True"
| "daemon_open Redirecting = True"
| "daemon_open Reporting = True"
| "daemon_open _ = False"

fun daemon_has_pid :: "daemon_pc \<Rightarrow> bool" where
  "daemon_has_pid Redirecting = True"
| "daemon_has_pid Reporting = True"
| "daemon_has_pid Running = True"
| "daemon_has_pid _ = False"

fun daemon_up :: "daemon_pc \<Rightarrow> bool" where
  "daemon_up Running = True"
| "daemon_up DaemonKilled = True"
| "daemon_up _ = False"

fun daemon_failed :: "daemon_pc \<Rightarrow> bool" where
  "daemon_failed (DaemonErr _) = True"
| "daemon_failed _ = False"

definition ends_ok :: "daemon_state \<Rightarrow> bool" where
  "ends_ok s \<longleftrightarrow>
     (dm_parent_writes s \<longleftrightarrow> dm_parent s = ParentClosing) \<and>
     (dm_child_writes s \<longleftrightarrow> child_open (dm_child s)) \<and>
     (dm_daemon_writes s \<longleftrightarrow> daemon_open (dm_daemon s)) \<and>
     (child_before_fork (dm_child s) \<longrightarrow> dm_daemon s = NoDaemon) \<and>
     (daemon_has_pid (dm_daemon s) \<longrightarrow> dm_pid_file s)"

definition started :: "daemon_state \<Rightarrow> bool" where
  "started s \<longleftrightarrow> dm_pid_file s \<and> daemon_up (dm_daemon s)"

definition failed :: "daemon_state \<Rightarrow> bool" where
  "failed s \<longleftrightarrow> child_failed (dm_child s) \<or> daemon_failed (dm_daemon s)"

definition byte_ok :: "daemon_state \<Rightarrow> u8 \<Rightarrow> bool" where
  "byte_ok s b \<longleftrightarrow> b = DAEMON_READY \<and> started s \<or> b = DAEMON_FAILED \<and> failed s"

definition result_ok :: "daemon_state \<Rightarrow> daemon_error + unit \<Rightarrow> bool" where
  "result_ok s r \<longleftrightarrow>
     r = Inr () \<and> started s \<or> r = Inl ChildFailed \<and> failed s \<or> r = Inl ChildExited \<or> r = Inl ReadStatusFailed"

fun parent_ok :: "daemon_state \<Rightarrow> parent_pc \<Rightarrow> bool" where
  "parent_ok s (ParentReaping r) = result_ok s r"
| "parent_ok s (ParentDone r) = (result_ok s r \<and> child_gone s)"
| "parent_ok s _ = True"

definition daemon_inv :: "daemon_state \<Rightarrow> bool" where
  "daemon_inv s \<longleftrightarrow> ends_ok s \<and> list_all (byte_ok s) (dm_pipe s) \<and> parent_ok s (dm_parent s)"

lemma daemon_status_values [simp]:
  "daemon_status DAEMON_READY = Inr ()" "daemon_status DAEMON_FAILED = Inl ChildFailed"
  by (simp_all add: daemon_status_def DAEMON_READY_def DAEMON_FAILED_def)

lemma child_gone_open: "child_gone s \<longleftrightarrow> \<not> child_open (dm_child s)"
  by (simp add: child_gone_def split: child_pc.split)

lemma daemon_inv_init: "daemon_inv daemon_init"
  by (simp add: daemon_init_def daemonize_begin_def daemon_inv_def ends_ok_def)

lemmas daemon_signal_defs = child_signals_def daemon_signals_def

lemma killed_cases:
  assumes "killed p s = Some s'"
  obtains (parent) "s' = s\<lparr>dm_parent := ParentKilled, dm_parent_writes := False\<rparr>" "dm_parent s \<noteq> ParentKilled" "\<forall>r. dm_parent s \<noteq> ParentDone r"
  | (child) "s' = s\<lparr>dm_child := ChildKilled, dm_child_writes := False\<rparr>" "child_open (dm_child s)"
  | (daemon) "s' = s\<lparr>dm_daemon := DaemonKilled, dm_daemon_writes := False\<rparr>" "dm_daemon s \<noteq> NoDaemon"
      "\<not> daemon_failed (dm_daemon s)" "dm_daemon s \<noteq> DaemonKilled"
  using assms by (cases p) (auto simp: killed_def child_gone_open split: parent_pc.splits daemon_pc.splits if_splits)

lemma parent_reads_cases:
  assumes "parent_reads r s = Some s'"
  obtains (byte) b bs where "dm_pipe s = b # bs" "s' = s\<lparr>dm_pipe := bs, dm_parent := ParentReaping (daemon_status b)\<rparr>"
  | (failed) e where "s' = s\<lparr>dm_parent := ParentReaping (Inl e)\<rparr>" "e = ChildExited \<or> e = ReadStatusFailed"
  | (interrupted) "r = Interrupted" "s' = s"
proof (cases r)
  case ReadByte
  then show thesis using assms byte by (cases "dm_pipe s") (simp_all add: parent_reads_def)
next
  case ReadEof
  then have "s' = s\<lparr>dm_parent := ParentReaping (Inl ChildExited)\<rparr>"
    using assms by (simp add: parent_reads_def split: if_splits)
  then show thesis using failed by blast
next
  case Interrupted
  then show thesis using assms interrupted by (simp add: parent_reads_def)
next
  case ReadError
  then have "s' = s\<lparr>dm_parent := ParentReaping (Inl ReadStatusFailed)\<rparr>"
    using assms by (simp add: parent_reads_def)
  then show thesis using failed by blast
qed

text \<open>Starting and failing are for good, and so is the end of the child.\<close>

lemma child_open_not_failed: "child_open c \<Longrightarrow> \<not> child_failed c"
  by (cases c) auto

lemma daemon_killed_pc: "d \<noteq> NoDaemon \<Longrightarrow> \<not> daemon_failed d \<Longrightarrow> d \<noteq> DaemonKilled \<Longrightarrow> daemon_open d \<or> d = Running"
  by (cases d) auto

lemma killed_ends: "killed p s = Some s' \<Longrightarrow> ends_ok s \<Longrightarrow> ends_ok s'"
  by (erule killed_cases) (simp_all add: ends_ok_def)

lemma killed_started: "killed p s = Some s' \<Longrightarrow> started s \<Longrightarrow> started s'"
  by (erule killed_cases) (simp_all add: started_def)

lemma killed_failed: "killed p s = Some s' \<Longrightarrow> failed s \<Longrightarrow> failed s'"
  by (erule killed_cases) (auto simp: failed_def dest: child_open_not_failed)

lemma killed_gone: "killed p s = Some s' \<Longrightarrow> child_gone s \<Longrightarrow> child_gone s'"
  by (erule killed_cases) (simp_all add: child_gone_open)

lemma killed_same:
  "killed p s = Some s' \<Longrightarrow> dm_pipe s' = dm_pipe s" "killed p s = Some s' \<Longrightarrow> dm_parent s' = dm_parent s \<or> dm_parent s' = ParentKilled"
  by (erule killed_cases, simp_all)+

section \<open>Every step keeps the invariant\<close>

lemma result_ok_mono:
  "result_ok s r \<Longrightarrow> (started s \<Longrightarrow> started s') \<Longrightarrow> (failed s \<Longrightarrow> failed s') \<Longrightarrow> result_ok s' r"
  by (auto simp: result_ok_def)

lemma byte_ok_mono:
  "list_all (byte_ok s) bs \<Longrightarrow> (started s \<Longrightarrow> started s') \<Longrightarrow> (failed s \<Longrightarrow> failed s') \<Longrightarrow> list_all (byte_ok s') bs"
  by (auto simp: byte_ok_def list_all_iff)

lemma parent_ok_mono:
  "parent_ok s p \<Longrightarrow> (started s \<Longrightarrow> started s') \<Longrightarrow> (failed s \<Longrightarrow> failed s') \<Longrightarrow> (child_gone s \<Longrightarrow> child_gone s') \<Longrightarrow> parent_ok s' p"
  by (cases p) (auto intro: result_ok_mono)

text \<open>A step that adds no byte and leaves the parent where it is.\<close>

lemma daemon_inv_mono:
  assumes "daemon_inv s" "ends_ok s'" "started s \<Longrightarrow> started s'" "failed s \<Longrightarrow> failed s'" "child_gone s \<Longrightarrow> child_gone s'"
    "list_all (byte_ok s') ys" "dm_pipe s' = dm_pipe s @ ys" "dm_parent s' = dm_parent s \<or> dm_parent s' = ParentKilled"
  shows "daemon_inv s'"
  using assms byte_ok_mono [of s "dm_pipe s" s'] parent_ok_mono [of s "dm_parent s" s']
  by (auto simp: daemon_inv_def)

lemma daemon_inv_killed:
  assumes "daemon_inv s" "killed p s = Some s'"
  shows "daemon_inv s'"
proof (rule daemon_inv_mono [OF assms(1), of _ "[]"])
  show "ends_ok s'" using killed_ends [OF assms(2)] assms(1) by (simp add: daemon_inv_def)
  show "dm_parent s' = dm_parent s \<or> dm_parent s' = ParentKilled" by (rule killed_same(2) [OF assms(2)])
qed (simp_all add: killed_started [OF assms(2)] killed_failed [OF assms(2)] killed_gone [OF assms(2)] killed_same(1) [OF assms(2)])

lemma daemon_inv_reads:
  assumes "daemon_inv s" "dm_parent s = ParentReading" "parent_reads r s = Some s'"
  shows "daemon_inv s'"
  using assms(3)
proof (cases rule: parent_reads_cases)
  case (byte b bs)
  then have b: "byte_ok s b" "list_all (byte_ok s) bs" "ends_ok s" using assms(1) by (simp_all add: daemon_inv_def)
  have same: "started s' = started s" "failed s' = failed s" "ends_ok s'"
    using b(3) assms(2) unfolding byte by (simp_all add: started_def failed_def ends_ok_def)
  then have "result_ok s' (daemon_status b)" using b(1) by (auto simp: byte_ok_def result_ok_def)
  moreover have "list_all (byte_ok s') bs" using b(2) same by (simp add: byte_ok_def cong: list.pred_cong)
  ultimately show ?thesis using same(3) by (simp add: daemon_inv_def byte)
next
  case (failed e)
  have same: "started s' = started s" "Daemon.failed s' = Daemon.failed s" "ends_ok s'"
    using assms(1,2) unfolding failed by (simp_all add: started_def failed_def ends_ok_def daemon_inv_def)
  then show ?thesis using assms(1) failed by (auto simp: daemon_inv_def result_ok_def byte_ok_def list_all_iff)
qed (use assms in simp)

lemma daemon_inv_step:
  assumes "daemon_inv s" "daemon_step e s = Some s'"
  shows "daemon_inv s'"
proof -
  have ends: "ends_ok s" and parent: "parent_ok s (dm_parent s)" using assms(1) by (simp_all add: daemon_inv_def)
  note facts = started_def failed_def child_gone_open ends_ok_def daemon_signal_defs byte_ok_def
  show ?thesis
  proof (cases e)
    case ParentCloses
    then have "s' = s\<lparr>dm_parent := ParentReading, dm_parent_writes := False\<rparr>"
      using assms(2) by (simp split: if_splits)
    then show ?thesis using assms(1) ends by (auto simp: daemon_inv_def facts list_all_iff)
  next
    case (ParentReads r)
    then show ?thesis using assms daemon_inv_reads by (simp split: if_splits)
  next
    case ParentReaps
    then obtain r where "dm_parent s = ParentReaping r" "child_gone s" "s' = s\<lparr>dm_parent := ParentDone r\<rparr>"
      using assms(2) by (auto split: parent_pc.splits if_splits)
    then show ?thesis using assms(1) ends parent by (auto simp: daemon_inv_def facts result_ok_def list_all_iff)
  next
    case ChildCloses
    then have "dm_child s = ChildClosing" "s' = s\<lparr>dm_child := ChildLeading\<rparr>"
      using assms(2) by (simp_all split: if_splits)
    then show ?thesis using ends by (intro daemon_inv_mono [OF assms(1), of _ "[]"]) (auto simp: facts)
  next
    case (ChildSetsid ok written)
    then have "dm_child s = ChildLeading" "s' = (if ok then s\<lparr>dm_child := ChildForking\<rparr>
        else (child_signals written DAEMON_FAILED s)\<lparr>dm_child := ChildDone (Inl SetsidFailed)\<rparr>)"
      using assms(2) by (simp_all split: if_splits)
    then show ?thesis using ends
      by (intro daemon_inv_mono [OF assms(1), of _ "if ok \<or> \<not> written then [] else [DAEMON_FAILED]"]) (auto simp: facts)
  next
    case (ChildForks ok written)
    then have "dm_child s = ChildForking" "s' = (if ok then s\<lparr>dm_child := ChildExiting, dm_daemon := WritingPid, dm_daemon_writes := True\<rparr>
        else (child_signals written DAEMON_FAILED s)\<lparr>dm_child := ChildDone (Inl SecondForkFailed)\<rparr>)"
      using assms(2) by (simp_all split: if_splits)
    then show ?thesis using ends
      by (intro daemon_inv_mono [OF assms(1), of _ "if ok \<or> \<not> written then [] else [DAEMON_FAILED]"]) (auto simp: facts)
  next
    case ChildExits
    then have "dm_child s = ChildExiting" "s' = s\<lparr>dm_child := ChildDone (Inr ()), dm_child_writes := False\<rparr>"
      using assms(2) by (simp_all split: if_splits)
    then show ?thesis using ends by (intro daemon_inv_mono [OF assms(1), of _ "[]"]) (auto simp: facts)
  next
    case (DaemonWritesPid ok written)
    then have "dm_daemon s = WritingPid" "s' = (if ok then s\<lparr>dm_daemon := Redirecting, dm_pid_file := True\<rparr>
        else (daemon_signals written DAEMON_FAILED s)\<lparr>dm_daemon := DaemonErr PidFileFailed\<rparr>)"
      using assms(2) by (simp_all split: if_splits)
    then show ?thesis using ends
      by (intro daemon_inv_mono [OF assms(1), of _ "if ok \<or> \<not> written then [] else [DAEMON_FAILED]"]) (auto simp: facts)
  next
    case (DaemonRedirects devnull)
    then have "dm_daemon s = Redirecting" "s' = s\<lparr>dm_daemon := Reporting, dm_detached := devnull\<rparr>"
      using assms(2) by (simp_all split: if_splits)
    then show ?thesis using ends by (intro daemon_inv_mono [OF assms(1), of _ "[]"]) (auto simp: facts)
  next
    case (DaemonReports written)
    then have "dm_daemon s = Reporting" "s' = (daemon_signals written DAEMON_READY s)\<lparr>dm_daemon := Running\<rparr>"
      using assms(2) by (simp_all split: if_splits)
    then show ?thesis using ends
      by (intro daemon_inv_mono [OF assms(1), of _ "if written then [DAEMON_READY] else []"]) (auto simp: facts)
  next
    case (Killed p)
    then show ?thesis using assms daemon_inv_killed by simp
  qed
qed

section \<open>Progress\<close>

fun parent_left :: "parent_pc \<Rightarrow> nat" where
  "parent_left ParentClosing = 3"
| "parent_left ParentReading = 2"
| "parent_left (ParentReaping _) = 1"
| "parent_left _ = 0"

fun child_left :: "child_pc \<Rightarrow> nat" where
  "child_left ChildClosing = 8"
| "child_left ChildLeading = 7"
| "child_left ChildForking = 6"
| "child_left ChildExiting = 1"
| "child_left _ = 0"

fun daemon_left :: "daemon_pc \<Rightarrow> nat" where
  "daemon_left WritingPid = 4"
| "daemon_left Redirecting = 3"
| "daemon_left Reporting = 2"
| "daemon_left Running = 1"
| "daemon_left _ = 0"

definition steps_left :: "daemon_state \<Rightarrow> nat" where
  "steps_left s = parent_left (dm_parent s) + child_left (dm_child s) + daemon_left (dm_daemon s)"

lemma killed_left: "killed p s = Some s' \<Longrightarrow> steps_left s' < steps_left s"
proof (erule killed_cases)
  assume "s' = s\<lparr>dm_parent := ParentKilled, dm_parent_writes := False\<rparr>" "dm_parent s \<noteq> ParentKilled" "\<forall>r. dm_parent s \<noteq> ParentDone r"
  then show ?thesis by (cases "dm_parent s") (simp_all add: steps_left_def)
next
  assume "s' = s\<lparr>dm_child := ChildKilled, dm_child_writes := False\<rparr>" "child_open (dm_child s)"
  then show ?thesis by (cases "dm_child s") (simp_all add: steps_left_def)
next
  assume "s' = s\<lparr>dm_daemon := DaemonKilled, dm_daemon_writes := False\<rparr>" "dm_daemon s \<noteq> NoDaemon"
      "\<not> daemon_failed (dm_daemon s)" "dm_daemon s \<noteq> DaemonKilled"
  then show ?thesis by (cases "dm_daemon s") (simp_all add: steps_left_def)
qed

lemma reads_left:
  "parent_reads r s = Some s' \<Longrightarrow> dm_parent s = ParentReading \<Longrightarrow> r \<noteq> Interrupted \<Longrightarrow> steps_left s' < steps_left s"
  by (erule parent_reads_cases) (simp_all add: steps_left_def)

lemma steps_left_step:
  assumes "daemon_inv s" "daemon_step e s = Some s'" "e \<noteq> ParentReads Interrupted"
  shows "steps_left s' < steps_left s"
proof -
  have before: "child_before_fork (dm_child s) \<Longrightarrow> dm_daemon s = NoDaemon"
    using assms(1) by (simp add: daemon_inv_def ends_ok_def)
  show ?thesis
  proof (cases e)
    case (ParentReads r)
    then show ?thesis using assms reads_left by (simp split: if_splits)
  next
    case ParentReaps
    then show ?thesis using assms(2) by (auto simp: steps_left_def split: parent_pc.splits if_splits)
  next
    case (Killed p)
    then show ?thesis using assms killed_left by simp
  qed (use assms(2) before in \<open>auto simp: steps_left_def daemon_signal_defs split: if_splits\<close>)
qed

interpretation dmn: machine_bounded daemon_step daemon_init daemon_inv "\<lambda>e. e = ParentReads Interrupted" steps_left
proof
  fix s e s'
  show "daemon_inv daemon_init" by (rule daemon_inv_init)
  show "daemon_inv s \<Longrightarrow> daemon_step e s = Some s' \<Longrightarrow> daemon_inv s'" by (rule daemon_inv_step)
  show "daemon_inv s \<Longrightarrow> daemon_step e s = Some s' \<Longrightarrow> e \<noteq> ParentReads Interrupted \<Longrightarrow> steps_left s' < steps_left s"
    by (rule steps_left_step)
  show "daemon_inv s \<Longrightarrow> daemon_step e s = Some s' \<Longrightarrow> e = ParentReads Interrupted \<Longrightarrow> steps_left s' \<le> steps_left s"
    by (simp add: parent_reads_def split: if_splits)
qed

definition productive :: "daemon_event \<Rightarrow> bool" where
  "productive e \<longleftrightarrow>
     (case e of ParentReads r \<Rightarrow> r = ReadByte \<or> r = ReadEof | Killed _ \<Rightarrow> False | _ \<Rightarrow> True)"

lemma child_progress: "child_open (dm_child s) \<Longrightarrow> \<exists>e s'. productive e \<and> daemon_step e s = Some s'"
proof (cases "dm_child s")
  case ChildClosing
  then have "daemon_step ChildCloses s \<noteq> None" by simp
  moreover have "productive ChildCloses" by (simp add: productive_def)
  ultimately show ?thesis by blast
next
  case ChildLeading
  then have "daemon_step (ChildSetsid True True) s \<noteq> None" by simp
  moreover have "productive (ChildSetsid True True)" by (simp add: productive_def)
  ultimately show ?thesis by blast
next
  case ChildForking
  then have "daemon_step (ChildForks True True) s \<noteq> None" by simp
  moreover have "productive (ChildForks True True)" by (simp add: productive_def)
  ultimately show ?thesis by blast
next
  case ChildExiting
  then have "daemon_step ChildExits s \<noteq> None" by simp
  moreover have "productive ChildExits" by (simp add: productive_def)
  ultimately show ?thesis by blast
qed simp_all

lemma daemon_progress: "daemon_open (dm_daemon s) \<Longrightarrow> \<exists>e s'. productive e \<and> daemon_step e s = Some s'"
proof (cases "dm_daemon s")
  case WritingPid
  then have "daemon_step (DaemonWritesPid True True) s \<noteq> None" by simp
  moreover have "productive (DaemonWritesPid True True)" by (simp add: productive_def)
  ultimately show ?thesis by blast
next
  case Redirecting
  then have "daemon_step (DaemonRedirects True) s \<noteq> None" by simp
  moreover have "productive (DaemonRedirects True)" by (simp add: productive_def)
  ultimately show ?thesis by blast
next
  case Reporting
  then have "daemon_step (DaemonReports True) s \<noteq> None" by simp
  moreover have "productive (DaemonReports True)" by (simp add: productive_def)
  ultimately show ?thesis by blast
qed simp_all

lemma parent_progress:
  assumes "daemon_inv s" "\<forall>r. dm_parent s \<noteq> ParentDone r" "dm_parent s \<noteq> ParentKilled"
  shows "\<exists>e s'. productive e \<and> daemon_step e s = Some s'"
proof (cases "dm_parent s")
  case ParentClosing
  then have "daemon_step ParentCloses s \<noteq> None" by simp
  moreover have "productive ParentCloses" by (simp add: productive_def)
  ultimately show ?thesis by blast
next
  case ParentReading
  have ends: "ends_ok s" using assms(1) by (simp add: daemon_inv_def)
  consider "dm_pipe s \<noteq> []" | "dm_pipe s = [] \<and> no_writer s" | "child_open (dm_child s)" | "daemon_open (dm_daemon s)"
    using ends ParentReading by (auto simp: no_writer_def ends_ok_def)
  then show ?thesis
  proof cases
    case 1
    then have "daemon_step (ParentReads ReadByte) s \<noteq> None"
      using ParentReading by (simp add: parent_reads_def split: list.split)
    moreover have "productive (ParentReads ReadByte)" by (simp add: productive_def)
    ultimately show ?thesis by blast
  next
    case 2
    then have "daemon_step (ParentReads ReadEof) s \<noteq> None" using ParentReading by (simp add: parent_reads_def)
    moreover have "productive (ParentReads ReadEof)" by (simp add: productive_def)
    ultimately show ?thesis by blast
  next
    case 3
    then show ?thesis by (rule child_progress)
  next
    case 4
    then show ?thesis by (rule daemon_progress)
  qed
next
  case (ParentReaping r)
  show ?thesis
  proof (cases "child_gone s")
    case True
    then have "daemon_step ParentReaps s \<noteq> None" using ParentReaping by simp
    moreover have "productive ParentReaps" by (simp add: productive_def)
    ultimately show ?thesis by blast
  next
    case False
    then show ?thesis by (intro child_progress) (simp add: child_gone_open)
  qed
qed (use assms in auto)

section \<open>Properties\<close>

text \<open>
  C25. The foreground process tells the truth about the daemon, however the three processes interleave, whichever
  system calls fail and whoever is killed: it reports success only when the daemon has written its PID file
  and reported itself running, it reports a failed start-up only when one of the others did fail, it never
  sees an unknown status, and it ends only after the intermediate child, which is reaped.
\<close>

theorem daemonize_reports_truth:
  assumes "reachable daemon_step daemon_init s" "dm_parent s = ParentDone r"
  shows "child_gone s \<and>
    (case r of
       Inr _ \<Rightarrow> dm_pid_file s \<and> (dm_daemon s = Running \<or> dm_daemon s = DaemonKilled)
     | Inl ChildFailed \<Rightarrow> (\<exists>e. dm_child s = ChildDone (Inl e)) \<or> (\<exists>e. dm_daemon s = DaemonErr e)
     | Inl e \<Rightarrow> e = ChildExited \<or> e = ReadStatusFailed)"
proof -
  have "parent_ok s (ParentDone r)"
    using dmn.reachable_inv [OF assms(1)] assms(2) by (simp add: daemon_inv_def)
  then have "child_gone s" "result_ok s r" by simp_all
  moreover have "daemon_up d \<Longrightarrow> d = Running \<or> d = DaemonKilled" for d by (cases d) simp_all
  moreover have "child_failed c \<Longrightarrow> \<exists>e. c = ChildDone (Inl e)" for c by (cases c rule: child_failed.cases) simp_all
  moreover have "daemon_failed d \<Longrightarrow> \<exists>e. d = DaemonErr e" for d by (cases d) simp_all
  ultimately show ?thesis by (auto simp: result_ok_def started_def failed_def)
qed

definition daemon_demo :: "daemon_event list" where
  "daemon_demo =
     [ParentCloses, ChildCloses, ParentReads Interrupted, ChildSetsid True True, ChildForks True True, ChildExits,
      DaemonWritesPid True True, DaemonRedirects True, DaemonReports True, ParentReads ReadByte, ParentReaps]"

lemma daemon_demo_runs:
  "run_events daemon_step daemon_demo daemon_init =
     Some \<lparr>dm_pipe = [], dm_parent_writes = False, dm_child_writes = False, dm_daemon_writes = False,
           dm_parent = ParentDone (Inr ()), dm_child = ChildDone (Inr ()), dm_daemon = Running,
           dm_pid_file = True, dm_detached = True\<rparr>"
  by (simp add: daemon_demo_def daemon_init_def daemonize_begin_def parent_reads_def daemon_signals_def
      child_gone_def)

theorem daemonize_reports_truth_witness:
  "\<exists>s. reachable daemon_step daemon_init s \<and> dm_parent s = ParentDone (Inr ()) \<and> dm_pid_file s"
proof -
  let ?s = "\<lparr>dm_pipe = [], dm_parent_writes = False, dm_child_writes = False, dm_daemon_writes = False,
           dm_parent = ParentDone (Inr ()), dm_child = ChildDone (Inr ()), dm_daemon = Running,
           dm_pid_file = True, dm_detached = True\<rparr>"
  have "reachable daemon_step daemon_init ?s"
    by (rule run_events_reachable [OF daemon_demo_runs reachable.start])
  moreover from daemonize_reports_truth [OF this] have "dm_pid_file ?s" by simp
  ultimately show ?thesis by (intro exI [of _ ?s]) simp
qed

text \<open>
  C29. Daemonization ends: every run makes at most eleven steps besides interrupted reads, and as long as the
  foreground process has neither ended nor been killed, some process can make a step other than a failing
  or an interrupted read, so it never waits on the pipe for ever.
\<close>

theorem daemonize_terminates:
  assumes "run_events daemon_step es daemon_init = Some s"
  shows "length (filter (\<lambda>e. e \<noteq> ParentReads Interrupted) es) \<le> 11 \<and>
    ((\<forall>r. dm_parent s \<noteq> ParentDone r) \<and> dm_parent s \<noteq> ParentKilled \<longrightarrow>
      (\<exists>e s'. productive e \<and> daemon_step e s = Some s'))"
proof -
  have "steps_left daemon_init = 11"
    by (simp add: steps_left_def daemon_init_def daemonize_begin_def)
  then show ?thesis
    using dmn.run_bounded [OF assms daemon_inv_init] parent_progress [OF dmn.run_inv [OF assms]] by auto
qed

theorem daemonize_terminates_witness:
  "\<exists>s e s'. run_events daemon_step [ParentCloses, ChildCloses, ParentReads Interrupted] daemon_init = Some s \<and>
     productive e \<and> daemon_step e s = Some s'"
proof -
  obtain s where s: "run_events daemon_step [ParentCloses, ChildCloses, ParentReads Interrupted] daemon_init = Some s"
    and "dm_parent s = ParentReading"
    by (simp add: daemon_init_def daemonize_begin_def parent_reads_def)
  with daemonize_terminates [OF s] show ?thesis by auto
qed

end
