(* ===== verification/Pf.thy ===== *)
theory Pf
  imports Firewall
begin

text \<open>
  The macOS firewall, \<^verbatim>\<open>src/src/firewall/pf.rs\<close>: the rules of the anchor, the main ruleset with its
  references to the anchor, and the commands of \<open>setup\<close> and \<open>teardown\<close>.
\<close>

definition ANCHOR :: string where "ANCHOR = ''trans_proxy''"
definition PF_CONF :: string where "PF_CONF = ''/etc/pf.conf''"

abbreviation nl :: string where "nl \<equiv> ''\<newline>''"

section \<open>The rules of the anchor\<close>

definition port_list :: "u16 list \<Rightarrow> string" where
  "port_list ports = join '', '' (map (\<lambda>p. dec (unat p)) ports)"

definition pf_port_filter :: "u16 list option \<Rightarrow> string" where
  "pf_port_filter ports = (case ports of Some ps \<Rightarrow> '' port {'' @ port_list ps @ ''}'' | None \<Rightarrow> [])"

definition dns_rdr_rules :: "string \<Rightarrow> string \<Rightarrow> string \<Rightarrow> u16 \<Rightarrow> string" where
  "dns_rdr_rules iface af ip port =
     ''rdr on '' @ iface @ '' '' @ af @ '' proto udp from any to any port 53 -> '' @ ip @ '' port '' @ dec (unat port) @ nl @
     ''rdr on '' @ iface @ '' '' @ af @ '' proto tcp from any to any port 53 -> '' @ ip @ '' port '' @ dec (unat port) @ nl"

definition pf_dns_rdr :: "firewall_config \<Rightarrow> interface_addrs \<Rightarrow> string" where
  "pf_dns_rdr fc addrs =
     (if fc_dns_listen fc \<noteq> None then
        (case dns_target_v4 fc (ia_ipv4 addrs) of
           Some (ip4, port) \<Rightarrow> dns_rdr_rules (fc_interface fc) ''inet'' (ipv4_display ip4) port | None \<Rightarrow> []) @
        (case dns_target_v6 fc (ia_ipv6 addrs) of
           Some (ip6, port) \<Rightarrow> dns_rdr_rules (fc_interface fc) ''inet6'' (ipv6_display ip6) port | None \<Rightarrow> [])
      else [])"

definition local_no_rdr :: "firewall_config \<Rightarrow> interface_addrs \<Rightarrow> string" where
  "local_no_rdr fc addrs =
     (case ia_ipv4 addrs of
        Some ip4 \<Rightarrow> ''no rdr on '' @ fc_interface fc @ '' inet proto tcp from any to '' @ ipv4_display ip4 @
                    pf_port_filter (fc_ports fc) @ nl
      | None \<Rightarrow> []) @
     (case ia_ipv6 addrs of
        Some ip6 \<Rightarrow> ''no rdr on '' @ fc_interface fc @ '' inet6 proto tcp from any to '' @ ipv6_display ip6 @
                    pf_port_filter (fc_ports fc) @ nl
      | None \<Rightarrow> [])"

definition pf_quic_block :: "firewall_config \<Rightarrow> string" where
  "pf_quic_block fc =
     (let ports = quic_block_ports fc in
      if ports = [] then []
      else ''block drop quick on '' @ fc_interface fc @ '' proto udp from any to any port {'' @ port_list ports @ ''}'' @ nl)"

definition upstream_no_rdr :: "socket_addr \<Rightarrow> string \<Rightarrow> string" where
  "upstream_no_rdr upstream port =
     (let up_af = (case sock_ip upstream of IpV4 _ \<Rightarrow> ''inet'' | IpV6 _ \<Rightarrow> ''inet6'') in
      ''no rdr on lo0 '' @ up_af @ '' proto tcp from any to '' @ ip_display (sock_ip upstream) @ '' port '' @
        dec (unat (sock_port upstream)) @ nl @
      ''no rdr on lo0 inet proto tcp from any to any port '' @ port @ nl @
      ''no rdr on lo0 inet6 proto tcp from any to any port '' @ port @ nl)"

definition build_rules :: "firewall_config \<Rightarrow> interface_addrs \<Rightarrow> string" where
  "build_rules fc addrs =
     (let iface = fc_interface fc; port = dec (unat (fc_proxy_port fc)); port_filter = pf_port_filter (fc_ports fc) in
      case fc_upstream_addr fc of
        Some upstream \<Rightarrow>
          upstream_no_rdr upstream port @ pf_dns_rdr fc addrs @ local_no_rdr fc addrs @
          ''rdr on '' @ iface @ '' inet proto tcp from any to any'' @ port_filter @ '' -> 127.0.0.1 port '' @ port @ nl @
          ''rdr on lo0 inet proto tcp from any to any'' @ port_filter @ '' -> 127.0.0.1 port '' @ port @ nl @
          ''rdr on '' @ iface @ '' inet6 proto tcp from any to any'' @ port_filter @ '' -> ::1 port '' @ port @ nl @
          ''rdr on lo0 inet6 proto tcp from any to any'' @ port_filter @ '' -> ::1 port '' @ port @ nl @
          pf_quic_block fc @
          ''pass out quick on '' @ iface @ '' proto tcp from any to '' @ ip_display (sock_ip upstream) @ '' port '' @
            dec (unat (sock_port upstream)) @ nl @
          ''pass out on '' @ iface @ '' inet route-to (lo0 127.0.0.1) proto tcp from any to any'' @ port_filter @ nl @
          ''pass out on '' @ iface @ '' inet6 route-to (lo0 ::1) proto tcp from any to any'' @ port_filter
      | None \<Rightarrow>
          pf_dns_rdr fc addrs @ local_no_rdr fc addrs @
          ''rdr on '' @ iface @ '' inet proto tcp from any to any'' @ port_filter @ '' -> 127.0.0.1 port '' @ port @ nl @
          ''rdr on '' @ iface @ '' inet6 proto tcp from any to any'' @ port_filter @ '' -> ::1 port '' @ port @ nl @
          pf_quic_block fc)"

section \<open>The main ruleset\<close>

definition has_pf_conf_line :: "string \<Rightarrow> string \<Rightarrow> bool" where
  "has_pf_conf_line conf line = list_ex (\<lambda>candidate. trim candidate = line) (str_lines conf)"

definition append_pf_conf_line :: "string \<Rightarrow> string \<Rightarrow> string" where
  "append_pf_conf_line conf line =
     (if conf \<noteq> [] \<and> last conf \<noteq> CHR ''\<newline>'' then conf @ nl else conf) @ line @ nl"

definition rdr_anchor_line :: string where
  "rdr_anchor_line = ''rdr-anchor '' @ [CHR 0x22] @ ANCHOR @ [CHR 0x22]"

definition anchor_line :: string where
  "anchor_line = ''anchor '' @ [CHR 0x22] @ ANCHOR @ [CHR 0x22]"

definition main_ruleset_with_anchor_references :: "string \<Rightarrow> string" where
  "main_ruleset_with_anchor_references base =
     (let conf = (if \<not> has_pf_conf_line base rdr_anchor_line then append_pf_conf_line base rdr_anchor_line else base) in
      if \<not> has_pf_conf_line conf anchor_line then append_pf_conf_line conf anchor_line else conf)"

section \<open>Setup and teardown\<close>

text \<open>
  \<open>pfctl\<close> with rules on its standard input is a command whose last argument is the input here.  \<open>conf\<close> is the
  content of \<^verbatim>\<open>/etc/pf.conf\<close> (\<open>None\<close> when it cannot be read), \<open>loaded\<close> what \<open>pfctl -s rules\<close> and \<open>pfctl -s nat\<close>
  print.
\<close>

fun contains :: "string \<Rightarrow> string \<Rightarrow> bool" where
  "contains [] p = (p = [])"
| "contains (c # cs) p = (take (length p) (c # cs) = p \<or> contains cs p)"

definition anchor_referenced :: "(string \<times> string) option \<Rightarrow> bool" where
  "anchor_referenced loaded =
     (case loaded of
        Some (filter_rules, nat_rules) \<Rightarrow> contains filter_rules anchor_line \<and> contains nat_rules rdr_anchor_line
      | None \<Rightarrow> False)"

definition load_pf_rules :: "string \<Rightarrow> command" where
  "load_pf_rules rules = (''pfctl'', [''-a'', ANCHOR, ''-f'', ''/dev/stdin'', rules])"

definition ensure_anchor_referenced :: "world \<Rightarrow> string option \<Rightarrow> shell \<Rightarrow> cmd_result" where
  "ensure_anchor_referenced w conf s =
     (case conf of
        None \<Rightarrow> (Inl (''read'', [PF_CONF]), s)
      | Some base \<Rightarrow> run_cmd w (''pfctl'', [''-f'', ''/dev/stdin'', main_ruleset_with_anchor_references base]) s)"

definition pf_setup ::
    "world \<Rightarrow> ifaddr list option \<Rightarrow> string option \<Rightarrow> (string \<times> string) option \<Rightarrow> firewall_config \<Rightarrow> shell \<Rightarrow> cmd_result" where
  "pf_setup w ifaddrs conf loaded fc s =
     cmd_then (run_cmd w (''sysctl'', [''-w'', ''net.inet.ip.forwarding=1'']) s) (\<lambda>s.
     cmd_then (run_cmd w (''sysctl'', [''-w'', ''net.inet6.ip6.forwarding=1'']) s) (\<lambda>s.
     cmd_then (run_cmd w (load_pf_rules (build_rules fc (get_interface_ips ifaddrs (fc_interface fc)))) s) (\<lambda>s.
     cmd_then (if anchor_referenced loaded then (Inr (), s) else ensure_anchor_referenced w conf s) (\<lambda>s.
       (Inr (), run_all_ignore w [(''pfctl'', [''-E'']), (''pfctl'', [''-a'', ANCHOR, ''-s'', ''rules''])] s)))))"

definition pf_teardown :: "world \<Rightarrow> shell \<Rightarrow> cmd_result" where
  "pf_teardown w s =
     cmd_then (run_cmd w (''sysctl'', [''-w'', ''net.inet.ip.forwarding=0''])
       (run_all_ignore w [(''pfctl'', [''-a'', ANCHOR, ''-F'', ''all'']), (''pfctl'', [''-f'', PF_CONF])] s)) (\<lambda>s.
       (Inr (), run_cmd_ignore w (''sysctl'', [''-w'', ''net.inet6.ip6.forwarding=0'']) s))"

section \<open>Lemmas on lines\<close>

lemma split_on_append:
  "split_on sep (xs @ ys) =
     butlast (split_on sep xs) @ (last (split_on sep xs) @ hd (split_on sep ys)) # tl (split_on sep ys)"
proof (induction xs)
  case Nil
  then show ?case by (cases "split_on sep ys") simp_all
next
  case (Cons x xs)
  obtain p ps where "split_on sep xs = p # ps" by (cases "split_on sep xs") auto
  with Cons show ?case by (cases ps) auto
qed

lemma trim_strip_cr [simp]: "trim (strip_cr l) = trim l"
proof (cases "l \<noteq> [] \<and> last l = char_of (13 :: nat)")
  case True
  then have "l = strip_cr l @ [char_of (13 :: nat)]"
    unfolding strip_cr_def if_P [OF True] by (metis append_butlast_last_id)
  moreover have "is_space (char_of (13 :: nat))" by (simp add: is_space_def)
  ultimately show ?thesis using trim_snoc_space by metis
qed (auto simp: strip_cr_def)

lemma trim_Nil [simp]: "trim [] = []"
  by (simp add: trim_def)

lemma has_line_iff:
  assumes "line \<noteq> []"
  shows "has_pf_conf_line conf line \<longleftrightarrow> line \<in> trim ` set (split_on CHR ''\<newline>'' conf)"
proof -
  let ?ps = "split_on CHR ''\<newline>'' conf"
  have "set ?ps = insert (last ?ps) (set (butlast ?ps))"
    by (metis append_butlast_last_id list.simps(15) rotate1.simps(2) set_rotate1 split_on_nonempty)
  then show ?thesis
    using assms by (auto simp: has_pf_conf_line_def str_lines_def Let_def list_ex_iff)
qed

lemma last_split_on_Nil: "conf = [] \<or> last conf = CHR ''\<newline>'' \<Longrightarrow> last (split_on CHR ''\<newline>'' conf) = []"
proof -
  assume "conf = [] \<or> last conf = CHR ''\<newline>''"
  then consider "conf = []" | xs where "conf = xs @ [CHR ''\<newline>'']" by (metis append_butlast_last_id)
  then show ?thesis by cases (simp_all add: split_on_append)
qed

text \<open>Appending a line adds exactly that line.\<close>

lemma append_line_lines:
  assumes "CHR ''\<newline>'' \<notin> set line"
  shows "trim ` set (split_on CHR ''\<newline>'' (append_pf_conf_line conf line)) \<union> {[]} =
     trim ` set (split_on CHR ''\<newline>'' conf) \<union> {[], trim line}"
proof -
  let ?sp = "split_on CHR ''\<newline>''"
  define c where "c = (if conf \<noteq> [] \<and> last conf \<noteq> CHR ''\<newline>'' then conf @ nl else conf)"
  have last_c: "last (?sp c) = []" unfolding c_def by (rule last_split_on_Nil) auto
  have split_line: "?sp (line @ nl) = [line, []]" using split_on_Cons_append [OF assms, of "[]"] by simp
  have "?sp (append_pf_conf_line conf line) = butlast (?sp c) @ [line, []]"
    using split_on_append [of "CHR ''\<newline>''" c "line @ nl"] last_c split_line
    by (simp add: append_pf_conf_line_def c_def)
  moreover have "set (?sp c) = insert [] (set (butlast (?sp c)))"
    by (metis append_butlast_last_id last_c list.simps(15) rotate1.simps(2) set_rotate1 split_on_nonempty)
  moreover have "trim ` set (?sp c) \<union> {[]} = trim ` set (?sp conf) \<union> {[]}"
  proof (cases "conf \<noteq> [] \<and> last conf \<noteq> CHR ''\<newline>''")
    case True
    have "set (?sp conf) = insert (last (?sp conf)) (set (butlast (?sp conf)))"
      by (metis append_butlast_last_id list.simps(15) rotate1.simps(2) set_rotate1 split_on_nonempty)
    then show ?thesis using True by (auto simp: c_def split_on_append)
  next
    case False
    then have "c = conf" unfolding c_def by (rule if_not_P)
    then show ?thesis by simp
  qed
  ultimately show ?thesis by auto
qed

lemma append_line_has:
  assumes "CHR ''\<newline>'' \<notin> set line" "trim line = line" "line \<noteq> []" "l \<noteq> []"
  shows "has_pf_conf_line (append_pf_conf_line conf line) l \<longleftrightarrow> l = line \<or> has_pf_conf_line conf l"
proof -
  have "l \<in> A \<union> {[]} \<longleftrightarrow> l \<in> A" "l \<in> B \<union> {[], line} \<longleftrightarrow> l = line \<or> l \<in> B" for A B
    using assms(4) by auto
  then show ?thesis
    using append_line_lines [OF assms(1), of conf] assms(2) unfolding has_line_iff [OF assms(4)] by metis
qed

lemma anchor_lines:
  "CHR ''\<newline>'' \<notin> set rdr_anchor_line" "trim rdr_anchor_line = rdr_anchor_line" "rdr_anchor_line \<noteq> []"
  "CHR ''\<newline>'' \<notin> set anchor_line" "trim anchor_line = anchor_line" "anchor_line \<noteq> []"
  by (simp_all add: rdr_anchor_line_def anchor_line_def ANCHOR_def trim_def is_space_def code_def)

section \<open>Properties\<close>

text \<open>
  The main ruleset that is loaded references the anchor for translation and for filtering, keeps the whole
  system configuration as its beginning and every line of it, adds no other line, and referencing twice
  adds nothing: applied to its own result it changes nothing.
\<close>

theorem main_ruleset_references_anchor:
  "has_pf_conf_line (main_ruleset_with_anchor_references base) rdr_anchor_line \<and>
   has_pf_conf_line (main_ruleset_with_anchor_references base) anchor_line \<and>
   prefix base (main_ruleset_with_anchor_references base) \<and>
   {l. has_pf_conf_line (main_ruleset_with_anchor_references base) l} \<union> {[]} =
     {l. has_pf_conf_line base l} \<union> {[], rdr_anchor_line, anchor_line} \<and>
   main_ruleset_with_anchor_references (main_ruleset_with_anchor_references base) =
     main_ruleset_with_anchor_references base"
proof -
  let ?m = main_ruleset_with_anchor_references
  have lines: "has_pf_conf_line (?m base) l \<longleftrightarrow> has_pf_conf_line base l \<or> l = rdr_anchor_line \<or> l = anchor_line"
    if "l \<noteq> []" for l
    using that append_line_has [OF anchor_lines(1-3)] append_line_has [OF anchor_lines(4-6)] anchor_lines
    by (auto simp: main_ruleset_with_anchor_references_def Let_def)
  then have "has_pf_conf_line (?m base) rdr_anchor_line" "has_pf_conf_line (?m base) anchor_line"
    using anchor_lines by blast+
  moreover from this have "?m (?m base) = ?m base"
    by (subst (1) main_ruleset_with_anchor_references_def) simp
  moreover have "prefix conf (append_pf_conf_line conf line)" for conf line
    by (simp add: append_pf_conf_line_def)
  then have "prefix base (?m base)"
    by (auto simp: main_ruleset_with_anchor_references_def Let_def intro: prefix_order.trans)
  moreover have "{l. has_pf_conf_line (?m base) l} \<union> {[]} =
      {l. has_pf_conf_line base l} \<union> {[], rdr_anchor_line, anchor_line}"
    using lines by blast
  ultimately show ?thesis by blast
qed

end
