(* ===== verification/Dns_Run.thy ===== *)
theory Dns_Run
  imports Dns_Tcp Config Machine
begin

text \<open>
  The DNS forwarder as a whole, \<open>run\<close> of \<^verbatim>\<open>src/src/dns.rs\<close>: the choice of the upstreams, and the start of the UDP
  and the TCP side, which run beside each other under \<open>try_join!\<close>, up to their loops (\<open>Dns_Udp\<close>, \<open>Dns_Doh\<close>,
  \<open>Dns_Tcp\<close>), and what ends them.
\<close>

section \<open>State\<close>

datatype run_error =
    BadProxyUrl
  | ClientFailed
  | UdpBindFailed
  | UpstreamBindFailed
  | UpstreamConnectFailed
  | UdpReceiveFailed
  | TcpBindFailed
  | TcpAcceptFailed

text \<open>
  Where the two sides are.  An HTTP client is given by the URL of the proxy that it goes through; both
  sides have one of their own when the upstream is DoH.
\<close>

datatype udp_side =
    UdpBinding
  | UpstreamBinding
  | UpstreamConnecting
  | ClientBuilding
  | UdpServing
  | UdpOver run_error

datatype tcp_side = TcpBinding | TcpAccepting | TcpOver run_error

record forwarder =
  fw_udp :: udp_side
  fw_tcp :: tcp_side
  fw_udp_client :: "string option"
  fw_tcp_client :: "string option"
  fw_tcp_upstream :: tcp_dns_upstream
  fw_accepted :: "socket_addr list"
  fw_result :: "run_error option"

text \<open>\<open>url_ok\<close> tells whether the library takes the URL of a proxy, \<open>built\<close> whether the client can be built.\<close>

definition build_doh_client :: "(string \<Rightarrow> bool) \<Rightarrow> bool \<Rightarrow> upstream_proxy \<Rightarrow> run_error + string" where
  "build_doh_client url_ok built proxy =
     (let proxy_url = doh_proxy_url proxy in
      if \<not> url_ok proxy_url then Inl BadProxyUrl
      else if \<not> built then Inl ClientFailed
      else Inr proxy_url)"

definition forwarder_start ::
    "(string \<Rightarrow> bool) \<Rightarrow> bool \<Rightarrow> dns_upstream \<Rightarrow> upstream_proxy \<Rightarrow> run_error + forwarder" where
  "forwarder_start url_ok built upstream proxy =
     (let start = (\<lambda>tcp_upstream client.
            \<lparr>fw_udp = UdpBinding, fw_tcp = TcpBinding, fw_udp_client = None, fw_tcp_client = client,
             fw_tcp_upstream = tcp_upstream, fw_accepted = [], fw_result = None\<rparr>) in
      case upstream of
        Udp addr \<Rightarrow> Inr (start (TcpUpstream addr) None)
      | Https url \<Rightarrow>
          (case build_doh_client url_ok built proxy of
             Inl e \<Rightarrow> Inl e
           | Inr client \<Rightarrow> Inr (start (DohUpstream url) (Some client))))"

section \<open>Steps\<close>

datatype forwarder_event =
    UdpBinds bool
  | UpstreamBinds bool
  | UpstreamConnects bool
  | ClientBuilds bool
  | ReceiveFails
  | TcpBinds bool
  | TcpAccepts "socket_addr option"

text \<open>The first error of a side is the result, and ends the other side too.\<close>

definition udp_fails :: "run_error \<Rightarrow> forwarder \<Rightarrow> forwarder" where
  "udp_fails e s = s\<lparr>fw_udp := UdpOver e, fw_result := Some e\<rparr>"

definition tcp_fails :: "run_error \<Rightarrow> forwarder \<Rightarrow> forwarder" where
  "tcp_fails e s = s\<lparr>fw_tcp := TcpOver e, fw_result := Some e\<rparr>"

definition udp_binds :: "dns_upstream \<Rightarrow> bool \<Rightarrow> forwarder \<Rightarrow> forwarder option" where
  "udp_binds upstream ok s =
     guarded (fw_udp s = UdpBinding)
       (if \<not> ok then udp_fails UdpBindFailed s
        else s\<lparr>fw_udp := (case upstream of Udp _ \<Rightarrow> UpstreamBinding | Https _ \<Rightarrow> ClientBuilding)\<rparr>)"

definition upstream_binds :: "bool \<Rightarrow> forwarder \<Rightarrow> forwarder option" where
  "upstream_binds ok s =
     guarded (fw_udp s = UpstreamBinding)
       (if ok then s\<lparr>fw_udp := UpstreamConnecting\<rparr> else udp_fails UpstreamBindFailed s)"

definition upstream_connects :: "bool \<Rightarrow> forwarder \<Rightarrow> forwarder option" where
  "upstream_connects ok s =
     guarded (fw_udp s = UpstreamConnecting)
       (if ok then s\<lparr>fw_udp := UdpServing\<rparr> else udp_fails UpstreamConnectFailed s)"

definition client_builds :: "(string \<Rightarrow> bool) \<Rightarrow> upstream_proxy \<Rightarrow> bool \<Rightarrow> forwarder \<Rightarrow> forwarder option" where
  "client_builds url_ok proxy built s =
     guarded (fw_udp s = ClientBuilding)
       (case build_doh_client url_ok built proxy of
          Inl e \<Rightarrow> udp_fails e s
        | Inr client \<Rightarrow> s\<lparr>fw_udp := UdpServing, fw_udp_client := Some client\<rparr>)"

definition tcp_binds :: "bool \<Rightarrow> forwarder \<Rightarrow> forwarder option" where
  "tcp_binds ok s =
     guarded (fw_tcp s = TcpBinding) (if ok then s\<lparr>fw_tcp := TcpAccepting\<rparr> else tcp_fails TcpBindFailed s)"

text \<open>Unlike the accept loop of the proxy, this one ends with the first error.\<close>

definition tcp_accepts :: "socket_addr option \<Rightarrow> forwarder \<Rightarrow> forwarder option" where
  "tcp_accepts client s =
     guarded (fw_tcp s = TcpAccepting)
       (case client of Some a \<Rightarrow> s\<lparr>fw_accepted := fw_accepted s @ [a]\<rparr> | None \<Rightarrow> tcp_fails TcpAcceptFailed s)"

fun forwarder_step ::
    "(string \<Rightarrow> bool) \<Rightarrow> dns_upstream \<Rightarrow> upstream_proxy \<Rightarrow> forwarder_event \<Rightarrow> forwarder \<Rightarrow> forwarder option" where
  "forwarder_step url_ok upstream proxy (UdpBinds ok) s = guarded (fw_result s = None) s \<bind> udp_binds upstream ok"
| "forwarder_step url_ok upstream proxy (UpstreamBinds ok) s = guarded (fw_result s = None) s \<bind> upstream_binds ok"
| "forwarder_step url_ok upstream proxy (UpstreamConnects ok) s = guarded (fw_result s = None) s \<bind> upstream_connects ok"
| "forwarder_step url_ok upstream proxy (ClientBuilds built) s = guarded (fw_result s = None) s \<bind> client_builds url_ok proxy built"
| "forwarder_step url_ok upstream proxy ReceiveFails s =
     guarded (fw_result s = None \<and> fw_udp s = UdpServing) (udp_fails UdpReceiveFailed s)"
| "forwarder_step url_ok upstream proxy (TcpBinds ok) s = guarded (fw_result s = None) s \<bind> tcp_binds ok"
| "forwarder_step url_ok upstream proxy (TcpAccepts client) s = guarded (fw_result s = None) s \<bind> tcp_accepts client"

lemmas forwarder_defs = udp_fails_def tcp_fails_def udp_binds_def upstream_binds_def upstream_connects_def
  client_builds_def tcp_binds_def tcp_accepts_def

section \<open>The invariant\<close>

text \<open>The state that a start without an error leads to.\<close>

definition forwarder_init :: "dns_upstream \<Rightarrow> upstream_proxy \<Rightarrow> forwarder" where
  "forwarder_init upstream proxy =
     \<lparr>fw_udp = UdpBinding, fw_tcp = TcpBinding, fw_udp_client = None,
      fw_tcp_client = (case upstream of Udp _ \<Rightarrow> None | Https _ \<Rightarrow> Some (doh_proxy_url proxy)),
      fw_tcp_upstream = (case upstream of Udp addr \<Rightarrow> TcpUpstream addr | Https url \<Rightarrow> DohUpstream url),
      fw_accepted = [], fw_result = None\<rparr>"

lemma build_doh_client_Inr: "build_doh_client url_ok built proxy = Inr client \<Longrightarrow> client = doh_proxy_url proxy"
  by (simp add: build_doh_client_def Let_def split: if_splits)

lemma forwarder_start_Inr:
  "forwarder_start url_ok built upstream proxy = Inr s \<Longrightarrow> s = forwarder_init upstream proxy"
  by (auto simp: forwarder_start_def forwarder_init_def Let_def dest: build_doh_client_Inr
      split: dns_upstream.splits sum.splits)

definition upstreams_agree :: "dns_upstream \<Rightarrow> upstream_proxy \<Rightarrow> forwarder \<Rightarrow> bool" where
  "upstreams_agree upstream proxy s \<longleftrightarrow>
     (case upstream of
        Udp addr \<Rightarrow>
          fw_tcp_upstream s = TcpUpstream addr \<and> fw_tcp_client s = None \<and> fw_udp_client s = None \<and>
          fw_udp s \<noteq> ClientBuilding
      | Https url \<Rightarrow>
          fw_tcp_upstream s = DohUpstream url \<and> fw_tcp_client s = Some (doh_proxy_url proxy) \<and>
          (fw_udp s = UdpServing \<longrightarrow> fw_udp_client s = Some (doh_proxy_url proxy)) \<and>
          fw_udp s \<noteq> UpstreamBinding \<and> fw_udp s \<noteq> UpstreamConnecting)"

definition result_agrees :: "forwarder \<Rightarrow> bool" where
  "result_agrees s \<longleftrightarrow>
     (case fw_result s of
        None \<Rightarrow> (\<forall>e. fw_udp s \<noteq> UdpOver e \<and> fw_tcp s \<noteq> TcpOver e)
      | Some e \<Rightarrow> fw_udp s = UdpOver e \<or> fw_tcp s = TcpOver e)"

definition forwarder_inv :: "dns_upstream \<Rightarrow> upstream_proxy \<Rightarrow> forwarder \<Rightarrow> bool" where
  "forwarder_inv upstream proxy s \<longleftrightarrow>
     upstreams_agree upstream proxy s \<and> result_agrees s \<and>
     (fw_accepted s \<noteq> [] \<longrightarrow> fw_tcp s \<noteq> TcpBinding \<and> fw_tcp s \<noteq> TcpOver TcpBindFailed)"

lemma forwarder_inv_init: "forwarder_inv upstream proxy (forwarder_init upstream proxy)"
  by (cases upstream) (simp_all add: forwarder_inv_def forwarder_init_def upstreams_agree_def result_agrees_def)

lemma client_builds_cases:
  assumes "client_builds url_ok proxy built s = Some s'"
  obtains e where "fw_udp s = ClientBuilding" "s' = udp_fails e s"
  | "fw_udp s = ClientBuilding" "s' = s\<lparr>fw_udp := UdpServing, fw_udp_client := Some (doh_proxy_url proxy)\<rparr>"
  using assms by (auto simp: client_builds_def dest: build_doh_client_Inr split: sum.splits)

lemma forwarder_inv_step:
  assumes "forwarder_inv upstream proxy s" "forwarder_step url_ok upstream proxy e s = Some s'"
  shows "forwarder_inv upstream proxy s'"
proof (cases e)
  case (ClientBuilds built)
  then have "client_builds url_ok proxy built s = Some s'" "fw_result s = None" using assms(2) by simp_all
  then show ?thesis using assms(1)
    by (cases rule: client_builds_cases)
      (auto simp: forwarder_inv_def upstreams_agree_def result_agrees_def udp_fails_def split: dns_upstream.splits)
qed (use assms in \<open>auto simp: forwarder_inv_def upstreams_agree_def result_agrees_def forwarder_defs
    split: dns_upstream.splits if_splits option.splits\<close>)

interpretation fwd: machine_invariant "forwarder_step url_ok upstream proxy" "forwarder_init upstream proxy"
  "forwarder_inv upstream proxy" for url_ok upstream proxy
  by unfold_locales (fact forwarder_inv_init, rule forwarder_inv_step)

text \<open>With every call succeeding, in the order of the source on each side, the forwarder comes to serve.\<close>

definition start_calls :: "dns_upstream \<Rightarrow> forwarder_event list" where
  "start_calls upstream =
     UdpBinds True # (case upstream of Udp _ \<Rightarrow> [UpstreamBinds True, UpstreamConnects True] | Https _ \<Rightarrow> [ClientBuilds True])"

lemma forwarder_starts:
  assumes "url_ok (doh_proxy_url proxy)"
  shows "\<exists>s. run_events (forwarder_step url_ok upstream proxy) (TcpBinds True # start_calls upstream)
      (forwarder_init upstream proxy) = Some s \<and> fw_udp s = UdpServing \<and> fw_tcp s = TcpAccepting \<and> fw_result s = None"
  using assms
  by (cases upstream)
    (simp_all add: start_calls_def forwarder_init_def forwarder_defs guarded_def build_doh_client_def Let_def)

text \<open>How the task that runs the forwarder ends: with the error, and never in another way.\<close>

lemma forwarder_over: "fw_result s = Some e \<Longrightarrow> forwarder_step url_ok upstream proxy ev s = None"
  by (cases ev) (simp_all add: guarded_def)

lemma accept_failure_fatal:
  "fw_result s = None \<Longrightarrow> fw_tcp s = TcpAccepting \<Longrightarrow>
     forwarder_step url_ok upstream proxy (TcpAccepts None) s = Some (tcp_fails TcpAcceptFailed s)"
  by (simp add: tcp_accepts_def guarded_def)

end
