(* ===== verification/Program.thy ===== *)
theory Program
  imports Service_Props Gateway Daemon Proxy Nft_Props Pf Dns_Run
begin

text \<open>
  The program itself, \<^verbatim>\<open>src/src/main.rs\<close>, with the accept loop of \<^verbatim>\<open>src/src/proxy.rs\<close> that it ends up in:
  which command the options select, and the life of the server from the opening of the log file to the
  removal of the PID file.  The server's tasks run beside each other and beside the signals, so it is a
  machine.
\<close>

section \<open>Commands\<close>

text \<open>\<open>clap\<close> refuses a command line without an upstream proxy unless one of four flags is there.\<close>

definition clap_accepts :: "config \<Rightarrow> bool" where
  "clap_accepts c \<longleftrightarrow> cf_upstream_proxy c \<noteq> None \<or> cf_uninstall c \<or> cf_start c \<or> cf_stop c \<or> cf_teardown_firewall c"

datatype selection =
    Uninstall
  | Install "string list"
  | StartService
  | StopService
  | TeardownFirewall
  | SetupFirewall firewall_config
  | Serve

definition main_command :: "ifaddr list option \<Rightarrow> config \<Rightarrow> string list \<Rightarrow> selection" where
  "main_command ifaddrs c args =
     (if cf_uninstall c then Uninstall
      else if cf_install c then Install (drop 1 args)
      else if cf_start c then StartService
      else if cf_stop c then StopService
      else if cf_teardown_firewall c then TeardownFirewall
      else if cf_setup_firewall c then SetupFirewall (from_config ifaddrs c)
      else Serve)"

text \<open>
  The modules that \<open>cfg(target_os)\<close> selects, and what they find on the computer: the path of the
  executable, the system configuration of pf and its loaded rules.
\<close>

datatype platform = Linux | MacOs

record computer =
  cp_os :: os
  cp_exe :: "string option"
  cp_world :: world
  cp_ifaddrs :: "ifaddr list option"
  cp_pf_conf :: "string option"
  cp_pf_loaded :: "(string \<times> string) option"

datatype command_error = ServiceError service_error | CommandFailed command

text \<open>What a command did: its result, the host and the firewall commands after it; \<open>None\<close> for the server.\<close>

definition service_outcome ::
    "shell \<Rightarrow> service_result \<Rightarrow> ((command_error + unit) \<times> host \<times> shell) option" where
  "service_outcome s r = (case r of (Inl e, h) \<Rightarrow> Some (Inl (ServiceError e), h, s) | (Inr _, h) \<Rightarrow> Some (Inr (), h, s))"

definition firewall_outcome ::
    "host \<Rightarrow> cmd_result \<Rightarrow> ((command_error + unit) \<times> host \<times> shell) option" where
  "firewall_outcome h r = (case r of (Inl c, s) \<Rightarrow> Some (Inl (CommandFailed c), h, s) | (Inr _, s) \<Rightarrow> Some (Inr (), h, s))"

definition run_command ::
    "platform \<Rightarrow> computer \<Rightarrow> selection \<Rightarrow> host \<Rightarrow> shell \<Rightarrow> ((command_error + unit) \<times> host \<times> shell) option" where
  "run_command p cp cmd h s =
     (case cmd of
        Uninstall \<Rightarrow>
          service_outcome s (case p of Linux \<Rightarrow> linux_uninstall (cp_os cp) h | MacOs \<Rightarrow> macos_uninstall (cp_os cp) h)
      | Install args \<Rightarrow>
          service_outcome s (case p of
              Linux \<Rightarrow> linux_install (cp_os cp) (cp_exe cp) args h
            | MacOs \<Rightarrow> macos_install (cp_os cp) (cp_exe cp) args h)
      | StartService \<Rightarrow>
          service_outcome s (case p of Linux \<Rightarrow> linux_start (cp_os cp) h | MacOs \<Rightarrow> macos_start (cp_os cp) h)
      | StopService \<Rightarrow>
          service_outcome s (case p of Linux \<Rightarrow> linux_stop (cp_os cp) h | MacOs \<Rightarrow> macos_stop (cp_os cp) h)
      | TeardownFirewall \<Rightarrow>
          firewall_outcome h (case p of Linux \<Rightarrow> nft_teardown (cp_world cp) s | MacOs \<Rightarrow> pf_teardown (cp_world cp) s)
      | SetupFirewall fc \<Rightarrow>
          firewall_outcome h (case p of
              Linux \<Rightarrow> nft_setup (cp_world cp) (cp_ifaddrs cp) fc s
            | MacOs \<Rightarrow> pf_setup (cp_world cp) (cp_ifaddrs cp) (cp_pf_conf cp) (cp_pf_loaded cp) fc s)
      | Serve \<Rightarrow> None)"

section \<open>The server\<close>

definition main_log_file :: "config \<Rightarrow> string option" where
  "main_log_file c =
     (case cf_log_file c of
        Some path \<Rightarrow> Some path
      | None \<Rightarrow> if cf_daemon c then Some ''/var/log/trans_proxy.log'' else None)"

text \<open>How \<open>daemonize\<close> ends for a process that runs it.\<close>

datatype daemonize_end = Continues | Leaves | DaemonizeErr daemon_error

definition daemonized :: "process \<Rightarrow> daemon_state \<Rightarrow> daemonize_end option" where
  "daemonized p s =
     (case p of
        Parent \<Rightarrow> (case dm_parent s of ParentDone (Inr _) \<Rightarrow> Some Leaves | ParentDone (Inl e) \<Rightarrow> Some (DaemonizeErr e) | _ \<Rightarrow> None)
      | Child \<Rightarrow> (case dm_child s of ChildDone (Inr _) \<Rightarrow> Some Leaves | ChildDone (Inl e) \<Rightarrow> Some (DaemonizeErr e) | _ \<Rightarrow> None)
      | TheDaemon \<Rightarrow> (case dm_daemon s of Running \<Rightarrow> Some Continues | DaemonErr e \<Rightarrow> Some (DaemonizeErr e) | _ \<Rightarrow> None))"

datatype main_error =
    LogOpenFailed string
  | DaemonizeFailed daemon_error
  | RuntimeFailed
  | NatOpenFailed
  | ListenFailed
  | DnsExited
  | DnsFailed
  | DnsPanicked
  | SignalHandlerFailed

text \<open>
  The phases of \<open>main\<close>; \<open>Left\<close> is the exit of the processes that only started the daemon.  The future
  \<open>server\<close> has not been polled, opens the NAT handle, binds, or accepts.
\<close>

datatype program_phase =
    OpeningLog
  | Daemonizing
  | BuildingRuntime
  | Serving
  | Cleaning "main_error + unit"
  | Exited "main_error + unit"
  | Left
  | Panicked

datatype server_phase = NotPolled | NatOpening | Binding | Accepting

datatype task_end = TaskOk | TaskErr | TaskPanic
datatype task = NoTask | Active | Over task_end

record program =
  pg_phase :: program_phase
  pg_log :: "string option"
  pg_pid_file :: bool
  pg_server :: server_phase
  pg_dns :: task
  pg_gateway :: task
  pg_udp :: task
  pg_clients :: "socket_addr list"

definition program_init :: program where
  "program_init =
     \<lparr>pg_phase = OpeningLog, pg_log = None, pg_pid_file = False, pg_server = NotPolled,
      pg_dns = NoTask, pg_gateway = NoTask, pg_udp = NoTask, pg_clients = []\<rparr>"

datatype signal = Sigint | Sigterm

datatype program_event =
    OpensLog bool
  | Daemonizes daemonize_end
  | BuildsRuntime bool
  | PollsServer
  | OpensNat bool
  | Binds bool
  | Accepts "socket_addr option"
  | DnsEnds task_end
  | GatewayEnds task_end
  | UdpEnds task_end
  | NoticesDns
  | SignalHandlerFails
  | Signalled signal
  | CleansUp

text \<open>The first poll of \<open>server\<close> spawns the tasks; \<open>None\<close> is a panic of an \<open>expect\<close>.\<close>

definition spawn_tasks :: "platform \<Rightarrow> ifaddr list option \<Rightarrow> config \<Rightarrow> program \<Rightarrow> program exec" where
  "spawn_tasks p ifaddrs c s = do {
     s \<leftarrow> (case resolve_dns_listen ifaddrs c of
             Some dns_listen \<Rightarrow> do { upstream_proxy \<leftarrow> cf_upstream_proxy c; Some (s\<lparr>pg_dns := Active\<rparr>) }
           | None \<Rightarrow> Some s);
     s \<leftarrow> Some (if cf_gateway c then s\<lparr>pg_gateway := Active\<rparr> else s);
     s \<leftarrow> (if p = Linux \<and> proxy_udp_enabled c
           then do { proxy \<leftarrow> cf_upstream_proxy c; Some (s\<lparr>pg_udp := Active\<rparr>) }
           else Some s);
     Some (s\<lparr>pg_server := NatOpening\<rparr>) }"

definition dns_failure :: "task_end \<Rightarrow> main_error" where
  "dns_failure e = (case e of TaskOk \<Rightarrow> DnsExited | TaskErr \<Rightarrow> DnsFailed | TaskPanic \<Rightarrow> DnsPanicked)"

text \<open>\<open>proxy::run\<close>: the NAT handle, the listener, and the loop, where a failed \<open>accept\<close> is retried.\<close>

definition proxy_opens :: "bool \<Rightarrow> program \<Rightarrow> program option" where
  "proxy_opens ok s =
     guarded (pg_server s = NatOpening)
       (if ok then s\<lparr>pg_server := Binding\<rparr> else s\<lparr>pg_phase := Cleaning (Inl NatOpenFailed)\<rparr>)"

definition proxy_binds :: "bool \<Rightarrow> program \<Rightarrow> program option" where
  "proxy_binds ok s =
     guarded (pg_server s = Binding)
       (if ok then s\<lparr>pg_server := Accepting\<rparr> else s\<lparr>pg_phase := Cleaning (Inl ListenFailed)\<rparr>)"

definition proxy_accepts :: "socket_addr option \<Rightarrow> program \<Rightarrow> program option" where
  "proxy_accepts client s =
     guarded (pg_server s = Accepting)
       (case client of Some a \<Rightarrow> s\<lparr>pg_clients := pg_clients s @ [a]\<rparr> | None \<Rightarrow> s)"

lemmas proxy_run_defs [simp] = proxy_opens_def proxy_binds_def proxy_accepts_def

text \<open>
  The end of the gateway or the UDP relay is logged only; \<open>select!\<close> notices the end of the DNS task.
\<close>

fun program_step :: "platform \<Rightarrow> ifaddr list option \<Rightarrow> config \<Rightarrow> program_event \<Rightarrow> program \<Rightarrow> program option" where
  "program_step p i c (OpensLog ok) s =
     guarded (pg_phase s = OpeningLog)
       (case main_log_file c of
          None \<Rightarrow> s\<lparr>pg_phase := Daemonizing\<rparr>
        | Some path \<Rightarrow> if ok then s\<lparr>pg_phase := Daemonizing, pg_log := Some path\<rparr>
                       else s\<lparr>pg_phase := Exited (Inl (LogOpenFailed path))\<rparr>)"
| "program_step p i c (Daemonizes d) s =
     guarded (pg_phase s = Daemonizing)
       (if cf_daemon c then
          (case d of
             Continues \<Rightarrow> s\<lparr>pg_phase := BuildingRuntime, pg_pid_file := True\<rparr>
           | Leaves \<Rightarrow> s\<lparr>pg_phase := Left\<rparr>
           | DaemonizeErr e \<Rightarrow> s\<lparr>pg_phase := Exited (Inl (DaemonizeFailed e))\<rparr>)
        else s\<lparr>pg_phase := BuildingRuntime\<rparr>)"
| "program_step p i c (BuildsRuntime ok) s =
     guarded (pg_phase s = BuildingRuntime)
       (if ok then s\<lparr>pg_phase := Serving\<rparr> else s\<lparr>pg_phase := Exited (Inl RuntimeFailed)\<rparr>)"
| "program_step p i c PollsServer s =
     guarded (pg_phase s = Serving \<and> pg_server s = NotPolled)
       (case spawn_tasks p i c s of Some s' \<Rightarrow> s' | None \<Rightarrow> s\<lparr>pg_phase := Panicked\<rparr>)"
| "program_step p i c (OpensNat ok) s = guarded (pg_phase s = Serving) s \<bind> proxy_opens ok"
| "program_step p i c (Binds ok) s = guarded (pg_phase s = Serving) s \<bind> proxy_binds ok"
| "program_step p i c (Accepts client) s = guarded (pg_phase s = Serving) s \<bind> proxy_accepts client"
| "program_step p i c (DnsEnds e) s = guarded (pg_phase s = Serving \<and> pg_dns s = Active) (s\<lparr>pg_dns := Over e\<rparr>)"
| "program_step p i c (GatewayEnds e) s = guarded (pg_phase s = Serving \<and> pg_gateway s = Active) (s\<lparr>pg_gateway := Over e\<rparr>)"
| "program_step p i c (UdpEnds e) s = guarded (pg_phase s = Serving \<and> pg_udp s = Active) (s\<lparr>pg_udp := Over e\<rparr>)"
| "program_step p i c NoticesDns s =
     (case pg_dns s of
        Over e \<Rightarrow> guarded (pg_phase s = Serving) (s\<lparr>pg_phase := Cleaning (Inl (dns_failure e))\<rparr>)
      | _ \<Rightarrow> None)"
| "program_step p i c SignalHandlerFails s =
     guarded (pg_phase s = Serving) (s\<lparr>pg_phase := Cleaning (Inl SignalHandlerFailed)\<rparr>)"
| "program_step p i c (Signalled sig) s = guarded (pg_phase s = Serving) (s\<lparr>pg_phase := Cleaning (Inr ())\<rparr>)"
| "program_step p i c CleansUp s =
     (case pg_phase s of
        Cleaning r \<Rightarrow> Some (s\<lparr>pg_phase := Exited r, pg_pid_file := pg_pid_file s \<and> \<not> cf_daemon c\<rparr>)
      | _ \<Rightarrow> None)"

section \<open>What the server keeps\<close>

definition tasks_ok :: "platform \<Rightarrow> ifaddr list option \<Rightarrow> config \<Rightarrow> program \<Rightarrow> bool" where
  "tasks_ok p i c s \<longleftrightarrow>
     (pg_dns s \<noteq> NoTask \<longleftrightarrow> resolve_dns_listen i c \<noteq> None) \<and>
     (pg_gateway s \<noteq> NoTask \<longleftrightarrow> cf_gateway c) \<and>
     (pg_udp s \<noteq> NoTask \<longleftrightarrow> p = Linux \<and> proxy_udp_enabled c)"

definition log_ok :: "config \<Rightarrow> program \<Rightarrow> bool" where
  "log_ok c s \<longleftrightarrow>
     pg_log s = (if pg_phase s = OpeningLog \<or> (\<exists>path. pg_phase s = Exited (Inl (LogOpenFailed path)))
                 then None else main_log_file c)"

text \<open>The results that the server can end with, and when the PID file is there, in each phase.\<close>

fun served :: "main_error + unit \<Rightarrow> bool" where
  "served (Inl (LogOpenFailed _)) = False"
| "served (Inl (DaemonizeFailed _)) = False"
| "served (Inl RuntimeFailed) = False"
| "served _ = True"

fun pid_ok :: "config \<Rightarrow> program_phase \<Rightarrow> bool \<Rightarrow> bool" where
  "pid_ok c BuildingRuntime there = (there = cf_daemon c)"
| "pid_ok c Serving there = (there = cf_daemon c)"
| "pid_ok c (Cleaning r) there = (there = cf_daemon c \<and> served r)"
| "pid_ok c Panicked there = (there = cf_daemon c)"
| "pid_ok c (Exited r) there = (there = (cf_daemon c \<and> r = Inl RuntimeFailed))"
| "pid_ok c phase there = (\<not> there)"

definition server_ok :: "platform \<Rightarrow> ifaddr list option \<Rightarrow> config \<Rightarrow> program \<Rightarrow> bool" where
  "server_ok p i c s \<longleftrightarrow>
     (if pg_server s = NotPolled then pg_dns s = NoTask \<and> pg_gateway s = NoTask \<and> pg_udp s = NoTask
      else tasks_ok p i c s) \<and>
     (pg_clients s \<noteq> [] \<longrightarrow> pg_server s = Accepting)"

definition program_inv :: "platform \<Rightarrow> ifaddr list option \<Rightarrow> config \<Rightarrow> program \<Rightarrow> bool" where
  "program_inv p i c s \<longleftrightarrow>
     (cf_upstream_proxy c \<noteq> None \<longrightarrow> pg_phase s \<noteq> Panicked) \<and> log_ok c s \<and>
     pid_ok c (pg_phase s) (pg_pid_file s) \<and> server_ok p i c s"

lemma spawn_tasks_Some:
  assumes "cf_upstream_proxy c \<noteq> None"
  shows "spawn_tasks p i c s = Some (s\<lparr>pg_server := NatOpening,
     pg_dns := (if resolve_dns_listen i c = None then pg_dns s else Active),
     pg_gateway := (if cf_gateway c then Active else pg_gateway s),
     pg_udp := (if p = Linux \<and> proxy_udp_enabled c then Active else pg_udp s)\<rparr>)"
  using assms by (auto simp: spawn_tasks_def split: option.split)

lemma spawn_tasks_panics:
  assumes "spawn_tasks p i c s = Some s'"
  shows "s' = s\<lparr>pg_server := NatOpening,
     pg_dns := (if resolve_dns_listen i c = None then pg_dns s else Active),
     pg_gateway := (if cf_gateway c then Active else pg_gateway s),
     pg_udp := (if p = Linux \<and> proxy_udp_enabled c then Active else pg_udp s)\<rparr>"
  using assms by (auto simp: spawn_tasks_def bind_eq_Some_conv split: option.splits if_splits)

text \<open>What the steps other than the poll of the server do to the tasks.\<close>

lemma polls_server:
  assumes "program_step p i c PollsServer s = Some s'"
  obtains (polled) "pg_phase s = Serving" "pg_server s = NotPolled" "spawn_tasks p i c s = Some s'"
  | (panic) "pg_phase s = Serving" "cf_upstream_proxy c = None" "s' = s\<lparr>pg_phase := Panicked\<rparr>"
  using assms spawn_tasks_Some [of c p i s] by (cases "spawn_tasks p i c s") auto

lemma step_panics:
  assumes "program_step p i c e s = Some s'" "cf_upstream_proxy c \<noteq> None" "pg_phase s \<noteq> Panicked"
  shows "pg_phase s' \<noteq> Panicked"
proof (cases "e = PollsServer")
  case True
  with assms(1) have "program_step p i c PollsServer s = Some s'" by simp
  then show ?thesis using assms(2,3)
    by (cases rule: polls_server) (auto dest: spawn_tasks_panics)
next
  case False
  then show ?thesis using assms
    by (cases e) (auto split: option.splits if_splits daemonize_end.splits task.splits program_phase.splits)
qed

lemma step_log:
  assumes "program_step p i c e s = Some s'" "log_ok c s" "pid_ok c (pg_phase s) (pg_pid_file s)"
  shows "log_ok c s'"
proof (cases "e = PollsServer")
  case True
  with assms(1) have "program_step p i c PollsServer s = Some s'" by simp
  then show ?thesis using assms(2)
    by (cases rule: polls_server) (auto simp: log_ok_def dest: spawn_tasks_panics)
next
  case False
  then show ?thesis using assms
    by (cases e)
      (auto simp: log_ok_def dns_failure_def
        split: option.splits if_splits daemonize_end.splits task.splits program_phase.splits task_end.splits)
qed

lemma step_pid:
  assumes "program_step p i c e s = Some s'" "pid_ok c (pg_phase s) (pg_pid_file s)"
  shows "pid_ok c (pg_phase s') (pg_pid_file s')"
proof (cases "e = PollsServer")
  case True
  with assms(1) have "program_step p i c PollsServer s = Some s'" by simp
  then show ?thesis using assms(2)
    by (cases rule: polls_server) (auto dest: spawn_tasks_panics)
next
  case False
  then show ?thesis using assms
    by (cases e)
      (auto simp: dns_failure_def
        split: option.splits if_splits daemonize_end.splits task.splits program_phase.splits task_end.splits)
qed

lemma step_server:
  assumes "program_step p i c e s = Some s'" "server_ok p i c s"
  shows "server_ok p i c s'"
proof (cases "e = PollsServer")
  case True
  with assms(1) have "program_step p i c PollsServer s = Some s'" by simp
  then show ?thesis using assms(2)
    by (cases rule: polls_server) (auto dest!: spawn_tasks_panics simp: server_ok_def tasks_ok_def split: if_splits)
next
  case False
  then show ?thesis using assms
    by (cases e)
      (auto simp: server_ok_def tasks_ok_def
        split: option.splits if_splits daemonize_end.splits task.splits program_phase.splits)
qed

lemma program_inv_step:
  "program_inv p i c s \<Longrightarrow> program_step p i c e s = Some s' \<Longrightarrow> program_inv p i c s'"
  by (simp add: program_inv_def step_panics step_log step_pid step_server)

interpretation prg: machine_invariant "program_step p i c" program_init "program_inv p i c" for p i c
proof
  show "program_inv p i c program_init" by (simp add: program_inv_def program_init_def log_ok_def server_ok_def)
  show "program_inv p i c s \<Longrightarrow> program_step p i c e s = Some s' \<Longrightarrow> program_inv p i c s'" for s e s'
    by (rule program_inv_step)
qed

section \<open>What decides the end\<close>

text \<open>How the end of the program depends on what happened before.\<close>

fun ended_by :: "program_event list \<Rightarrow> main_error + unit \<Rightarrow> bool" where
  "ended_by es (Inr _) \<longleftrightarrow> (\<exists>sig. Signalled sig \<in> set es)"
| "ended_by es (Inl (LogOpenFailed _)) \<longleftrightarrow> OpensLog False \<in> set es"
| "ended_by es (Inl (DaemonizeFailed e)) \<longleftrightarrow> Daemonizes (DaemonizeErr e) \<in> set es"
| "ended_by es (Inl RuntimeFailed) \<longleftrightarrow> BuildsRuntime False \<in> set es"
| "ended_by es (Inl NatOpenFailed) \<longleftrightarrow> OpensNat False \<in> set es"
| "ended_by es (Inl ListenFailed) \<longleftrightarrow> Binds False \<in> set es"
| "ended_by es (Inl SignalHandlerFailed) \<longleftrightarrow> SignalHandlerFails \<in> set es"
| "ended_by es (Inl DnsExited) \<longleftrightarrow> DnsEnds TaskOk \<in> set es"
| "ended_by es (Inl DnsFailed) \<longleftrightarrow> DnsEnds TaskErr \<in> set es"
| "ended_by es (Inl DnsPanicked) \<longleftrightarrow> DnsEnds TaskPanic \<in> set es"

fun phase_explained :: "program_event list \<Rightarrow> program_phase \<Rightarrow> bool" where
  "phase_explained es (Cleaning r) = ended_by es r"
| "phase_explained es (Exited r) = ended_by es r"
| "phase_explained es Left = (Daemonizes Leaves \<in> set es)"
| "phase_explained es _ = (\<forall>sig. Signalled sig \<notin> set es)"

fun signal_counts :: "program_event list \<Rightarrow> program_phase \<Rightarrow> bool" where
  "signal_counts es (Cleaning (Inl _)) = (\<forall>sig. Signalled sig \<notin> set es)"
| "signal_counts es (Exited (Inl _)) = (\<forall>sig. Signalled sig \<notin> set es)"
| "signal_counts es _ = True"

definition explained :: "program_event list \<Rightarrow> program \<Rightarrow> bool" where
  "explained es s \<longleftrightarrow>
     phase_explained es (pg_phase s) \<and> signal_counts es (pg_phase s) \<and>
     (case pg_dns s of Over e \<Rightarrow> DnsEnds e \<in> set es | _ \<Rightarrow> True)"

lemma ended_by_mono: "ended_by es r \<Longrightarrow> ended_by (es @ [e]) r"
  by (cases "(es, r)" rule: ended_by.cases) auto

lemma signal_counts_exited: "signal_counts es (Exited r) = signal_counts es (Cleaning r)"
  by (cases r) simp_all

lemma signal_counts_snoc: "signal_counts (es @ [CleansUp]) (Cleaning r) = signal_counts es (Cleaning r)"
  by (cases r) simp_all

lemma explained_step:
  assumes "explained es s" "program_step p i c e s = Some s'"
  shows "explained (es @ [e]) s'"
proof -
  consider "e = PollsServer" | "e = CleansUp" | "e \<noteq> PollsServer" "e \<noteq> CleansUp" by blast
  then show ?thesis
  proof cases
    case 1
    with assms(2) have "program_step p i c PollsServer s = Some s'" by simp
    then show ?thesis using assms(1) 1
      by (cases rule: polls_server)
        (auto simp: explained_def dest!: spawn_tasks_panics split: task.splits if_splits)
  next
    case 2
    then obtain r where "pg_phase s = Cleaning r"
        "s' = s\<lparr>pg_phase := Exited r, pg_pid_file := pg_pid_file s \<and> \<not> cf_daemon c\<rparr>"
      using assms(2) by (auto split: program_phase.splits)
    then show ?thesis using assms(1) 2
      by (simp add: explained_def ended_by_mono signal_counts_exited signal_counts_snoc split: task.splits)
  next
    case 3
    then show ?thesis using assms
      by (cases e)
        (auto simp: explained_def dns_failure_def
          split: option.splits if_splits daemonize_end.splits task.splits task_end.splits)
  qed
qed

lemma run_explained: "run_events (program_step p i c) es program_init = Some s \<Longrightarrow> explained es s"
proof (induction es arbitrary: s rule: rev_induct)
  case Nil
  then show ?case by (auto simp: explained_def program_init_def)
next
  case (snoc e es)
  then show ?case by (auto simp: run_events_snoc split: option.splits intro: explained_step)
qed

text \<open>
  The end of the gateway or of the UDP relay and a failed \<open>accept\<close> make no difference to anything else: a
  run without them reaches the same state but for the two tasks.
\<close>

fun essential :: "program_event \<Rightarrow> bool" where
  "essential (GatewayEnds _) = False"
| "essential (UdpEnds _) = False"
| "essential (Accepts None) = False"
| "essential _ = True"

definition main_part :: "program \<Rightarrow> program" where
  "main_part s = s\<lparr>pg_gateway := NoTask, pg_udp := NoTask\<rparr>"

lemma inessential_step:
  "program_step p i c e s = Some s' \<Longrightarrow> \<not> essential e \<Longrightarrow> main_part s' = main_part s"
  by (cases e rule: essential.cases) (auto simp: main_part_def)

lemma main_part_iff: "main_part t = main_part s \<longleftrightarrow> (\<exists>g u. t = s\<lparr>pg_gateway := g, pg_udp := u\<rparr>)"
proof
  assume "main_part t = main_part s"
  then have "t = s\<lparr>pg_gateway := pg_gateway t, pg_udp := pg_udp t\<rparr>" by (cases s; cases t) (simp add: main_part_def)
  then show "\<exists>g u. t = s\<lparr>pg_gateway := g, pg_udp := u\<rparr>" by blast
qed (auto simp: main_part_def)

lemma spawn_tasks_main_part:
  "spawn_tasks p i c (s\<lparr>pg_gateway := g, pg_udp := u\<rparr>) = None \<longleftrightarrow> spawn_tasks p i c s = None"
  by (auto simp: spawn_tasks_def bind_eq_None_conv split: option.splits if_splits)

lemma essential_polls:
  assumes "program_step p i c PollsServer s = Some s'" "main_part t = main_part s"
  shows "\<exists>t'. program_step p i c PollsServer t = Some t' \<and> main_part t' = main_part s'"
proof -
  obtain g u where t: "t = s\<lparr>pg_gateway := g, pg_udp := u\<rparr>" using assms(2) main_part_iff by blast
  show ?thesis
  proof (cases "spawn_tasks p i c s")
    case None
    then show ?thesis using assms(1) spawn_tasks_main_part [of p i c u g s] by (simp add: t main_part_def)
  next
    case (Some s1)
    then obtain t1 where t1: "spawn_tasks p i c t = Some t1"
      using spawn_tasks_main_part [of p i c u g s] t by (metis not_None_eq)
    have "main_part t1 = main_part s1"
      unfolding spawn_tasks_panics [OF t1] spawn_tasks_panics [OF Some] by (simp add: t main_part_def)
    then show ?thesis using assms(1) t1 Some by (simp add: t)
  qed
qed

lemma essential_step:
  assumes "program_step p i c e s = Some s'" "essential e" "main_part t = main_part s"
  shows "\<exists>t'. program_step p i c e t = Some t' \<and> main_part t' = main_part s'"
proof (cases "e = PollsServer")
  case True
  then show ?thesis using essential_polls assms by blast
next
  case False
  obtain g u where t: "t = s\<lparr>pg_gateway := g, pg_udp := u\<rparr>" using assms(3) main_part_iff by blast
  have "program_step p i c e t = Some (s'\<lparr>pg_gateway := g, pg_udp := u\<rparr>)"
    using assms(1,2) False unfolding t
    by (cases e rule: essential.cases)
      (auto split: option.splits if_splits daemonize_end.splits task.splits program_phase.splits)
  then show ?thesis by (simp add: main_part_def)
qed

lemma run_essential:
  "run_events (program_step p i c) es s = Some s' \<Longrightarrow> main_part t = main_part s \<Longrightarrow>
     \<exists>t'. run_events (program_step p i c) (filter essential es) t = Some t' \<and> main_part t' = main_part s'"
proof (induction es arbitrary: s t)
  case (Cons e es)
  then obtain s1 where s1: "program_step p i c e s = Some s1" "run_events (program_step p i c) es s1 = Some s'"
    by (auto split: option.splits)
  show ?case
  proof (cases "essential e")
    case True
    then obtain t1 where "program_step p i c e t = Some t1" "main_part t1 = main_part s1"
      using essential_step s1(1) Cons.prems(2) by blast
    then show ?thesis using Cons.IH s1(2) True by simp
  next
    case False
    then have "main_part t = main_part s1" using inessential_step s1(1) Cons.prems(2) by metis
    then show ?thesis using Cons.IH s1(2) False by simp
  qed
qed simp

section \<open>Properties\<close>

text \<open>
  C26. What holds at every moment of a server whose options the parser accepted: it never panics for want of
  an upstream; exactly the tasks that the options ask for are started; connections are accepted only
  once the listener is bound; the PID file exists only in daemon mode and only with the log file open,
  from daemonization to the end, and a program that has ended leaves it only if the runtime
  could not be built.
\<close>

theorem main_serves:
  assumes "clap_accepts c" "main_command i c args = Serve" "reachable (program_step p i c) program_init s"
  shows "pg_phase s \<noteq> Panicked \<and>
    (pg_server s \<noteq> NotPolled \<longrightarrow>
       (pg_dns s \<noteq> NoTask \<longleftrightarrow> resolve_dns_listen i c \<noteq> None) \<and>
       (pg_gateway s \<noteq> NoTask \<longleftrightarrow> cf_gateway c) \<and>
       (pg_udp s \<noteq> NoTask \<longleftrightarrow> p = Linux \<and> proxy_udp_enabled c)) \<and>
    (pg_clients s \<noteq> [] \<longrightarrow> pg_server s = Accepting) \<and>
    (pg_pid_file s \<longrightarrow> cf_daemon c \<and> pg_log s = main_log_file c \<and> pg_log s \<noteq> None) \<and>
    (pg_phase s = Serving \<longrightarrow> pg_pid_file s = cf_daemon c) \<and>
    (pg_phase s = Exited r \<and> pg_pid_file s \<longrightarrow> r = Inl RuntimeFailed)"
proof -
  have "cf_upstream_proxy c \<noteq> None"
    using assms(1,2) by (auto simp: clap_accepts_def main_command_def split: if_splits)
  moreover have "program_inv p i c s" by (rule prg.reachable_inv [OF assms(3)])
  moreover have "cf_daemon c \<Longrightarrow> main_log_file c \<noteq> None" by (simp add: main_log_file_def split: option.split)
  moreover have "pg_phase s = OpeningLog \<or> (\<exists>path. pg_phase s = Exited (Inl (LogOpenFailed path))) \<Longrightarrow>
      pid_ok c (pg_phase s) (pg_pid_file s) \<Longrightarrow> \<not> pg_pid_file s" by auto
  moreover have "pid_ok c (pg_phase s) (pg_pid_file s) \<Longrightarrow> pg_pid_file s \<Longrightarrow> cf_daemon c"
    by (cases "pg_phase s") auto
  ultimately show ?thesis
    by (auto simp: program_inv_def log_ok_def server_ok_def tasks_ok_def split: if_splits)
qed

text \<open>
  C27. How the server ends.  It reports success exactly when a signal ended it, and every error result has the
  failure it names behind it.  The end of the DNS forwarder, of any kind, can always be acted on while
  it serves, and then ends it with an error and removes the PID file; the end of the gateway or of
  the UDP relay and failures to accept change nothing else: the same run without them gets as far.
\<close>

theorem main_exit_status:
  assumes "run_events (program_step p i c) es program_init = Some s"
  shows "(pg_phase s = Exited r \<longrightarrow> ended_by es r \<and> (r = Inr () \<longleftrightarrow> (\<exists>sig. Signalled sig \<in> set es))) \<and>
    (pg_phase s = Serving \<and> pg_dns s = Over e \<longrightarrow>
       (\<exists>s'. run_events (program_step p i c) [NoticesDns, CleansUp] s = Some s' \<and>
          pg_phase s' = Exited (Inl (dns_failure e)) \<and> \<not> pg_pid_file s')) \<and>
    (\<exists>t. run_events (program_step p i c) (filter essential es) program_init = Some t \<and>
       main_part t = main_part s)"
proof -
  have ex: "explained es s" by (rule run_explained [OF assms])
  then have "pg_phase s = Exited r \<longrightarrow> ended_by es r \<and> (r = Inr () \<longleftrightarrow> (\<exists>sig. Signalled sig \<in> set es))"
    by (cases r) (auto simp: explained_def)
  moreover have "pg_phase s = Serving \<longrightarrow> pg_pid_file s = cf_daemon c"
    using prg.run_inv [OF assms] by (auto simp: program_inv_def)
  ultimately show ?thesis using run_essential [OF assms refl] by (auto simp: guarded_def)
qed

definition main_demo :: "program_event list" where
  "main_demo =
     [OpensLog True, Daemonizes Continues, BuildsRuntime True, PollsServer, OpensNat True, UdpEnds TaskErr, Binds True,
      Accepts None, Accepts (Some (SockV4 (Ipv4 192 168 1 7) 50000)), DnsEnds TaskPanic, NoticesDns, CleansUp]"

definition main_demo_config :: config where
  "main_demo_config = demo_config\<lparr>cf_daemon := True, cf_upstream_proxy :=
     Some \<lparr>up_protocol = Socks5 NoAuth, up_addr = SockV4 (Ipv4 10 0 0 9) 1080\<rparr>\<rparr>"

lemma main_demo_runs:
  "run_events (program_step Linux None main_demo_config) main_demo program_init =
     Some \<lparr>pg_phase = Exited (Inl DnsPanicked), pg_log = Some ''/var/log/trans_proxy.log'', pg_pid_file = False,
           pg_server = Accepting, pg_dns = Over TaskPanic, pg_gateway = NoTask, pg_udp = Over TaskErr,
           pg_clients = [SockV4 (Ipv4 192 168 1 7) 50000]\<rparr>"
  by (simp add: main_demo_def program_init_def guarded_def main_log_file_def main_demo_config_def demo_config_def
      spawn_tasks_def resolve_dns_listen_def proxy_udp_enabled_def dns_failure_def)

theorem main_serves_witness:
  "\<exists>s. reachable (program_step Linux None main_demo_config) program_init s \<and> pg_udp s \<noteq> NoTask \<and> \<not> pg_pid_file s"
proof -
  let ?s = "\<lparr>pg_phase = Exited (Inl DnsPanicked), pg_log = Some ''/var/log/trans_proxy.log'', pg_pid_file = False,
           pg_server = Accepting, pg_dns = Over TaskPanic, pg_gateway = NoTask, pg_udp = Over TaskErr,
           pg_clients = [SockV4 (Ipv4 192 168 1 7) 50000]\<rparr>"
  have s: "reachable (program_step Linux None main_demo_config) program_init ?s"
    by (rule run_events_reachable [OF main_demo_runs reachable.start])
  have "clap_accepts main_demo_config" "main_command None main_demo_config [] = Serve"
    by (simp_all add: clap_accepts_def main_command_def main_demo_config_def demo_config_def)
  from main_serves [OF this s, of "Inl DnsPanicked"] s show ?thesis by (intro exI [of _ ?s]) auto
qed

theorem main_exit_status_witness:
  "\<exists>t. run_events (program_step Linux None main_demo_config) (filter essential main_demo) program_init = Some t \<and>
     ended_by main_demo (Inl DnsPanicked)"
  using main_exit_status [OF main_demo_runs, of "Inl DnsPanicked" TaskPanic] by auto

section \<open>The DNS forwarder in the program\<close>

text \<open>What the DNS task of the program ends with, when the forwarder that it runs has ended.\<close>

definition dns_task_end :: "forwarder \<Rightarrow> task_end option" where
  "dns_task_end fw = (case fw_result fw of None \<Rightarrow> None | Some _ \<Rightarrow> Some TaskErr)"



end
