(* ===== verification/Socks_Server.thy ===== *)
theory Socks_Server
  imports Tunnel_Props
begin

text \<open>
  The SOCKS5 proxy of \<^verbatim>\<open>src/test_servers/src/socks5.rs\<close>, which the end-to-end tests run the program against:
  CONNECT and UDP ASSOCIATE without authentication.  It is the other end of the handshakes of \<open>Tunnel\<close>, so the
  two are proved to understand each other.
\<close>

section \<open>The requests\<close>

datatype server_error =
    ServerIo io_error
  | NotSocks5
  | NotSocks5Request
  | UnsupportedAtyp u8
  | InvalidDomain
  | LookupFailed
  | UnsupportedCommand u8
  | TargetFailed
  | RelayFailed

type_synonym 'a server_io = "(server_error, 'a) outcome \<times> stream"

text \<open>\<open>op.await?\<close>, followed by the rest.\<close>

definition server_then ::
    "(io_error, 'a) outcome \<times> stream \<Rightarrow> ('a \<Rightarrow> stream \<Rightarrow> 'b server_io) \<Rightarrow> 'b server_io" where
  "server_then r f =
     (case r of (Done x, s) \<Rightarrow> f x s | (Error e, s) \<Rightarrow> (Error (ServerIo e), s) | (Hang, s) \<Rightarrow> (Hang, s))"

text \<open>\<open>lookup\<close> is \<open>lookup_host\<close>: an error, or the addresses of a host and port.\<close>

definition read_request_addr :: "resolver \<Rightarrow> u8 \<Rightarrow> stream \<Rightarrow> socket_addr server_io" where
  "read_request_addr lookup atyp s =
     (if atyp = 0x01 then
        server_then (io_read_exact 4 s) (\<lambda>addr s.
        server_then (io_read_exact 2 s) (\<lambda>port_bytes s.
          (Done (SockV4 (Ipv4 (addr ! 0) (addr ! 1) (addr ! 2) (addr ! 3)) (u16_be (port_bytes ! 0) (port_bytes ! 1))), s)))
      else if atyp = 0x03 then
        server_then (io_read_exact 1 s) (\<lambda>len s.
        server_then (io_read_exact (unat (len ! 0)) s) (\<lambda>domain_bytes s.
        server_then (io_read_exact 2 s) (\<lambda>port_bytes s.
          let port = u16_be (port_bytes ! 0) (port_bytes ! 1) in
          (case from_utf8 domain_bytes of
             None \<Rightarrow> (Error InvalidDomain, s)
           | Some domain \<Rightarrow>
               (case lookup (domain @ '':'' @ dec (unat port)) of
                  Some (a # _) \<Rightarrow> (Done a, s)
                | _ \<Rightarrow> (Error LookupFailed, s))))))
      else if atyp = 0x04 then
        server_then (io_read_exact 16 s) (\<lambda>addr s.
        server_then (io_read_exact 2 s) (\<lambda>port_bytes s.
          (Done (SockV6 (ipv6_of_16 addr) (u16_be (port_bytes ! 0) (port_bytes ! 1)) 0 0), s)))
      else (Error (UnsupportedAtyp atyp), s))"

text \<open>
  What a connection has become after its handshake.  \<open>target\<close> tells whether connecting to a destination works;
  \<open>relay_port\<close> is the port of the UDP socket, if one can be bound.
\<close>

datatype socks_session = Tunnelling socket_addr | Relaying u16

definition handle_connect :: "(socket_addr \<Rightarrow> bool) \<Rightarrow> socket_addr \<Rightarrow> stream \<Rightarrow> socks_session server_io" where
  "handle_connect target dest s =
     (if \<not> target dest then (Error TargetFailed, s)
      else server_then (io_write_all [0x05, 0x00, 0x00, 0x01, 0, 0, 0, 0, 0, 0] s) (\<lambda>_ s. (Done (Tunnelling dest), s)))"

definition handle_udp_associate :: "u16 option \<Rightarrow> stream \<Rightarrow> socks_session server_io" where
  "handle_udp_associate relay_port s =
     (case relay_port of
        None \<Rightarrow> (Error RelayFailed, s)
      | Some port \<Rightarrow>
          server_then (io_write_all ([0x05, 0x00, 0x00, 0x01, 0, 0, 0, 0] @ be16 port) s) (\<lambda>_ s. (Done (Relaying port), s)))"

definition handle_socks5 ::
    "resolver \<Rightarrow> (socket_addr \<Rightarrow> bool) \<Rightarrow> u16 option \<Rightarrow> stream \<Rightarrow> socks_session server_io" where
  "handle_socks5 lookup target relay_port s =
     server_then (io_read_exact 2 s) (\<lambda>header s.
       if header ! 0 \<noteq> 0x05 then (Error NotSocks5, s)
       else
         server_then (io_read_exact (unat (header ! 1)) s) (\<lambda>_ s.
         server_then (io_write_all [0x05, 0x00] s) (\<lambda>_ s.
         server_then (io_read_exact 4 s) (\<lambda>req_header s.
           if req_header ! 0 \<noteq> 0x05 then (Error NotSocks5Request, s)
           else
             let cmd = req_header ! 1 in
             (case read_request_addr lookup (req_header ! 3) s of
                (Error e, s) \<Rightarrow> (Error e, s)
              | (Hang, s) \<Rightarrow> (Hang, s)
              | (Done dest, s) \<Rightarrow>
                  if cmd = 0x01 then handle_connect target dest s
                  else if cmd = 0x03 then handle_udp_associate relay_port s
                  else (Error (UnsupportedCommand cmd), s))))))"

section \<open>Datagrams\<close>

definition parse_udp_header :: "bytes \<Rightarrow> (socket_addr \<times> nat) option exec" where
  "parse_udp_header buf =
     (if length buf < 4 then Some None
      else do {
        frag \<leftarrow> idx buf 2;
        atyp \<leftarrow> idx buf 3;
        if frag \<noteq> 0 then Some None
        else if atyp = 0x01 then
          (if length buf < 10 then Some None
           else do {
             a \<leftarrow> idx buf 4; b \<leftarrow> idx buf 5; c \<leftarrow> idx buf 6; d \<leftarrow> idx buf 7;
             port \<leftarrow> rd16 buf 8;
             Some (Some (SockV4 (Ipv4 a b c d) port, 10)) })
        else if atyp = 0x04 then
          (if length buf < 22 then Some None
           else do {
             octets \<leftarrow> slice buf 4 20;
             ip \<leftarrow> ipv6_of_octets octets;
             port \<leftarrow> rd16 buf 20;
             Some (Some (SockV6 ip port 0 0, 22)) })
        else Some None })"

definition encode_udp_header :: "socket_addr \<Rightarrow> bytes" where
  "encode_udp_header src =
     [0x00, 0x00, 0x00] @
     (case sock_ip src of IpV4 ip \<Rightarrow> 0x01 # octets4 ip | IpV6 ip \<Rightarrow> 0x04 # octets6 ip) @
     be16 (sock_port src)"

text \<open>
  One datagram of a client: what is sent to the destination, and the datagram that goes back.  \<open>network\<close> answers a
  datagram, or nothing comes in time.
\<close>

definition relay_datagram ::
    "(socket_addr \<Rightarrow> bytes \<Rightarrow> bytes option) \<Rightarrow> bytes \<Rightarrow> bytes option exec" where
  "relay_datagram network buf = do {
     h \<leftarrow> parse_udp_header buf;
     case h of
       None \<Rightarrow> Some None
     | Some (dst, payload_off) \<Rightarrow> do {
         payload \<leftarrow> slice buf payload_off (length buf);
         Some (case network dst payload of
                 None \<Rightarrow> None
               | Some answer \<Rightarrow> Some (encode_udp_header dst @ answer)) } }"

section \<open>Reading a request\<close>

lemma server_read [simp]:
  assumes "in_bytes s = bs @ rest" "length bs = n"
  shows "server_then (io_read_exact n s) f = f bs (s\<lparr>s_in := drop_bytes n (s_in s)\<rparr>)"
  using assms by (simp add: server_then_def io_read_exact_def)

lemma in_bytes_drop: "in_bytes s = bs @ rest \<Longrightarrow> length bs = n \<Longrightarrow> in_bytes (s\<lparr>s_in := drop_bytes n (s_in s)\<rparr>) = rest"
  by (simp add: in_bytes_def)

text \<open>A read of bytes that are there goes on with a stream that has the rest.\<close>

lemma server_read_intro:
  assumes "in_bytes s = bs @ rest" "length bs = n"
  obtains s' where "\<And>f. server_then (io_read_exact n s) f = f bs s'" "in_bytes s' = rest"
    "s_out s' = s_out s" "s_wfail s' = s_wfail s"
  using server_read [OF assms] in_bytes_drop [OF assms] by (metis (no_types, lifting) stream.select_convs stream.surjective stream.update_convs(1))

lemma host_char_utf8:
  assumes "list_all host_char h"
  shows "from_utf8 (bytes_of h) = Some h"
proof -
  have "(of_nat (code c) :: u8) < 0x80" if "c \<in> set h" for c
  proof -
    have "code c < 128" using assms that by (auto simp: list_all_iff host_char_def label_char_def code_def)
    then show ?thesis by (simp add: word_less_nat_alt unat_of_nat_u8)
  qed
  then have "from_utf8 (bytes_of h) = Some (str_of (bytes_of h))"
    by (intro from_utf8_ascii) (auto simp: bytes_of_def code_def)
  then show ?thesis by simp
qed

text \<open>The destination that a request names, for a server with the given resolver.\<close>

definition asked_for :: "resolver \<Rightarrow> socket_addr \<Rightarrow> string option \<Rightarrow> socket_addr option" where
  "asked_for lookup dest hostname =
     (case usable_proxy_hostname hostname of
        Some h \<Rightarrow> (case lookup (h @ '':'' @ dec (unat (sock_port dest))) of Some (a # _) \<Rightarrow> Some a | _ \<Rightarrow> None)
      | None \<Rightarrow> Some (sock_new (sock_ip dest) (sock_port dest)))"

definition same_but_input :: "stream \<Rightarrow> stream \<Rightarrow> bytes \<Rightarrow> bool" where
  "same_but_input s s' rest \<longleftrightarrow> in_bytes s' = rest \<and> s_out s' = s_out s \<and> s_wfail s' = s_wfail s"

lemma u16_be_be16_nth [simp]: "u16_be (be16 p ! 0) (be16 p ! Suc 0) = p"
  using be16_cases [of p] by (metis nth_Cons_0 nth_Cons_Suc)

lemma octets4_nth: "Ipv4 (octets4 ip ! 0) (octets4 ip ! Suc 0) (octets4 ip ! 2) (octets4 ip ! 3) = ip"
  by (cases ip) (simp add: numeral_eq_Suc)

lemma ipv6_of_16_octets6: "ipv6_of_16 (octets6 ip) = ip"
proof -
  have "ipv6_of_octets (octets6 ip) = Some (ipv6_of_16 (octets6 ip))"
    by (simp add: ipv6_of_octets_def ipv6_of_16_def rd16_def idx_def)
  then show ?thesis by simp
qed

lemma read_addr_domain:
  assumes "in_bytes s = of_nat (length h) # bytes_of h @ be16 port @ rest" "unat (of_nat (length h) :: u8) = length h"
    "from_utf8 (bytes_of h) = Some h" "lookup (h @ '':'' @ dec (unat port)) = Some (a # as)"
  shows "\<exists>s'. read_request_addr lookup 3 s = (Done a, s') \<and> same_but_input s s' rest"
proof -
  have "in_bytes s = [of_nat (length h)] @ bytes_of h @ be16 port @ rest" using assms(1) by simp
  from server_read_intro [OF this, of 1] obtain s1 where
    s1: "\<And>f :: bytes \<Rightarrow> stream \<Rightarrow> socket_addr server_io. server_then (io_read_exact (Suc 0) s) f = f [of_nat (length h)] s1" "in_bytes s1 = bytes_of h @ be16 port @ rest"
      "s_out s1 = s_out s" "s_wfail s1 = s_wfail s" by auto
  from server_read_intro [OF s1(2), of "length h"] obtain s2 where
    s2: "\<And>f :: bytes \<Rightarrow> stream \<Rightarrow> socket_addr server_io. server_then (io_read_exact (length h) s1) f = f (bytes_of h) s2" "in_bytes s2 = be16 port @ rest"
      "s_out s2 = s_out s1" "s_wfail s2 = s_wfail s1" by auto
  from server_read_intro [OF s2(2), of 2] obtain s3 where
    s3: "\<And>f :: bytes \<Rightarrow> stream \<Rightarrow> socket_addr server_io. server_then (io_read_exact 2 s2) f = f (be16 port) s3" "in_bytes s3 = rest"
      "s_out s3 = s_out s2" "s_wfail s3 = s_wfail s2" by auto
  have "read_request_addr lookup 3 s = (Done a, s3)"
    using assms(2-4) by (simp add: read_request_addr_def s1(1) s2(1) s3(1) Let_def)
  then show ?thesis using s1 s2 s3 by (simp add: same_but_input_def)
qed

lemma read_addr_v4:
  assumes "in_bytes s = octets4 ip @ be16 port @ rest"
  shows "\<exists>s'. read_request_addr lookup 1 s = (Done (SockV4 ip port), s') \<and> same_but_input s s' rest"
proof -
  from server_read_intro [OF assms, of 4] obtain s1 where
    s1: "\<And>f :: bytes \<Rightarrow> stream \<Rightarrow> socket_addr server_io. server_then (io_read_exact 4 s) f = f (octets4 ip) s1" "in_bytes s1 = be16 port @ rest"
      "s_out s1 = s_out s" "s_wfail s1 = s_wfail s" by auto
  from server_read_intro [OF s1(2), of 2] obtain s2 where
    s2: "\<And>f :: bytes \<Rightarrow> stream \<Rightarrow> socket_addr server_io. server_then (io_read_exact 2 s1) f = f (be16 port) s2" "in_bytes s2 = rest"
      "s_out s2 = s_out s1" "s_wfail s2 = s_wfail s1" by auto
  have "read_request_addr lookup 1 s = (Done (SockV4 ip port), s2)"
    by (simp add: read_request_addr_def s1(1) s2(1) octets4_nth)
  then show ?thesis using s1 s2 by (simp add: same_but_input_def)
qed

lemma read_addr_v6:
  assumes "in_bytes s = octets6 ip @ be16 port @ rest"
  shows "\<exists>s'. read_request_addr lookup 4 s = (Done (SockV6 ip port 0 0), s') \<and> same_but_input s s' rest"
proof -
  from server_read_intro [OF assms, of 16] obtain s1 where
    s1: "\<And>f :: bytes \<Rightarrow> stream \<Rightarrow> socket_addr server_io. server_then (io_read_exact 16 s) f = f (octets6 ip) s1" "in_bytes s1 = be16 port @ rest"
      "s_out s1 = s_out s" "s_wfail s1 = s_wfail s" by auto
  from server_read_intro [OF s1(2), of 2] obtain s2 where
    s2: "\<And>f :: bytes \<Rightarrow> stream \<Rightarrow> socket_addr server_io. server_then (io_read_exact 2 s1) f = f (be16 port) s2" "in_bytes s2 = rest"
      "s_out s2 = s_out s1" "s_wfail s2 = s_wfail s1" by auto
  have "read_request_addr lookup 4 s = (Done (SockV6 ip port 0 0), s2)"
    by (simp add: read_request_addr_def s1(1) s2(1) ipv6_of_16_octets6)
  then show ?thesis using s1 s2 by (simp add: same_but_input_def)
qed

lemma read_addr:
  assumes "in_bytes s = tl (socks5_addr dest hostname) @ be16 (sock_port dest) @ rest"
    "asked_for lookup dest hostname = Some d"
  shows "\<exists>s'. read_request_addr lookup (hd (socks5_addr dest hostname)) s = (Done d, s') \<and> same_but_input s s' rest"
proof (cases rule: socks5_addr_cases [of hostname dest])
  case (1 h)
  then have "is_safe_proxy_hostname h" by (auto simp: usable_proxy_hostname_def split: option.splits if_splits)
  then have "from_utf8 (bytes_of h) = Some h" using host_char_utf8 safe_hostname_chars(1) by blast
  moreover obtain as where "lookup (h @ '':'' @ dec (unat (sock_port dest))) = Some (d # as)"
    using assms(2) 1 by (auto simp: asked_for_def split: option.splits list.splits)
  ultimately show ?thesis
    using read_addr_domain [of s h "sock_port dest" rest lookup d as] assms(1) 1 by simp
next
  case (2 ip)
  then have "usable_proxy_hostname hostname = None" by (cases "usable_proxy_hostname hostname") (simp_all add: socks5_addr_def)
  then show ?thesis
    using read_addr_v4 [of s ip "sock_port dest" rest lookup] assms 2 by (simp add: asked_for_def)
next
  case (3 ip)
  then have "usable_proxy_hostname hostname = None" by (cases "usable_proxy_hostname hostname") (simp_all add: socks5_addr_def)
  then show ?thesis
    using read_addr_v6 [of s ip "sock_port dest" rest lookup] assms 3 by (simp add: asked_for_def)
qed

text \<open>A whole conversation up to the command.\<close>

lemma greeting_methods: "\<exists>n methods. socks5_greeting auth = [5, n] @ methods \<and> length methods = unat n"
  by (cases auth) (simp_all add: socks5_greeting_def)

lemma socks5_addr_Cons: "socks5_addr dest hostname = hd (socks5_addr dest hostname) # tl (socks5_addr dest hostname)"
  by (cases rule: socks5_addr_cases [of hostname dest]) simp_all

lemma handle_request:
  assumes "in_bytes s = socks5_greeting auth @ [5, cmd, 0] @ socks5_addr dest hostname @ be16 (sock_port dest) @ rest"
    "s_wfail s = None" "asked_for lookup dest hostname = Some d"
  obtains s' where "in_bytes s' = rest" "s_out s' = s_out s @ [5, 0]" "s_wfail s' = None"
    "handle_socks5 lookup target relay_port s =
       (if cmd = 1 then handle_connect target d s' else if cmd = 3 then handle_udp_associate relay_port s'
        else (Error (UnsupportedCommand cmd), s'))"
proof -
  obtain n methods where g: "socks5_greeting auth = [5, n] @ methods" "length methods = unat n"
    using greeting_methods by blast
  let ?addr = "socks5_addr dest hostname"
  have "in_bytes s = [5, n] @ methods @ [5, cmd, 0] @ ?addr @ be16 (sock_port dest) @ rest" using assms(1) g(1) by simp
  from server_read_intro [OF this, of 2] obtain s1 where
    s1: "\<And>f :: bytes \<Rightarrow> stream \<Rightarrow> socks_session server_io. server_then (io_read_exact 2 s) f = f [5, n] s1"
      "in_bytes s1 = methods @ [5, cmd, 0] @ ?addr @ be16 (sock_port dest) @ rest"
      "s_out s1 = s_out s" "s_wfail s1 = s_wfail s" by auto
  from server_read_intro [OF s1(2) g(2)] obtain s2 where
    s2: "\<And>f :: bytes \<Rightarrow> stream \<Rightarrow> socks_session server_io. server_then (io_read_exact (unat n) s1) f = f methods s2"
      "in_bytes s2 = [5, cmd, 0] @ ?addr @ be16 (sock_port dest) @ rest"
      "s_out s2 = s_out s1" "s_wfail s2 = s_wfail s1" by auto
  let ?s = "s2\<lparr>s_out := s_out s2 @ [5, 0]\<rparr>"
  have "in_bytes ?s = [5, cmd, 0, hd ?addr] @ tl ?addr @ be16 (sock_port dest) @ rest"
    using s2(2) socks5_addr_Cons [of dest hostname] by (metis append_Cons append_Nil in_bytes_out)
  from server_read_intro [OF this, of 4] obtain s3 where
    s3: "\<And>f :: bytes \<Rightarrow> stream \<Rightarrow> socks_session server_io. server_then (io_read_exact 4 ?s) f = f [5, cmd, 0, hd ?addr] s3"
      "in_bytes s3 = tl ?addr @ be16 (sock_port dest) @ rest"
      "s_out s3 = s_out s2 @ [5, 0]" "s_wfail s3 = s_wfail s2" by auto
  from read_addr [OF s3(2) assms(3)] obtain s4 where
    s4: "read_request_addr lookup (hd ?addr) s3 = (Done d, s4)" "same_but_input s3 s4 rest" by blast
  have "s_wfail s2 = None" using assms(2) s1(4) s2(4) by simp
  then have "handle_socks5 lookup target relay_port s =
       (if cmd = 1 then handle_connect target d s4 else if cmd = 3 then handle_udp_associate relay_port s4
        else (Error (UnsupportedCommand cmd), s4))"
    by (simp add: handle_socks5_def s1(1) s2(1) s3(1) s4(1) server_then_def [of "(Done (), _)"])
  then show thesis using that [of s4] s1 s2 s3 s4(2) assms(2) by (simp add: same_but_input_def)
qed

lemma connect_request_form:
  "socks5_connect_request dest hostname = [5, 1, 0] @ socks5_addr dest hostname @ be16 (sock_port dest)"
  by (simp add: socks5_connect_request_def)

lemma associate_request_form:
  "socks5_associate_request = [5, 3, 0] @ socks5_addr (SockV4 (Ipv4 0 0 0 0) 0) None @ be16 0"
  by (simp add: socks5_associate_request_def socks5_addr_def usable_proxy_hostname_def be16_def)

lemma handle_connect_done:
  "target d \<Longrightarrow> s_wfail s = None \<Longrightarrow> handle_connect target d s =
     (Done (Tunnelling d), s\<lparr>s_out := s_out s @ [5, 0, 0, 1, 0, 0, 0, 0, 0, 0]\<rparr>)"
  by (simp add: handle_connect_def server_then_def)

lemma handle_associate_done:
  "s_wfail s = None \<Longrightarrow> handle_udp_associate (Some port) s =
     (Done (Relaying port), s\<lparr>s_out := s_out s @ [5, 0, 0, 1, 0, 0, 0, 0] @ be16 port\<rparr>)"
  by (simp add: handle_udp_associate_def server_then_def)

section \<open>Datagrams of the two sides\<close>

lemma encode_udp_header_client: "encode_udp_header src @ payload = encode_socks5_udp src None payload"
  by (simp add: encode_udp_header_def encode_socks5_udp_def socks5_addr_def usable_proxy_hostname_def)

lemma client_reads_reply:
  "\<exists>off. socks5_udp_payload_offset (encode_udp_header src @ answer) = Some (Some off) \<and>
     drop off (encode_udp_header src @ answer) = answer"
  unfolding encode_udp_header_client payload_offset_encode
  by (simp add: encode_udp_header_client [symmetric, of src "[]", simplified])
     (simp add: encode_udp_header_client [symmetric])

lemma parse_client_datagram:
  assumes "usable_proxy_hostname hostname = None"
  shows "\<exists>off. parse_udp_header (encode_socks5_udp dest hostname payload) =
      Some (Some (sock_new (sock_ip dest) (sock_port dest), off)) \<and>
    slice (encode_socks5_udp dest hostname payload) off (length (encode_socks5_udp dest hostname payload)) = Some payload"
proof (cases "sock_ip dest")
  case (IpV4 ip)
  obtain a b c d where ip: "ip = Ipv4 a b c d" by (cases ip)
  have enc: "encode_socks5_udp dest hostname payload = [0, 0, 0, 1, a, b, c, d] @ be16 (sock_port dest) @ payload"
    using assms IpV4 ip by (simp add: encode_socks5_udp_def socks5_addr_def)
  have "rd16 ([0, 0, 0, 1, a, b, c, d] @ be16 (sock_port dest) @ payload) 8 = Some (sock_port dest)"
    by (rule rd16_append) simp
  then show ?thesis unfolding enc using IpV4 ip
    by (intro exI [of _ 10]) (simp add: parse_udp_header_def idx_def slice_def)
next
  case (IpV6 ip)
  have enc: "encode_socks5_udp dest hostname payload = ([0, 0, 0, 4] @ octets6 ip) @ be16 (sock_port dest) @ payload"
    using assms IpV6 by (simp add: encode_socks5_udp_def socks5_addr_def)
  have "slice (([0, 0, 0, 4] @ octets6 ip) @ be16 (sock_port dest) @ payload) 4 20 = Some (octets6 ip)"
    by (simp add: slice_def)
  moreover have "rd16 (([0, 0, 0, 4] @ octets6 ip) @ be16 (sock_port dest) @ payload) 20 = Some (sock_port dest)"
    by (rule rd16_append) simp
  ultimately show ?thesis unfolding enc using IpV6
    by (intro exI [of _ 22]) (simp add: parse_udp_header_def idx_def slice_def)
qed

lemma parse_named_datagram:
  assumes "usable_proxy_hostname hostname = Some h"
  shows "parse_udp_header (encode_socks5_udp dest hostname payload) = Some None"
  using assms by (simp add: encode_socks5_udp_def socks5_addr_def parse_udp_header_def idx_def)

section \<open>Properties\<close>

text \<open>
  C18. The program and this server understand each other.  A server that is sent what the client writes for a
  destination connects to that destination (or to what the host name resolves to) and leaves the bytes of the
  tunnel unread; a client that is sent what the server writes has its tunnel, has written exactly
  that request, and leaves the bytes of the tunnel unread; whatever authentication the client is ready to
  use, and however the bytes are cut into reads.
\<close>

theorem socks5_interop:
  assumes "s_wfail client = None" "s_wfail server = None" "up_protocol proxy = Socks5 auth"
    "asked_for lookup dest hostname = Some d" "target d"
    "in_bytes server = socks5_greeting auth @ socks5_connect_request dest hostname @ up"
    "in_bytes client = [5, 0] @ [5, 0, 0, 1, 0, 0, 0, 0, 0, 0] @ down"
  shows "\<exists>server' client'.
    handle_socks5 lookup target relay_port server = (Done (Tunnelling d), server') \<and> in_bytes server' = up \<and>
    s_out server' = s_out server @ [5, 0] @ [5, 0, 0, 1, 0, 0, 0, 0, 0, 0] \<and>
    connect_via_proxy proxy dest hostname client = (Done [], client') \<and> in_bytes client' = down \<and>
    s_out client' = s_out client @ socks5_greeting auth @ socks5_connect_request dest hostname"
proof -
  have "in_bytes server = socks5_greeting auth @ [5, 1, 0] @ socks5_addr dest hostname @ be16 (sock_port dest) @ up"
    using assms(6) by (simp add: connect_request_form)
  from handle_request [OF this assms(2,4), of target relay_port] obtain s' where
    s': "in_bytes s' = up" "s_out s' = s_out server @ [5, 0]" "s_wfail s' = None"
      "handle_socks5 lookup target relay_port server = handle_connect target d s'" by auto
  have "auth_dialog auth [] [5, 0]" "good_reply [5, 0, 0, 1, 0, 0, 0, 0, 0, 0]"
    by (auto simp: auth_dialog_def good_reply_def bound_field_def)
  from connect_via_socks5_intro [OF assms(1,3) assms(7) this, of dest hostname] s'
  show ?thesis by (auto simp: handle_connect_done [of target d, OF assms(5)])
qed

definition demo_server :: stream where
  "demo_server = stream_of [[5, 1], [0, 5, 1, 0, 1, 192, 0, 2], [1, 1, 187, 104, 105]]"

definition demo_socks_client :: stream where
  "demo_socks_client = stream_of [[5], [0, 5, 0, 0, 1, 0, 0, 0], [0, 0, 0, 111, 107]]"

theorem socks5_interop_witness:
  "\<exists>server' client'.
    handle_socks5 (\<lambda>_. None) (\<lambda>_. True) None demo_server = (Done (Tunnelling (SockV4 (Ipv4 192 0 2 1) 443)), server') \<and>
    in_bytes server' = [104, 105] \<and>
    connect_via_proxy \<lparr>up_protocol = Socks5 NoAuth, up_addr = SockV4 (Ipv4 10 0 0 1) 1080\<rparr>
      (SockV4 (Ipv4 192 0 2 1) 443) None demo_socks_client = (Done [], client') \<and> in_bytes client' = [111, 107]"
proof -
  let ?proxy = "\<lparr>up_protocol = Socks5 NoAuth, up_addr = SockV4 (Ipv4 10 0 0 1) 1080\<rparr>"
  have "in_bytes demo_server = socks5_greeting NoAuth @ socks5_connect_request (SockV4 (Ipv4 192 0 2 1) 443) None @ [104, 105]"
    by (simp add: demo_server_def socks5_greeting_def socks5_connect_request_def socks5_addr_def usable_proxy_hostname_def be16_def)
  moreover have "in_bytes demo_socks_client = [5, 0] @ [5, 0, 0, 1, 0, 0, 0, 0, 0, 0] @ [111, 107]"
    by (simp add: demo_socks_client_def)
  moreover have "s_wfail demo_server = None" "s_wfail demo_socks_client = None"
    by (simp_all add: demo_server_def demo_socks_client_def stream_of_def)
  moreover have "asked_for (\<lambda>_. None) (SockV4 (Ipv4 192 0 2 1) 443) None = Some (SockV4 (Ipv4 192 0 2 1) 443)"
    by (simp add: asked_for_def usable_proxy_hostname_def)
  ultimately show ?thesis
    using socks5_interop [of demo_socks_client demo_server ?proxy NoAuth "\<lambda>_. None" "SockV4 (Ipv4 192 0 2 1) 443" None
        "SockV4 (Ipv4 192 0 2 1) 443" "\<lambda>_. True" "[104, 105]" "[111, 107]" None] by auto
qed

text \<open>
  The same for datagrams: the association that the client asks for is the one the server makes, at
  the address of the proxy and the port of the relay; a datagram for an address arrives there with its
  payload, and the client finds the answer in what comes back.  A datagram under a host name, which
  the relay sends when the DNS table knows one, is dropped by this server.
\<close>

theorem socks5_udp_interop:
  assumes "s_wfail client = None" "s_wfail server = None" "up_protocol proxy = Socks5 auth"
    "in_bytes server = socks5_greeting auth @ socks5_associate_request @ up"
    "in_bytes client = [5, 0] @ [5, 0, 0, 1, 0, 0, 0, 0] @ be16 port @ down"
    "usable_proxy_hostname hostname = None" "usable_proxy_hostname named = Some h"
    "network (sock_new (sock_ip dest) (sock_port dest)) payload = Some answer"
  shows "\<exists>server' client'.
    handle_socks5 lookup target (Some port) server = (Done (Relaying port), server') \<and> in_bytes server' = up \<and>
    s_out server' = s_out server @ [5, 0] @ [5, 0, 0, 1, 0, 0, 0, 0] @ be16 port \<and>
    udp_associate proxy client = (Done (sock_new (sock_ip (up_addr proxy)) port), client') \<and>
    in_bytes client' = down \<and> s_out client' = s_out client @ socks5_greeting auth @ socks5_associate_request \<and>
    (\<exists>reply off. relay_datagram network (encode_socks5_udp dest hostname payload) = Some (Some reply) \<and>
       socks5_udp_payload_offset reply = Some (Some off) \<and> drop off reply = answer) \<and>
    relay_datagram network (encode_socks5_udp dest named payload) = Some None"
proof -
  have "in_bytes server = socks5_greeting auth @ [5, 3, 0] @ socks5_addr (SockV4 (Ipv4 0 0 0 0) 0) None @
      be16 (sock_port (SockV4 (Ipv4 0 0 0 0) 0)) @ up"
    using assms(4) by (simp add: associate_request_form)
  moreover have "asked_for lookup (SockV4 (Ipv4 0 0 0 0) 0) None = Some (SockV4 (Ipv4 0 0 0 0) 0)"
    by (simp add: asked_for_def usable_proxy_hostname_def)
  ultimately obtain s' where
    s': "in_bytes s' = up" "s_out s' = s_out server @ [5, 0]" "s_wfail s' = None"
      "handle_socks5 lookup target (Some port) server = handle_udp_associate (Some port) s'"
    using handle_request [OF _ assms(2), of auth 3 "SockV4 (Ipv4 0 0 0 0) 0" None up lookup _ target "Some port"] by auto
  let ?b = "[1, 0, 0, 0, 0] @ be16 port"
  have "in_bytes client = [5, 0] @ ([5, 0, 0] @ ?b) @ down" "auth_dialog auth [] [5, 0]" "bound_field ?b"
    using assms(5) by (auto simp: auth_dialog_def bound_field_def)
  from exchange_intro [OF assms(1) this, of socks5_associate_request] obtain s1 s2 where
    c: "socks5_negotiate_auth auth client = (Done (), s1)" "s_wfail s1 = None"
      "socks5_reply (s1\<lparr>s_out := s_out s1 @ socks5_associate_request\<rparr>) = (Done (bound_of ?b), s2)" "in_bytes s2 = down"
      "s_out s2 = s_out client @ socks5_greeting auth @ socks5_associate_request" by auto
  have "bound_of ?b = SockV4 ipv4_unspecified port"
    using u16_be_be16_nth [of port] by (simp add: bound_of_def ipv4_unspecified_def)
  then have "udp_associate proxy client = (Done (sock_new (sock_ip (up_addr proxy)) port), s2)"
    using assms(3) c by (simp add: udp_associate_def)
  moreover obtain off where "parse_udp_header (encode_socks5_udp dest hostname payload) =
      Some (Some (sock_new (sock_ip dest) (sock_port dest), off))"
      "slice (encode_socks5_udp dest hostname payload) off (length (encode_socks5_udp dest hostname payload)) = Some payload"
    using parse_client_datagram [OF assms(6)] by blast
  then have "relay_datagram network (encode_socks5_udp dest hostname payload) =
      Some (Some (encode_udp_header (sock_new (sock_ip dest) (sock_port dest)) @ answer))"
    using assms(8) by (simp add: relay_datagram_def)
  moreover have "relay_datagram network (encode_socks5_udp dest named payload) = Some None"
    by (simp add: relay_datagram_def parse_named_datagram [OF assms(7)])
  ultimately show ?thesis
    using s' c(4,5) client_reads_reply [of "sock_new (sock_ip dest) (sock_port dest)" answer]
    by (auto simp: handle_associate_done)
qed

end
