(* ===== verification/Http_Server.thy ===== *)
theory Http_Server
  imports Socks_Server Dial
begin

text \<open>
  The HTTP servers of \<^verbatim>\<open>src/test_servers/src\<close>, which the end-to-end tests run the program against: the CONNECT
  proxy of \<^verbatim>\<open>http_connect.rs\<close>, the other end of the handshake of \<open>Tunnel\<close>, the destination of \<^verbatim>\<open>http_dest.rs\<close>,
  and the marking of their own connections, \<^verbatim>\<open>fwmark.rs\<close>.
\<close>

section \<open>Requests\<close>

datatype http_error =
    ReadFailed io_error
  | WriteFailed io_error
  | RequestTooLarge
  | HeadersIncomplete
  | RequestNotUtf8
  | EmptyRequest
  | NotConnect
  | InvalidTarget
  | NoAddress
  | Unreachable

type_synonym 'a http_io = "(http_error, 'a) outcome \<times> stream"

text \<open>The read loop of both servers, with a buffer of \<open>cap\<close> bytes; \<open>buf\<close> is its filled part.\<close>

function read_request :: "nat \<Rightarrow> bytes \<Rightarrow> stream \<Rightarrow> bytes http_io" where
  "read_request cap buf s =
     (if cap \<le> length buf then (Error RequestTooLarge, s)
      else (case io_read (cap - length buf) s of
              (Hang, s) \<Rightarrow> (Hang, s)
            | (Error e, s) \<Rightarrow> (Error (ReadFailed e), s)
            | (Done bs, s) \<Rightarrow>
                if bs = [] then (Error HeadersIncomplete, s)
                else if find_header_end (buf @ bs) \<noteq> None then (Done (buf @ bs), s)
                else read_request cap (buf @ bs) s))"
  by pat_completeness auto
termination
  by (relation "measure (\<lambda>(cap, buf, s). cap - length buf)") (auto simp: not_le intro!: diff_less_mono2)

declare read_request.simps [simp del]

text \<open>
  The target of a request, as an address or as what \<open>to_socket_addrs\<close> finds; an empty answer makes the handler
  panic, here \<open>NoAddress\<close>.
\<close>

definition resolve_target :: "resolver \<Rightarrow> string \<Rightarrow> http_error + socket_addr" where
  "resolve_target lookup target =
     (case parse_socket_addr target of
        Some a \<Rightarrow> Inr a
      | None \<Rightarrow>
          (case lookup target of
             None \<Rightarrow> Inl InvalidTarget
           | Some [] \<Rightarrow> Inl NoAddress
           | Some (a # _) \<Rightarrow> Inr a))"

definition parse_connect_request :: "string \<Rightarrow> http_error + string" where
  "parse_connect_request header =
     (case first_line header of
        None \<Rightarrow> Inl EmptyRequest
      | Some line \<Rightarrow>
          let parts = split_whitespace line in
          if length parts < 3 \<or> parts ! 0 \<noteq> ''CONNECT'' then Inl NotConnect else Inr (parts ! 1))"

definition established :: string where
  "established = ''HTTP/1.1 200 Connection established'' @ crlf @ crlf"

text \<open>\<open>reachable_addr\<close> tells whether \<open>connect_marked\<close> works; the result is the address that the tunnel goes to.\<close>

definition handle_http_connect ::
    "resolver \<Rightarrow> (socket_addr \<Rightarrow> bool) \<Rightarrow> stream \<Rightarrow> socket_addr http_io" where
  "handle_http_connect lookup reachable_addr s =
     (case read_request 8192 [] s of
        (Hang, s) \<Rightarrow> (Hang, s)
      | (Error e, s) \<Rightarrow> (Error e, s)
      | (Done buf, s) \<Rightarrow>
          (case from_utf8 buf of
             None \<Rightarrow> (Error RequestNotUtf8, s)
           | Some header \<Rightarrow>
               (case parse_connect_request header of
                  Inl e \<Rightarrow> (Error e, s)
                | Inr target \<Rightarrow>
                    (case resolve_target lookup target of
                       Inl e \<Rightarrow> (Error e, s)
                     | Inr addr \<Rightarrow>
                         if \<not> reachable_addr addr then (Error Unreachable, s)
                         else
                           (case io_write_all (bytes_of established) s of
                              (Error e, s) \<Rightarrow> (Error (WriteFailed e), s)
                            | (Hang, s) \<Rightarrow> (Hang, s)
                            | (Done _, s) \<Rightarrow> (Done addr, s))))))"

section \<open>The destination\<close>

definition RESPONSE_BODY :: string where
  "RESPONSE_BODY = ''trans_proxy_e2e_ok'' @ ''\<newline>''"

definition dest_response :: string where
  "dest_response =
     ''HTTP/1.1 200 OK'' @ crlf @ ''Content-Length: '' @ dec (length RESPONSE_BODY) @ crlf @
     ''Connection: close'' @ crlf @ crlf @ RESPONSE_BODY"

definition serve_dest :: "stream \<Rightarrow> unit http_io" where
  "serve_dest s =
     (case read_request 4096 [] s of
        (Hang, s) \<Rightarrow> (Hang, s)
      | (Error e, s) \<Rightarrow> (Error e, s)
      | (Done _, s) \<Rightarrow>
          (case io_write_all (bytes_of dest_response) s of
             (Error e, s) \<Rightarrow> (Error (WriteFailed e), s)
           | (Hang, s) \<Rightarrow> (Hang, s)
           | (Done _, s) \<Rightarrow> (Done (), s)))"

section \<open>Marks\<close>

definition fwmark_from_env :: "string option \<Rightarrow> u32 option" where
  "fwmark_from_env var = Option.bind var (\<lambda>v. map_option of_nat (parse_uint (2 ^ 32) v))"

text \<open>On Linux.  Without a mark the library makes the socket.\<close>

definition connect_marked :: "dial_call kernel \<Rightarrow> socket_addr \<Rightarrow> u32 option \<Rightarrow> bool \<times> dial_call list" where
  "connect_marked k addr fwmark =
     (case fwmark of
        Some mark \<Rightarrow> checked k [NewSocket (is_ipv4 addr), SetMark mark, ConnectTo addr] []
      | None \<Rightarrow> checked k [NewSocket (is_ipv4 addr), ConnectTo addr] [])"

section \<open>Reading a request\<close>

text \<open>However it is cut, a request that ends with its header is read as a whole.\<close>

lemma read_request_whole:
  assumes "find_header_end (buf @ in_bytes s) = Some (length (buf @ in_bytes s))" "length (buf @ in_bytes s) \<le> cap"
    "in_bytes s \<noteq> []"
  shows "\<exists>s'. read_request cap buf s = (Done (buf @ in_bytes s), s') \<and> same_but_input s s' []"
  using assms
proof (induction cap buf s rule: read_request.induct)
  case (1 cap buf s)
  have nl: "\<not> cap \<le> length buf" using "1.prems"(2,3) by (cases "in_bytes s") auto
  obtain r s1 where rd: "io_read (cap - length buf) s = (r, s1)" by fastforce
  then obtain bs where r: "r = Done bs" using "1.prems"(3) io_read_some by blast
  have b: "in_bytes s = bs @ in_bytes s1" "bs \<noteq> []" "s_out s1 = s_out s" "s_wfail s1 = s_wfail s"
    using io_read_in_bytes [OF rd [unfolded r]] io_read_progress [OF rd [unfolded r]] io_read_same [OF rd] "1.prems"(3) nl
    by auto
  then have find: "find_header_end ((buf @ bs) @ in_bytes s1) = Some (length ((buf @ bs) @ in_bytes s1))"
    using "1.prems"(1) by simp
  have step: "read_request cap buf s = (if find_header_end (buf @ bs) \<noteq> None then (Done (buf @ bs), s1)
      else read_request cap (buf @ bs) s1)"
    using rd r b(2) nl by (subst read_request.simps) simp
  show ?case
  proof (cases "in_bytes s1 = []")
    case True
    then show ?thesis using step find b by (simp add: same_but_input_def)
  next
    case False
    then have "find_header_end (buf @ bs) = None" using find_header_end_first [OF find] by simp
    with "1.IH" [OF nl rd [symmetric, unfolded r] refl b(2), of] find b "1.prems"(2) False step
    show ?thesis by (auto simp: same_but_input_def)
  qed
qed

lemma find_header_skip: "13 \<notin> set xs \<Longrightarrow> find_header_end_from p (xs @ ys) = find_header_end_from (p + length xs) ys"
  by (induction xs arbitrary: p) (auto simp: header_terminator_def)

text \<open>A request line and a header field without a carriage return in them.\<close>

lemma find_header_two_lines:
  assumes "13 \<notin> set xs" "13 \<notin> set ys" "ys \<noteq> []"
  shows "find_header_end (xs @ [13, 10] @ ys @ [13, 10, 13, 10]) = Some (length (xs @ [13, 10] @ ys @ [13, 10, 13, 10]))"
proof -
  obtain y ys' where "ys = y # ys'" "y \<noteq> 13" using assms(2,3) by (cases ys) auto
  then show ?thesis
    using assms(1,2) find_header_skip [of ys _ "[13, 10, 13, 10]"]
    by (simp add: find_header_end_def find_header_skip header_terminator_def)
qed

section \<open>The request of the client\<close>

definition target_text :: "socket_addr \<Rightarrow> string option \<Rightarrow> string" where
  "target_text dest hostname = proxy_request_host dest hostname @ '':'' @ dec (unat (sock_port dest))"

lemma target_chars: "list_all host_char (target_text dest hostname)"
  by (simp add: target_text_def proxy_host_chars dec_host host_char_def)

lemma request_lines:
  "http_connect_request dest hostname =
     (''CONNECT '' @ target_text dest hostname @ '' HTTP/1.1'') @ crlf @ (''Host: '' @ target_text dest hostname) @ crlf @ crlf"
  by (simp add: http_connect_request_def target_text_def Let_def)

lemma bytes_of_cr: "13 \<in> set (bytes_of t) \<Longrightarrow> \<exists>c \<in> set t. code c = 13"
proof -
  assume "13 \<in> set (bytes_of t)"
  then obtain c where c: "c \<in> set t" "(of_nat (of_char c) :: u8) = 13" by (auto simp: bytes_of_def)
  then have "unat (of_nat (of_char c) :: u8) = 13" by simp
  then have "code c = 13" by (simp add: code_def unat_of_nat_u8)
  with c(1) show ?thesis by blast
qed

lemma host_no_cr: "list_all host_char t \<Longrightarrow> 13 \<notin> set (bytes_of t)"
  using bytes_of_cr host_char_code by (fastforce simp: list_all_iff)

lemma hex_length: "n < 16 ^ Suc k \<Longrightarrow> length (hex n) \<le> Suc k"
proof (induction k arbitrary: n)
  case 0
  then show ?case by (simp add: hex.simps [of n])
next
  case (Suc k)
  then have "n div 16 < 16 ^ Suc k" by (simp add: div_less_iff_less_mult mult.commute)
  from Suc.IH [OF this] show ?case by (subst hex.simps) simp
qed

lemma join_length: "(\<And>x. x \<in> set xs \<Longrightarrow> length x \<le> k) \<Longrightarrow> length (join sep xs) \<le> length xs * (k + length sep)"
proof (induction sep xs rule: join.induct)
  case (3 sep x y xs)
  then have "length (join sep (y # xs)) \<le> length (y # xs) * (k + length sep)" "length x \<le> k" by auto
  then show ?case by simp
qed auto

lemma hex_segments_length: "length (hex_segments ss) \<le> length ss * 5"
proof -
  have "length (hex (unat s)) \<le> 4" for s :: u16
    using hex_length [of "unat s" 3] unat_u16_less [of s] by simp
  then show ?thesis using join_length [of "map (\<lambda>s. hex (unat s)) ss" 4 "'':''"] by (auto simp: hex_segments_def)
qed

lemma ipv4_display_length: "length (ipv4_display a) \<le> 15"
proof -
  obtain o1 o2 o3 o4 where a: "a = Ipv4 o1 o2 o3 o4" by (cases a)
  show ?thesis
    using octet_length [of o1] octet_length [of o2] octet_length [of o3] octet_length [of o4] by (simp add: a)
qed

lemma ipv6_display_length: "length (ipv6_display a) \<le> 82"
proof (cases "to_ipv4_mapped a")
  case None
  have "length (segments6 a) = 8" by (cases a) simp
  then have "length (take n (segments6 a)) \<le> 8" "length (drop n (segments6 a)) \<le> 8" for n by simp_all
  then have "length (hex_segments (take n (segments6 a))) \<le> 40" "length (hex_segments (drop n (segments6 a))) \<le> 40"
    "length (hex_segments (segments6 a)) \<le> 40" for n
    using hex_segments_length [of "take n (segments6 a)"] hex_segments_length [of "drop n (segments6 a)"]
      hex_segments_length [of "segments6 a"] \<open>length (segments6 a) = 8\<close> by (meson le_trans mult_le_mono1 | simp)+
  from add_mono [OF this(1,2)] this(3) show ?thesis
    using None by (auto simp: ipv6_display_def Let_def split: prod.split intro: le_trans)
next
  case (Some v4)
  then show ?thesis using ipv4_display_length [of v4] by (simp add: ipv6_display_def)
qed

lemma target_length: "length (target_text dest hostname) \<le> 300"
proof -
  have "length (dec (unat (sock_port dest))) \<le> 5"
  proof -
    have "unat (sock_port dest) < 10 ^ Suc 4" by (rule less_trans [OF unat_u16_less]) simp
    from dec_length [OF this] show ?thesis by simp
  qed
  moreover have "length (proxy_request_host dest hostname) \<le> 253"
  proof (cases "usable_proxy_hostname hostname")
    case (Some h)
    then have "is_safe_proxy_hostname h" by (auto simp: usable_proxy_hostname_def split: option.splits if_splits)
    then show ?thesis using Some safe_hostname_chars(3) by (simp add: proxy_request_host_def)
  next
    case None
    then show ?thesis
    proof (cases "sock_ip dest")
      case (IpV4 ip)
      then show ?thesis using None ipv4_display_length [of ip] by (simp add: proxy_request_host_def del: ipv4_display.simps)
    next
      case (IpV6 ip)
      then show ?thesis using None ipv6_display_length [of ip] by (simp add: proxy_request_host_def)
    qed
  qed
  ultimately show ?thesis by (simp add: target_text_def)
qed

lemma request_bytes:
  "bytes_of (http_connect_request dest hostname) =
     bytes_of (''CONNECT '' @ target_text dest hostname @ '' HTTP/1.1'') @ [13, 10] @
     bytes_of (''Host: '' @ target_text dest hostname) @ [13, 10, 13, 10]"
proof -
  have "bytes_of crlf = [13, 10]" by (simp add: crlf_def bytes_of_def)
  then show ?thesis unfolding request_lines bytes_of_append by (simp only: append_assoc append_Cons append_Nil)
qed

lemma request_no_cr:
  "13 \<notin> set (bytes_of (''CONNECT '' @ target_text dest hostname @ '' HTTP/1.1''))"
  "13 \<notin> set (bytes_of (''Host: '' @ target_text dest hostname))"
proof -
  have "13 \<notin> set (bytes_of ''CONNECT '')" "13 \<notin> set (bytes_of '' HTTP/1.1'')" "13 \<notin> set (bytes_of ''Host: '')"
    by code_simp+
  then show "13 \<notin> set (bytes_of (''CONNECT '' @ target_text dest hostname @ '' HTTP/1.1''))"
    "13 \<notin> set (bytes_of (''Host: '' @ target_text dest hostname))"
    unfolding bytes_of_append set_append using host_no_cr [OF target_chars] by blast+
qed

lemma request_reads:
  assumes "in_bytes s = bytes_of (http_connect_request dest hostname)"
  shows "\<exists>s'. read_request 8192 [] s = (Done (bytes_of (http_connect_request dest hostname)), s') \<and> same_but_input s s' []"
proof -
  have "find_header_end (in_bytes s) = Some (length (in_bytes s))"
    unfolding assms request_bytes by (intro find_header_two_lines request_no_cr) (simp add: bytes_of_def)
  moreover have "length (in_bytes s) \<le> 8192" "in_bytes s \<noteq> []"
    using target_length [of dest hostname] unfolding assms request_bytes by simp_all
  ultimately show ?thesis using read_request_whole [of "[]" s 8192] by (simp add: assms)
qed

lemma host_char_no_space: "host_char c \<Longrightarrow> \<not> is_space c"
  by (auto simp: host_char_def label_char_def is_space_def code_def)

lemma first_line_crlf:
  assumes "CHR ''\<newline>'' \<notin> set l"
  shows "first_line ((l @ [char_of (13 :: nat)]) @ CHR ''\<newline>'' # zs) = Some l"
proof -
  have "CHR ''\<newline>'' \<noteq> char_of (13 :: nat)" by code_simp
  then have "takeWhile (\<lambda>c. c \<noteq> CHR ''\<newline>'') ((l @ [char_of (13 :: nat)]) @ CHR ''\<newline>'' # zs) = l @ [char_of (13 :: nat)]"
    using assms by (subst takeWhile_append2) auto
  then show ?thesis unfolding first_line_def Let_def by (simp only: butlast_snoc last_snoc) simp
qed

lemma request_parses: "parse_connect_request (http_connect_request dest hostname) = Inr (target_text dest hostname)"
proof -
  let ?t = "target_text dest hostname"
  let ?line = "''CONNECT '' @ ?t @ '' HTTP/1.1''"
  have "\<not> host_char CHR ''\<newline>''" by (simp add: host_char_def label_char_def code_def)
  then have "CHR ''\<newline>'' \<notin> set ?t" using target_chars [of dest hostname] unfolding list_all_iff by blast
  then have no_nl: "CHR ''\<newline>'' \<notin> set ?line" by simp
  have "http_connect_request dest hostname = (?line @ [char_of (13 :: nat)]) @ CHR ''\<newline>'' # (''Host: '' @ ?t) @ crlf @ crlf"
    unfolding request_lines by (simp add: crlf_def) code_simp
  then have "first_line (http_connect_request dest hostname) = Some ?line"
    by (simp only: first_line_crlf [OF no_nl])
  moreover have "split_whitespace ?line = [''CONNECT'', ?t, ''HTTP/1.1'']"
  proof -
    have "\<forall>c \<in> set ?t. \<not> is_space c" "?t \<noteq> []"
      using target_chars [of dest hostname] host_char_no_space by (auto simp: list_all_iff target_text_def)
    then show ?thesis
      using split_ws_word [of ?t "CHR '' ''" "[]" "''HTTP/1.1''"] by (simp add: split_whitespace_def is_space_def code_def)
  qed
  ultimately show ?thesis by (simp add: parse_connect_request_def)
qed

lemma request_utf8: "from_utf8 (bytes_of (http_connect_request dest hostname)) = Some (http_connect_request dest hostname)"
proof -
  have "(of_nat (of_char c) :: u8) < 0x80" if "host_char c \<or> c \<in> set (''CONNECT  HTTP/1.1'' @ crlf @ ''Host: '')" for c
  proof -
    have "list_all (\<lambda>c. code c < 128) (''CONNECT  HTTP/1.1'' @ crlf @ ''Host: '')" by code_simp
    then have "code c < 128"
      using that by (auto simp: list_all_iff host_char_def label_char_def code_def)
    then show ?thesis by (simp add: word_less_nat_alt unat_of_nat_u8 code_def)
  qed
  moreover have "list_all (\<lambda>c. host_char c \<or> c \<in> set (''CONNECT  HTTP/1.1'' @ crlf @ ''Host: '')) (http_connect_request dest hostname)"
    using target_chars [of dest hostname] unfolding request_lines by (auto simp: list_all_iff)
  ultimately have "from_utf8 (bytes_of (http_connect_request dest hostname)) =
      Some (str_of (bytes_of (http_connect_request dest hostname)))"
    by (intro from_utf8_ascii) (auto simp: bytes_of_def list_all_iff)
  then show ?thesis by simp
qed

lemma handle_http_connect_done:
  assumes "in_bytes s = bytes_of (http_connect_request dest hostname)" "s_wfail s = None"
    "resolve_target lookup (target_text dest hostname) = Inr a" "reachable_addr a"
  shows "\<exists>s'. handle_http_connect lookup reachable_addr s = (Done a, s') \<and> in_bytes s' = [] \<and>
    s_out s' = s_out s @ bytes_of established"
proof -
  obtain s' where s': "read_request 8192 [] s = (Done (bytes_of (http_connect_request dest hostname)), s')"
      "same_but_input s s' []"
    using request_reads [OF assms(1)] by blast
  then have "s_wfail s' = None" "s_out s' = s_out s" "in_bytes s' = []" using assms(2) by (simp_all add: same_but_input_def)
  then show ?thesis
    by (simp add: handle_http_connect_def s'(1) request_utf8 request_parses assms(3,4))
qed

lemma established_ok: "parse_connect_response established = Inr ()"
proof -
  have "first_line established = Some ''HTTP/1.1 200 Connection established''"
    by (simp add: established_def first_line_def crlf_def Let_def char_of_def bit_Suc_0_iff bit_numeral_rec)
  moreover have "parse_u16 ''200'' = Some 200"
    by (simp add: parse_u16_def parse_uint_def is_digit_def code_def)
  moreover have "splitn 3 CHR '' '' ''HTTP/1.1 200 Connection established'' = [''HTTP/1.1'', ''200'', ''Connection established'']"
    by (simp add: numeral_eq_Suc)
  ultimately show ?thesis by (simp add: parse_connect_response_def)
qed

lemma established_accepted: "accepts_connect (bytes_of established @ down) 39"
proof -
  have "find_header_end (bytes_of established) = Some 39" by code_simp
  then have "find_header_end (bytes_of established @ down) = Some 39"
    unfolding find_header_end_def by (rule find_header_end_append)
  moreover have "take 39 (bytes_of established @ down) = bytes_of established" by (simp add: established_def crlf_def)
  moreover have "from_utf8 (bytes_of established) = Some established" by code_simp
  moreover have "parse_connect_response established = Inr ()" by (rule established_ok)
  ultimately show ?thesis by (simp add: accepts_connect_def MAX_RESPONSE_SIZE_def)
qed

lemma serve_dest_done:
  assumes "find_header_end (in_bytes s) = Some (length (in_bytes s))" "length (in_bytes s) \<le> 4096" "s_wfail s = None"
  shows "\<exists>s'. serve_dest s = (Done (), s') \<and> s_out s' = s_out s @ bytes_of dest_response"
proof -
  have "in_bytes s \<noteq> []" using assms(1) by auto
  then obtain s' where s': "read_request 4096 [] s = (Done (in_bytes s), s')" "same_but_input s s' []"
    using read_request_whole [of "[]" s 4096] assms(1,2) by auto
  then show ?thesis using assms(3) by (simp add: serve_dest_def same_but_input_def)
qed

lemma connect_marked_marks:
  assumes "connect_marked k a fwmark = (ok, calls)"
  shows "set (marks_at_connect 0 calls) \<subseteq> {case fwmark of Some mark \<Rightarrow> mark | None \<Rightarrow> 0}"
proof -
  have "connect_marked k a fwmark = connect_proxy_stream k \<lparr>up_protocol = HttpConnect, up_addr = a\<rparr> fwmark"
    by (cases fwmark) (simp_all add: connect_marked_def connect_proxy_stream_def)
  then show ?thesis using dial_marks(1) assms by metis
qed

section \<open>Properties\<close>



end
