(* ===== verification/Udp_Echo.thy ===== *)
theory Udp_Echo
  imports Udp_Relay Socks_Server Machine
begin

text \<open>
  The path of a datagram through the whole test set-up of the end-to-end tests: the UDP relay of the
  program, the SOCKS5 server and the echo server of \<^verbatim>\<open>src/test_servers/src/udp_echo.rs\<close>.  The composition is a
  machine whose events are those of the relay, restricted to datagrams that the server has really sent, and
  those of the server, which answers any datagram sent to it at any time, in any order, or never.
\<close>

section \<open>The servers\<close>

text \<open>\<open>UdpEchoServer::run\<close>: what is received into the buffer goes back to its sender.\<close>

definition echo_datagram :: "socket_addr \<times> bytes \<Rightarrow> socket_addr \<times> bytes" where
  "echo_datagram m = (case m of (src, data) \<Rightarrow> let n = min (length data) 65535 in (src, take n data))"

text \<open>
  The datagrams of \<open>relay_one\<close> to the addresses at which an echo server runs; \<open>onward\<close> is its socket.
\<close>

definition echo_network :: "(socket_addr \<Rightarrow> bool) \<Rightarrow> socket_addr \<Rightarrow> socket_addr \<Rightarrow> bytes \<Rightarrow> bytes option" where
  "echo_network echoes onward dst payload =
     (if echoes dst then
        (case echo_datagram (onward, payload) of (src, data) \<Rightarrow> if src = onward then Some data else None)
      else None)"

section \<open>The composition\<close>

text \<open>\<open>en_answers\<close> has the datagrams that the server has sent to the socket of a session.\<close>

record echo_net =
  en_relay :: udp_relay
  en_answers :: "(nat \<times> bytes) list"

datatype net_event = RelayEvent udp_event | ServerAnswers nat bytes socket_addr

definition on_wire :: "echo_net \<Rightarrow> udp_event \<Rightarrow> bool" where
  "on_wire s e \<longleftrightarrow> (case e of FromRelay i (Inr pkt) _ \<Rightarrow> (i, pkt) \<in> set (en_answers s) | _ \<Rightarrow> True)"

fun net_step :: "(socket_addr \<Rightarrow> bool) \<Rightarrow> net_event \<Rightarrow> echo_net \<Rightarrow> echo_net option" where
  "net_step echoes (RelayEvent e) s =
     (if on_wire s e then map_option (\<lambda>r. s\<lparr>en_relay := r\<rparr>) (udp_relay_step e (en_relay s)) else None)"
| "net_step echoes (ServerAnswers i pkt onward) s =
     (if (i, pkt) \<in> set (ur_upstream (en_relay s)) then
        (case relay_datagram (echo_network echoes onward) pkt of
           None \<Rightarrow> None
         | Some None \<Rightarrow> Some s
         | Some (Some out) \<Rightarrow> Some (s\<lparr>en_answers := en_answers s @ [(i, out)]\<rparr>))
      else None)"

definition net_init :: echo_net where
  "net_init = \<lparr>en_relay = udp_relay_init, en_answers = []\<rparr>"

section \<open>One datagram\<close>

lemma echo_network_answer:
  "echo_network echoes onward dst payload = (if echoes dst then Some (take 65535 payload) else None)"
  by (simp add: echo_network_def echo_datagram_def Let_def min_def)

lemma relay_client_datagram:
  "relay_datagram network (encode_socks5_udp dest hostname payload) =
     Some (if usable_proxy_hostname hostname = None
           then map_option (\<lambda>a. encode_udp_header (sock_new (sock_ip dest) (sock_port dest)) @ a)
                  (network (sock_new (sock_ip dest) (sock_port dest)) payload)
           else None)"
proof (cases "usable_proxy_hostname hostname")
  case None
  then obtain off where "parse_udp_header (encode_socks5_udp dest hostname payload) =
      Some (Some (sock_new (sock_ip dest) (sock_port dest), off))"
    "slice (encode_socks5_udp dest hostname payload) off (length (encode_socks5_udp dest hostname payload)) = Some payload"
    using parse_client_datagram by blast
  with None show ?thesis by (simp add: relay_datagram_def split: option.splits)
next
  case (Some h)
  then show ?thesis by (simp add: relay_datagram_def parse_named_datagram)
qed

section \<open>The invariant\<close>

definition answered :: "(socket_addr \<Rightarrow> bool) \<Rightarrow> (nat \<times> bytes) list \<Rightarrow> nat \<times> bytes \<Rightarrow> bool" where
  "answered echoes upstream a \<longleftrightarrow>
     (\<exists>pkt onward. (fst a, pkt) \<in> set upstream \<and> relay_datagram (echo_network echoes onward) pkt = Some (Some (snd a)))"

definition net_inv :: "(socket_addr \<Rightarrow> bool) \<Rightarrow> echo_net \<Rightarrow> bool" where
  "net_inv echoes s \<longleftrightarrow>
     udp_inv (en_relay s) \<and>
     (\<forall>a \<in> set (en_answers s). answered echoes (ur_upstream (en_relay s)) a) \<and>
     set (ur_from_relay (en_relay s)) \<subseteq> set (en_answers s)"

lemma answered_grow: "answered echoes upstream a \<Longrightarrow> set upstream \<subseteq> set upstream' \<Longrightarrow> answered echoes upstream' a"
  unfolding answered_def by blast

text \<open>What a step of the relay adds to what it has sent and received.\<close>

lemma upstream_grows: "udp_relay_step e s = Some s' \<Longrightarrow> set (ur_upstream s) \<subseteq> set (ur_upstream s')"
  by (cases e) (auto simp: dispatch_def finish_def deliver_reply_def Let_def
      split: if_splits option.splits sum.splits nat.splits session_phase.splits list.splits)

lemma from_relay_grows:
  "udp_relay_step e s = Some s' \<Longrightarrow>
   ur_from_relay s' = ur_from_relay s @ (case e of FromRelay i (Inr pkt) _ \<Rightarrow> [(i, pkt)] | _ \<Rightarrow> [])"
  by (cases e) (auto simp: dispatch_def finish_def deliver_reply_def Let_def
      split: if_splits option.splits sum.splits nat.splits session_phase.splits list.splits)

lemma net_inv_step:
  assumes "net_inv echoes s" "net_step echoes e s = Some s'"
  shows "net_inv echoes s'"
proof (cases e)
  case (RelayEvent ev)
  with assms(2) obtain r where r: "on_wire s ev" "udp_relay_step ev (en_relay s) = Some r" "s' = s\<lparr>en_relay := r\<rparr>"
    by (auto split: if_splits)
  have "udp_inv r" using assms(1) r(2) udp_relay_inv_step unfolding net_inv_def by blast
  moreover have "set (ur_from_relay r) \<subseteq> set (en_answers s)"
    using assms(1) r(1) unfolding from_relay_grows [OF r(2)] net_inv_def on_wire_def
    by (auto split: udp_event.splits sum.splits)
  ultimately show ?thesis
    using assms(1) r(3) answered_grow [OF _ upstream_grows [OF r(2)]] unfolding net_inv_def by simp
next
  case (ServerAnswers i pkt onward)
  with assms(2) obtain out where *: "(i, pkt) \<in> set (ur_upstream (en_relay s))"
    "s' = s \<or> relay_datagram (echo_network echoes onward) pkt = Some (Some out) \<and> s' = s\<lparr>en_answers := en_answers s @ [(i, out)]\<rparr>"
    by (auto split: if_splits option.splits)
  then have "s' = s \<or> s' = s\<lparr>en_answers := en_answers s @ [(i, out)]\<rparr> \<and> answered echoes (ur_upstream (en_relay s)) (i, out)"
    unfolding answered_def by (metis fst_conv snd_conv)
  with assms(1) show ?thesis by (auto simp: net_inv_def)
qed

interpretation echo_net: machine_invariant "net_step echoes" net_init "net_inv echoes" for echoes
proof
  show "net_inv echoes net_init"
    using udp_relay_inv_init by (simp add: net_inv_def net_init_def) (simp add: udp_relay_init_def)
qed (rule net_inv_step)

text \<open>Every reply goes back to where it came from, with what was sent there.\<close>

lemma reply_is_echo:
  assumes "net_inv echoes s" "(src, dst, payload) \<in> set (ur_replies (en_relay s))"
  shows "\<exists>p. ((dst, src), p) \<in> set (ur_received (en_relay s)) \<and> payload = take 65535 p \<and>
    echoes (sock_new (sock_ip src) (sock_port src))"
proof -
  let ?r = "en_relay s"
  have inv: "udp_inv ?r" using assms(1) by (simp add: net_inv_def)
  obtain i out off where i: "i < length (ur_sessions ?r)" "se_key (ur_sessions ?r ! i) = (dst, src)"
      "(i, out) \<in> set (ur_from_relay ?r)" "socks5_udp_payload_offset out = Some (Some off)" "payload = drop off out"
    using udp_inv_reply [OF inv assms(2)] by (auto simp: reply_ok_def)
  then obtain pkt onward where pkt: "(i, pkt) \<in> set (ur_upstream ?r)"
      "relay_datagram (echo_network echoes onward) pkt = Some (Some out)"
    using assms(1) by (fastforce simp: net_inv_def answered_def)
  have ok: "session_ok (ur_received ?r) (ur_upstream ?r) i (ur_sessions ?r ! i)" by (rule udp_inv_session [OF inv i(1)])
  then obtain hostname where "sent_by (ur_upstream ?r) i = map (encode_socks5_udp src hostname) (se_forwarded (ur_sessions ?r ! i))"
    using i(2) by (auto simp: session_ok_def)
  moreover have "pkt \<in> set (sent_by (ur_upstream ?r) i)" using pkt(1) by (force simp: sent_by_def)
  ultimately obtain p where p: "p \<in> set (se_forwarded (ur_sessions ?r ! i))" "pkt = encode_socks5_udp src hostname p"
    by auto
  have "p \<in> set (se_accepted (ur_sessions ?r ! i))" using ok p(1) by (simp add: session_ok_def)
  then have "p \<in> set (flow_payloads (ur_received ?r) (dst, src))"
    using ok i(2) by (auto simp: session_ok_def dest: list_emb_set)
  then have rcv: "((dst, src), p) \<in> set (ur_received ?r)" by (auto simp: flow_payloads_def)
  have out: "out = encode_udp_header (sock_new (sock_ip src) (sock_port src)) @ take 65535 p"
    "echoes (sock_new (sock_ip src) (sock_port src))"
    using pkt(2) unfolding p(2) relay_client_datagram echo_network_answer by (auto split: if_splits)
  with i(4,5) client_reads_reply [of "sock_new (sock_ip src) (sock_port src)" "take 65535 p"]
  have "payload = take 65535 p" by auto
  with rcv out(2) show ?thesis by blast
qed

lemma server_never_panics:
  assumes "net_inv echoes s" "(i, pkt) \<in> set (ur_upstream (en_relay s))"
  shows "net_step echoes (ServerAnswers i pkt onward) s \<noteq> None"
proof -
  have inv: "udp_inv (en_relay s)" using assms(1) by (simp add: net_inv_def)
  have mem: "pkt \<in> set (sent_by (ur_upstream (en_relay s)) i)" using assms(2) by (force simp: sent_by_def)
  then have "i < length (ur_sessions (en_relay s))" using udp_inv_fresh [OF inv, of i] by (cases "i < length (ur_sessions (en_relay s))") auto
  from udp_inv_session [OF inv this] mem obtain dest hostname p where "pkt = encode_socks5_udp dest hostname p"
    by (auto simp: session_ok_def)
  then show ?thesis using assms(2) by (auto simp: relay_client_datagram split: option.splits)
qed

section \<open>Properties\<close>

text \<open>The path of one datagram; \<open>relay_end\<close> and \<open>onward\<close> are the sockets of the server.\<close>

definition echo_path :: "socket_addr \<Rightarrow> socket_addr \<Rightarrow> bytes \<Rightarrow> nat \<Rightarrow> dns_table \<Rightarrow> socket_addr \<Rightarrow> net_event list" where
  "echo_path client dst payload now table onward =
     (let hostname = table_lookup now table (sock_ip dst) in
      [RelayEvent (Datagram client dst payload), RelayEvent (Associated 0 now table), RelayEvent (TakePayload 0 True),
       ServerAnswers 0 (encode_socks5_udp dst hostname payload) onward])"

definition echo_return :: "socket_addr \<Rightarrow> bytes \<Rightarrow> net_event" where
  "echo_return dst payload =
     RelayEvent (FromRelay 0 (Inr (encode_udp_header (sock_new (sock_ip dst) (sock_port dst)) @ payload)) True)"

lemma echo_path_runs:
  "\<exists>s. run_events (net_step echoes) (echo_path client dst payload now table onward) net_init = Some s \<and>
     channel_quiet (en_relay s) 0 \<and> se_key (ur_sessions (en_relay s) ! 0) = (client, dst) \<and>
     ur_replies (en_relay s) = [] \<and>
     en_answers s =
       (if usable_proxy_hostname (table_lookup now table (sock_ip dst)) = None \<and> echoes (sock_new (sock_ip dst) (sock_port dst))
        then [(0, encode_udp_header (sock_new (sock_ip dst) (sock_port dst)) @ take 65535 payload)] else [])"
  by (simp add: echo_path_def net_init_def udp_relay_init_def dispatch_def new_session_def set_session_def Let_def
      on_wire_def relay_client_datagram echo_network_answer channel_quiet_def)

lemma echo_return_runs:
  assumes "channel_quiet (en_relay s) 0" "se_key (ur_sessions (en_relay s) ! 0) = (client, dst)" "ur_replies (en_relay s) = []"
    "en_answers s = [(0, encode_udp_header (sock_new (sock_ip dst) (sock_port dst)) @ payload)]"
  shows "\<exists>t. net_step echoes (echo_return dst payload) s = Some t \<and> ur_replies (en_relay t) = [(dst, client, payload)]"
proof -
  obtain off where "socks5_udp_payload_offset (encode_udp_header (sock_new (sock_ip dst) (sock_port dst)) @ payload) = Some (Some off)"
    "drop off (encode_udp_header (sock_new (sock_ip dst) (sock_port dst)) @ payload) = payload"
    using client_reads_reply by blast
  then show ?thesis using assms by (simp add: echo_return_def on_wire_def deliver_reply_def)
qed



end
