(* ===== verification/Pf_Semantics.thy ===== *)
theory Pf_Semantics
  imports Pf
begin

text \<open>
  What the rules of the pf anchor mean: the words of a rule, which packets it matches, translation by the first
  matching \<open>rdr\<close> rule and filtering by the last matching rule or the first \<open>quick\<close> one.  This is the documented
  behaviour of pf for the rules that \<^verbatim>\<open>src/src/firewall/pf.rs\<close> writes, and the specification side of the macOS
  firewall.  Where a \<open>route-to\<close> rule sends a packet is left out: such a rule passes.
\<close>

section \<open>Words\<close>

definition pf_punct :: "char \<Rightarrow> bool" where
  "pf_punct c \<longleftrightarrow> c \<in> {CHR ''{'', CHR ''}'', CHR '','', CHR ''('', CHR '')''}"

definition pf_word :: "string \<Rightarrow> string list" where
  "pf_word w = (if w = [] then [] else [w])"

text \<open>The rules of a text, one on a line; \<open>r\<close> holds the words of the line so far, \<open>w\<close> the word that has begun.\<close>

fun pf_read :: "string list \<Rightarrow> string \<Rightarrow> string \<Rightarrow> string list list" where
  "pf_read r w [] = [r @ pf_word w]"
| "pf_read r w (c # s) =
     (if c = CHR ''\<newline>'' then (r @ pf_word w) # pf_read [] [] s
      else if is_space c then pf_read (r @ pf_word w) [] s
      else if pf_punct c then pf_read (r @ pf_word w @ [[c]]) [] s
      else pf_read r (w @ [c]) s)"

abbreviation pf_rules :: "string \<Rightarrow> string list list" where
  "pf_rules \<equiv> pf_read [] []"

section \<open>Matching\<close>

text \<open>A packet on an interface, which it enters or leaves; it is TCP or UDP.\<close>

record pf_packet =
  pp_iface :: string
  pp_in :: bool
  pp_udp :: bool
  pp_v6 :: bool
  pp_daddr :: string
  pp_dport :: u16

definition pf_ports :: "string list \<Rightarrow> string list \<times> string list" where
  "pf_ports ts = (takeWhile (\<lambda>t. t \<noteq> ''}'') ts, tl (dropWhile (\<lambda>t. t \<noteq> ''}'') ts))"

function pf_matches :: "pf_packet \<Rightarrow> string list \<Rightarrow> bool" where
  "pf_matches pk [] = True"
| "pf_matches pk (k # ts) =
     (if k = ''->'' then True
      else if k = ''inet'' then \<not> pp_v6 pk \<and> pf_matches pk ts
      else if k = ''inet6'' then pp_v6 pk \<and> pf_matches pk ts
      else (case ts of [] \<Rightarrow> False | x # ts \<Rightarrow>
        if k = ''on'' then x = pp_iface pk \<and> pf_matches pk ts
        else if k = ''proto'' then x = (if pp_udp pk then ''udp'' else ''tcp'') \<and> pf_matches pk ts
        else if k = ''from'' then x = ''any'' \<and> pf_matches pk ts
        else if k = ''to'' then (x = ''any'' \<or> x = pp_daddr pk) \<and> pf_matches pk ts
        else if k = ''port'' then
          (if x = ''{'' then dec (unat (pp_dport pk)) \<in> set (fst (pf_ports ts)) \<and> pf_matches pk (snd (pf_ports ts))
           else x = dec (unat (pp_dport pk)) \<and> pf_matches pk ts)
        else if k = ''route-to'' then pf_matches pk (tl (dropWhile (\<lambda>t. t \<noteq> '')'') ts))
        else False))"
  by pat_completeness auto

termination
  by (relation "measure (\<lambda>(_, ts). length ts)")
    (auto simp: pf_ports_def less_Suc_eq_le intro: order.trans [OF diff_le_self] le_SucI length_dropWhile_le)

section \<open>Translation and filtering\<close>

text \<open>The address and the port behind the arrow, at the end of a rule.\<close>

definition pf_target :: "string list \<Rightarrow> (string \<times> string) option" where
  "pf_target ts =
     (case rev ts of port # _ # ip # arrow # _ \<Rightarrow> (if arrow = ''->'' then Some (ip, port) else None) | _ \<Rightarrow> None)"

text \<open>What an incoming packet is redirected to.\<close>

fun pf_rdr :: "pf_packet \<Rightarrow> string list list \<Rightarrow> (string \<times> string) option" where
  "pf_rdr pk [] = None"
| "pf_rdr pk (r # rs) =
     (if take 2 r = [''no'', ''rdr''] then (if pf_matches pk (drop 2 r) then None else pf_rdr pk rs)
      else if take 1 r = [''rdr''] \<and> pf_matches pk (drop 1 r) then pf_target r
      else pf_rdr pk rs)"

text \<open>Whether the filter drops a packet; \<open>drop\<close> is the verdict so far.\<close>

definition pf_quick :: "string list \<Rightarrow> bool \<times> string list" where
  "pf_quick r = (if take 1 r = [''quick''] then (True, drop 1 r) else (False, r))"

fun pf_drops :: "bool \<Rightarrow> pf_packet \<Rightarrow> string list list \<Rightarrow> bool" where
  "pf_drops d pk [] = d"
| "pf_drops d pk (r # rs) =
     (if take 2 r = [''block'', ''drop''] then
        (case pf_quick (drop 2 r) of (quick, ts) \<Rightarrow>
           if pf_matches pk ts then (if quick then True else pf_drops True pk rs) else pf_drops d pk rs)
      else if take 2 r = [''pass'', ''out''] then
        (case pf_quick (drop 2 r) of (quick, ts) \<Rightarrow>
           if \<not> pp_in pk \<and> pf_matches pk ts then (if quick then False else pf_drops False pk rs) else pf_drops d pk rs)
      else pf_drops d pk rs)"

section \<open>What the anchor is meant to do\<close>

definition ports_allow :: "u16 list option \<Rightarrow> u16 \<Rightarrow> bool" where
  "ports_allow ports port = (case ports of Some ps \<Rightarrow> port \<in> set ps | None \<Rightarrow> True)"

definition pf_dns_target :: "firewall_config \<Rightarrow> interface_addrs \<Rightarrow> bool \<Rightarrow> (string \<times> string) option" where
  "pf_dns_target fc addrs v6 =
     (if v6 then map_option (\<lambda>(ip, port). (ipv6_display ip, dec (unat port))) (dns_target_v6 fc (ia_ipv6 addrs))
      else map_option (\<lambda>(ip, port). (ipv4_display ip, dec (unat port))) (dns_target_v4 fc (ia_ipv4 addrs)))"

definition pf_gateway_addr :: "interface_addrs \<Rightarrow> bool \<Rightarrow> string option" where
  "pf_gateway_addr addrs v6 =
     (if v6 then map_option ipv6_display (ia_ipv6 addrs) else map_option ipv4_display (ia_ipv4 addrs))"

definition to_upstream :: "socket_addr \<Rightarrow> pf_packet \<Rightarrow> bool" where
  "to_upstream upstream pk \<longleftrightarrow>
     pp_v6 pk = (case sock_ip upstream of IpV4 _ \<Rightarrow> False | IpV6 _ \<Rightarrow> True) \<and>
     pp_daddr pk = ip_display (sock_ip upstream) \<and> pp_dport pk = sock_port upstream"

definition pf_proxy :: "firewall_config \<Rightarrow> bool \<Rightarrow> string \<times> string" where
  "pf_proxy fc v6 = (if v6 then ''::1'' else ''127.0.0.1'', dec (unat (fc_proxy_port fc)))"

definition pf_rdr_decision :: "firewall_config \<Rightarrow> interface_addrs \<Rightarrow> pf_packet \<Rightarrow> (string \<times> string) option" where
  "pf_rdr_decision fc addrs pk =
     (if pp_iface pk = fc_interface fc then
        (if pp_dport pk = 53 \<and> pf_dns_target fc addrs (pp_v6 pk) \<noteq> None then pf_dns_target fc addrs (pp_v6 pk)
         else if pp_udp pk \<or> \<not> ports_allow (fc_ports fc) (pp_dport pk) \<or> pf_gateway_addr addrs (pp_v6 pk) = Some (pp_daddr pk)
         then None else Some (pf_proxy fc (pp_v6 pk)))
      else if pp_iface pk = ''lo0'' then
        (case fc_upstream_addr fc of
           None \<Rightarrow> None
         | Some upstream \<Rightarrow>
             if pp_udp pk \<or> to_upstream upstream pk \<or> pp_dport pk = fc_proxy_port fc \<or>
                \<not> ports_allow (fc_ports fc) (pp_dport pk) then None
             else Some (pf_proxy fc (pp_v6 pk)))
      else None)"

definition pf_drop_decision :: "firewall_config \<Rightarrow> pf_packet \<Rightarrow> bool" where
  "pf_drop_decision fc pk \<longleftrightarrow>
     pp_udp pk \<and> pp_iface pk = fc_interface fc \<and> pp_dport pk \<in> set (quic_block_ports fc)"

section \<open>The words of the rules\<close>

text \<open>A text without a separator is a part of one word.\<close>

definition pf_plain :: "string \<Rightarrow> bool" where
  "pf_plain w \<longleftrightarrow> list_all (\<lambda>c. \<not> is_space c \<and> \<not> pf_punct c) w"

lemma pf_read_plain: "pf_plain x \<Longrightarrow> pf_read r w (x @ s) = pf_read r (w @ x) s"
  by (induction x arbitrary: w) (auto simp: pf_plain_def is_space_def code_def)

lemma addr_char_plain: "addr_char c \<Longrightarrow> \<not> is_space c \<and> \<not> pf_punct c"
  by (auto simp: addr_char_def is_digit_def is_space_def pf_punct_def code_def)

lemma pf_plain_addr: "list_all addr_char w \<Longrightarrow> pf_plain w"
  by (auto simp: pf_plain_def list_all_iff dest: addr_char_plain)

lemma pf_plain_simps [simp]:
  "pf_plain (dec n)" "pf_plain (ip_display a)" "pf_plain (ipv4_display a4)" "pf_plain (ipv6_display a6)"
  using pf_plain_addr dec_addr_chars ip_display_chars ipv4_display_chars ipv6_display_chars by blast+

lemma ipv4_nonempty [simp]: "ipv4_display a \<noteq> []"
  by (cases a) simp

lemma ipv6_nonempty [simp]: "ipv6_display a \<noteq> []"
  by (cases a) (simp add: ipv6_display_def hex_segments_def Let_def split: option.split prod.split)

lemma ip_nonempty [simp]: "ip_display a \<noteq> []"
  by (cases a) simp_all

fun comma_sep :: "string list \<Rightarrow> string list" where
  "comma_sep [] = []"
| "comma_sep [x] = [x]"
| "comma_sep (x # y # xs) = x # '','' # comma_sep (y # xs)"

lemma comma_sep_mem: "x \<noteq> '','' \<Longrightarrow> x \<in> set (comma_sep xs) \<longleftrightarrow> x \<in> set xs"
  by (induction xs rule: comma_sep.induct) auto

text \<open>One equation for each kind of character.\<close>

definition pf_char :: "char \<Rightarrow> bool" where
  "pf_char c \<longleftrightarrow> \<not> is_space c \<and> \<not> pf_punct c"

lemma pf_chars:
  "pf_char CHR ''-''" "pf_char CHR ''.''" "pf_char CHR ''0''" "pf_char CHR ''1''" "pf_char CHR ''2''"
  "pf_char CHR ''3''" "pf_char CHR ''4''" "pf_char CHR ''5''" "pf_char CHR ''6''" "pf_char CHR ''7''"
  "pf_char CHR '':''" "pf_char CHR ''>''" "pf_char CHR ''a''" "pf_char CHR ''b''" "pf_char CHR ''c''"
  "pf_char CHR ''d''" "pf_char CHR ''e''" "pf_char CHR ''f''" "pf_char CHR ''i''" "pf_char CHR ''k''"
  "pf_char CHR ''l''" "pf_char CHR ''m''" "pf_char CHR ''n''" "pf_char CHR ''o''" "pf_char CHR ''p''"
  "pf_char CHR ''q''" "pf_char CHR ''r''" "pf_char CHR ''s''" "pf_char CHR ''t''" "pf_char CHR ''u''"
  "pf_char CHR ''y''"
  by (simp_all add: pf_char_def is_space_def pf_punct_def code_def)

lemma pf_read_char: "pf_char c \<Longrightarrow> pf_read r w (c # s) = pf_read r (w @ [c]) s"
  by (auto simp: pf_char_def is_space_def code_def)

lemma pf_read_sep:
  "pf_read r w (CHR ''\<newline>'' # s) = (r @ pf_word w) # pf_read [] [] s"
  "pf_read r w (CHR '' '' # s) = pf_read (r @ pf_word w) [] s"
  "pf_read r w (CHR '','' # s) = pf_read (r @ pf_word w @ [[CHR '','']]) [] s"
  "pf_read r w (CHR ''{'' # s) = pf_read (r @ pf_word w @ [[CHR ''{'']]) [] s"
  "pf_read r w (CHR ''}'' # s) = pf_read (r @ pf_word w @ [[CHR ''}'']]) [] s"
  "pf_read r w (CHR ''('' # s) = pf_read (r @ pf_word w @ [[CHR ''('']]) [] s"
  "pf_read r w (CHR '')'' # s) = pf_read (r @ pf_word w @ [[CHR '')'']]) [] s"
  by (simp_all add: is_space_def pf_punct_def code_def)

declare pf_read.simps(2) [simp del]

lemma pf_word_simps: "pf_word [] = []" "pf_word (c # w) = [c # w]" "w \<noteq> [] \<Longrightarrow> pf_word w = [w]"
  by (simp_all add: pf_word_def)

lemmas pf_lex = pf_read_plain pf_word_simps pf_chars pf_read_char pf_read_sep

lemma pf_read_port_list:
  "pf_read r [] (port_list ps @ CHR ''}'' # s) = pf_read (r @ comma_sep (map (\<lambda>p. dec (unat p)) ps) @ [''}'']) [] s"
  unfolding port_list_def
proof (induction ps arbitrary: r rule: induct_list012)
  case (3 x y zs)
  then show ?case by (simp add: pf_lex)
qed (simp_all add: pf_lex)

definition iface_name :: "string \<Rightarrow> bool" where
  "iface_name i \<longleftrightarrow> i \<noteq> [] \<and> pf_plain i"

definition filter_words :: "u16 list option \<Rightarrow> string list" where
  "filter_words ports =
     (case ports of Some ps \<Rightarrow> [''port'', ''{''] @ comma_sep (map (\<lambda>p. dec (unat p)) ps) @ [''}''] | None \<Rightarrow> [])"

text \<open>After a word, the port filter ends it and adds its own words.\<close>

lemma pf_read_filter:
  assumes "w \<noteq> []" "c = CHR '' '' \<or> c = CHR ''\<newline>''"
  shows "pf_read r w (pf_port_filter ports @ c # s) = pf_read (r @ [w] @ filter_words ports) [] (c # s)"
  using assms by (cases ports) (auto simp: pf_port_filter_def filter_words_def pf_read_port_list pf_lex)

text \<open>The lines of the anchor, in order.\<close>

definition dns_lines :: "string \<Rightarrow> string \<Rightarrow> (string \<times> string) option \<Rightarrow> string list list" where
  "dns_lines iface af target =
     (case target of
        Some (ip, port) \<Rightarrow>
          map (\<lambda>proto. [''rdr'', ''on'', iface, af, ''proto'', proto, ''from'', ''any'', ''to'', ''any'', ''port'', ''53'',
            ''->'', ip, ''port'', port]) [''udp'', ''tcp'']
      | None \<Rightarrow> [])"

lemma read_dns_rdr:
  assumes "iface_name iface" "pf_plain ip" "ip \<noteq> []" "pf_plain af" "af \<noteq> []"
  shows "pf_rules (dns_rdr_rules iface af ip port @ s) = dns_lines iface af (Some (ip, dec (unat port))) @ pf_rules s"
  using assms by (simp add: dns_rdr_rules_def dns_lines_def pf_lex iface_name_def)

definition no_rdr_line :: "string \<Rightarrow> string \<Rightarrow> string \<Rightarrow> string list \<Rightarrow> string list" where
  "no_rdr_line iface af dst ports =
     [''no'', ''rdr'', ''on'', iface, af, ''proto'', ''tcp'', ''from'', ''any'', ''to'', dst] @ ports"

definition rdr_line :: "string \<Rightarrow> string \<Rightarrow> string list \<Rightarrow> string \<Rightarrow> string \<Rightarrow> string list" where
  "rdr_line iface af ports addr port =
     [''rdr'', ''on'', iface, af, ''proto'', ''tcp'', ''from'', ''any'', ''to'', ''any''] @ ports @ [''->'', addr, ''port'', port]"

definition local_lines :: "firewall_config \<Rightarrow> interface_addrs \<Rightarrow> string list list" where
  "local_lines fc addrs =
     (case pf_gateway_addr addrs False of
        Some a \<Rightarrow> [no_rdr_line (fc_interface fc) ''inet'' a (filter_words (fc_ports fc))] | None \<Rightarrow> []) @
     (case pf_gateway_addr addrs True of
        Some a \<Rightarrow> [no_rdr_line (fc_interface fc) ''inet6'' a (filter_words (fc_ports fc))] | None \<Rightarrow> [])"

lemma read_local_no_rdr:
  assumes "iface_name (fc_interface fc)"
  shows "pf_rules (local_no_rdr fc addrs @ s) = local_lines fc addrs @ pf_rules s"
proof -
  have v4: "pf_rules (''no rdr on '' @ fc_interface fc @ '' inet proto tcp from any to '' @ ipv4_display a @
      pf_port_filter (fc_ports fc) @ nl @ s) =
      [no_rdr_line (fc_interface fc) ''inet'' (ipv4_display a) (filter_words (fc_ports fc))] @ pf_rules s" for a s
    using assms by (simp add: iface_name_def no_rdr_line_def pf_lex pf_read_filter)
  have v6: "pf_rules (''no rdr on '' @ fc_interface fc @ '' inet6 proto tcp from any to '' @ ipv6_display a @
      pf_port_filter (fc_ports fc) @ nl @ s) =
      [no_rdr_line (fc_interface fc) ''inet6'' (ipv6_display a) (filter_words (fc_ports fc))] @ pf_rules s" for a s
    using assms by (simp add: iface_name_def no_rdr_line_def pf_lex pf_read_filter)
  show ?thesis
    by (cases "ia_ipv4 addrs"; cases "ia_ipv6 addrs")
      (simp_all only: local_no_rdr_def local_lines_def pf_gateway_addr_def option.case option.map if_True if_False v4 v6
        append_assoc append_Nil)
qed

definition upstream_lines :: "socket_addr \<Rightarrow> string \<Rightarrow> string list list" where
  "upstream_lines upstream port =
     [no_rdr_line ''lo0'' (case sock_ip upstream of IpV4 _ \<Rightarrow> ''inet'' | IpV6 _ \<Rightarrow> ''inet6'')
        (ip_display (sock_ip upstream)) [''port'', dec (unat (sock_port upstream))],
      no_rdr_line ''lo0'' ''inet'' ''any'' [''port'', port],
      no_rdr_line ''lo0'' ''inet6'' ''any'' [''port'', port]]"

lemma read_upstream_no_rdr:
  assumes "pf_plain port" "port \<noteq> []"
  shows "pf_rules (upstream_no_rdr upstream port @ s) = upstream_lines upstream port @ pf_rules s"
  using assms
  by (cases "sock_ip upstream")
    (simp_all add: upstream_no_rdr_def upstream_lines_def no_rdr_line_def pf_lex Let_def del: ip_display.simps)

definition quic_lines :: "firewall_config \<Rightarrow> string list list" where
  "quic_lines fc =
     (if quic_block_ports fc = [] then []
      else [[''block'', ''drop'', ''quick'', ''on'', fc_interface fc, ''proto'', ''udp'', ''from'', ''any'', ''to'', ''any''] @
        filter_words (Some (quic_block_ports fc))])"

lemma read_quic_block:
  assumes "iface_name (fc_interface fc)"
  shows "pf_rules (pf_quic_block fc @ s) = quic_lines fc @ pf_rules s"
  using assms
  by (simp add: pf_quic_block_def quic_lines_def filter_words_def iface_name_def pf_lex pf_read_port_list Let_def)

lemma read_rdr:
  assumes "iface_name iface" "pf_plain port" "port \<noteq> []"
  shows "pf_rules (''rdr on '' @ iface @ '' inet proto tcp from any to any'' @ pf_port_filter ports @
      '' -> 127.0.0.1 port '' @ port @ nl @ s) = rdr_line iface ''inet'' (filter_words ports) ''127.0.0.1'' port # pf_rules s"
    "pf_rules (''rdr on '' @ iface @ '' inet6 proto tcp from any to any'' @ pf_port_filter ports @
      '' -> ::1 port '' @ port @ nl @ s) = rdr_line iface ''inet6'' (filter_words ports) ''::1'' port # pf_rules s"
  using assms by (simp_all add: iface_name_def rdr_line_def pf_lex pf_read_filter)

definition dns_both :: "firewall_config \<Rightarrow> interface_addrs \<Rightarrow> string list list" where
  "dns_both fc addrs =
     dns_lines (fc_interface fc) ''inet'' (pf_dns_target fc addrs False) @
     dns_lines (fc_interface fc) ''inet6'' (pf_dns_target fc addrs True)"

lemma read_pf_dns_rdr:
  assumes "iface_name (fc_interface fc)"
  shows "pf_rules (pf_dns_rdr fc addrs @ s) = dns_both fc addrs @ pf_rules s"
proof -
  note dns = read_dns_rdr [OF assms]
  have "pf_plain ''inet''" "pf_plain ''inet6''" by (simp_all add: pf_plain_def is_space_def pf_punct_def code_def)
  then show ?thesis
    by (cases "dns_target_v4 fc (ia_ipv4 addrs)"; cases "dns_target_v6 fc (ia_ipv6 addrs)")
      (auto simp: pf_dns_rdr_def dns_both_def pf_dns_target_def dns dns_lines_def dns_target_v4_def dns_target_v6_def)
qed

text \<open>The filter rules for local traffic.\<close>

definition pass_lines :: "firewall_config \<Rightarrow> socket_addr \<Rightarrow> string list list" where
  "pass_lines fc upstream =
     [[''pass'', ''out'', ''quick'', ''on'', fc_interface fc, ''proto'', ''tcp'', ''from'', ''any'', ''to'',
       ip_display (sock_ip upstream), ''port'', dec (unat (sock_port upstream))],
      [''pass'', ''out'', ''on'', fc_interface fc, ''inet'', ''route-to'', ''('', ''lo0'', ''127.0.0.1'', '')'',
       ''proto'', ''tcp'', ''from'', ''any'', ''to'', ''any''] @ filter_words (fc_ports fc),
      [''pass'', ''out'', ''on'', fc_interface fc, ''inet6'', ''route-to'', ''('', ''lo0'', ''::1'', '')'',
       ''proto'', ''tcp'', ''from'', ''any'', ''to'', ''any''] @ filter_words (fc_ports fc)]"

lemma pf_read_filter_end: "w \<noteq> [] \<Longrightarrow> pf_read r w (pf_port_filter ports) = [r @ [w] @ filter_words ports]"
  using pf_read_port_list [of "r @ [w, ''port'', ''{'']" _ "[]"]
  by (cases ports) (auto simp: pf_port_filter_def filter_words_def pf_lex)

lemma read_pass:
  assumes "iface_name (fc_interface fc)"
  shows "pf_rules (''pass out quick on '' @ fc_interface fc @ '' proto tcp from any to '' @ ip_display (sock_ip upstream) @
      '' port '' @ dec (unat (sock_port upstream)) @ nl @
      ''pass out on '' @ fc_interface fc @ '' inet route-to (lo0 127.0.0.1) proto tcp from any to any'' @
      pf_port_filter (fc_ports fc) @ nl @
      ''pass out on '' @ fc_interface fc @ '' inet6 route-to (lo0 ::1) proto tcp from any to any'' @
      pf_port_filter (fc_ports fc)) = pass_lines fc upstream"
  using assms by (simp add: iface_name_def pass_lines_def pf_lex pf_read_filter pf_read_filter_end)

lemma rdr_order:
  "iface_name iface \<Longrightarrow> pf_rules (''rdr on '' @ iface @ '' inet proto tcp from any to any'' @ pf_port_filter ports @
      '' -> 127.0.0.1 port '' @ dec (unat (p :: u16)) @ nl @ s) =
      [rdr_line iface ''inet'' (filter_words ports) ''127.0.0.1'' (dec (unat p))] @ pf_rules s"
  "iface_name iface \<Longrightarrow> pf_rules (''rdr on '' @ iface @ '' inet6 proto tcp from any to any'' @ pf_port_filter ports @
      '' -> ::1 port '' @ dec (unat (p :: u16)) @ nl @ s) =
      [rdr_line iface ''inet6'' (filter_words ports) ''::1'' (dec (unat p))] @ pf_rules s"
  using read_rdr [of iface "dec (unat p)"] by simp_all

lemma rdr_lo0:
  "pf_rules (''rdr on lo0 inet proto tcp from any to any'' @ pf_port_filter ports @
      '' -> 127.0.0.1 port '' @ dec (unat (p :: u16)) @ nl @ s) =
      [rdr_line ''lo0'' ''inet'' (filter_words ports) ''127.0.0.1'' (dec (unat p))] @ pf_rules s"
  "pf_rules (''rdr on lo0 inet6 proto tcp from any to any'' @ pf_port_filter ports @
      '' -> ::1 port '' @ dec (unat (p :: u16)) @ nl @ s) =
      [rdr_line ''lo0'' ''inet6'' (filter_words ports) ''::1'' (dec (unat p))] @ pf_rules s"
  by (simp_all add: rdr_line_def pf_lex pf_read_filter)

text \<open>What pf reads: the words of every rule, in order.\<close>

lemma read_build_rules:
  assumes "iface_name (fc_interface fc)"
  shows "pf_rules (build_rules fc addrs) =
    (case fc_upstream_addr fc of
       Some upstream \<Rightarrow>
         upstream_lines upstream (dec (unat (fc_proxy_port fc))) @ dns_both fc addrs @ local_lines fc addrs @
         [rdr_line (fc_interface fc) ''inet'' (filter_words (fc_ports fc)) ''127.0.0.1'' (dec (unat (fc_proxy_port fc)))] @
         [rdr_line ''lo0'' ''inet'' (filter_words (fc_ports fc)) ''127.0.0.1'' (dec (unat (fc_proxy_port fc)))] @
         [rdr_line (fc_interface fc) ''inet6'' (filter_words (fc_ports fc)) ''::1'' (dec (unat (fc_proxy_port fc)))] @
         [rdr_line ''lo0'' ''inet6'' (filter_words (fc_ports fc)) ''::1'' (dec (unat (fc_proxy_port fc)))] @
         quic_lines fc @ pass_lines fc upstream
     | None \<Rightarrow>
         dns_both fc addrs @ local_lines fc addrs @
         [rdr_line (fc_interface fc) ''inet'' (filter_words (fc_ports fc)) ''127.0.0.1'' (dec (unat (fc_proxy_port fc)))] @
         [rdr_line (fc_interface fc) ''inet6'' (filter_words (fc_ports fc)) ''::1'' (dec (unat (fc_proxy_port fc)))] @
         quic_lines fc @ [[]])"
proof (cases "fc_upstream_addr fc")
  case None
  have "pf_rules (pf_quic_block fc) = quic_lines fc @ [[]]"
    using read_quic_block [OF assms, of "[]"] by (simp add: pf_word_def)
  then show ?thesis
    unfolding build_rules_def Let_def None option.case
    by (simp only: read_pf_dns_rdr [OF assms] read_local_no_rdr [OF assms] rdr_order [OF assms])
next
  case (Some upstream)
  show ?thesis
    unfolding build_rules_def Let_def Some option.case
    by (simp only: read_upstream_no_rdr [OF pf_plain_simps(1) dec_nonempty] read_pf_dns_rdr [OF assms]
        read_local_no_rdr [OF assms] rdr_order [OF assms] rdr_lo0 read_quic_block [OF assms] read_pass [OF assms])
qed

section \<open>The rules on a packet\<close>

lemma dec_no_punct: "dec n \<noteq> '',''" "dec n \<noteq> ''}''" "dec n \<noteq> ''{''"
  using dec_digits [of n] by (auto simp: is_digit_def code_def)

lemma comma_sep_brace: "t \<in> set (comma_sep (map (\<lambda>p. dec (unat (p :: u16))) ps)) \<Longrightarrow> t \<noteq> ''}''"
  using comma_sep_mem [of "''}''" "map (\<lambda>p. dec (unat p)) ps"] dec_no_punct(2) [symmetric] by auto

lemma dec_mem: "dec (unat (p :: u16)) \<in> (\<lambda>p. dec (unat p)) ` set ps \<longleftrightarrow> p \<in> set ps"
  using dec_port_eq by auto

lemma pf_matches_filter:
  "pf_matches pk (filter_words ports @ ts) \<longleftrightarrow> ports_allow ports (pp_dport pk) \<and> pf_matches pk ts"
proof (cases ports)
  case (Some ps)
  let ?ws = "comma_sep (map (\<lambda>p. dec (unat p)) ps)"
  have "takeWhile (\<lambda>t. t \<noteq> ''}'') (?ws @ ''}'' # ts) = ?ws" "dropWhile (\<lambda>t. t \<noteq> ''}'') (?ws @ ''}'' # ts) = ''}'' # ts"
    using comma_sep_brace by (auto simp: takeWhile_append dropWhile_append)
  moreover have "dec (unat (pp_dport pk)) \<in> set ?ws \<longleftrightarrow> pp_dport pk \<in> set ps"
    using comma_sep_mem [OF dec_no_punct(1), of _ "map (\<lambda>p. dec (unat p)) ps"] dec_mem by simp
  ultimately show ?thesis using Some by (simp add: filter_words_def pf_ports_def ports_allow_def)
qed (simp add: filter_words_def ports_allow_def)

lemma pf_matches_filter_end [simp]: "pf_matches pk (filter_words ports) \<longleftrightarrow> ports_allow ports (pp_dport pk)"
  using pf_matches_filter [of pk ports "[]"] by simp

lemma addr_chars_not_any: "list_all addr_char w \<Longrightarrow> w \<noteq> ''any''"
  by (auto simp: addr_char_def is_digit_def code_def)

lemma display_not_any [simp]: "ip_display a \<noteq> ''any''" "ipv4_display a4 \<noteq> ''any''" "ipv6_display a6 \<noteq> ''any''"
  using addr_chars_not_any ip_display_chars ipv4_display_chars ipv6_display_chars by blast+

lemma pf_rdr_no_rdr [simp]:
  "pf_rdr pk (no_rdr_line iface ''inet'' dst ports # rs) =
     (if pp_iface pk = iface \<and> \<not> pp_v6 pk \<and> \<not> pp_udp pk \<and> (dst = ''any'' \<or> dst = pp_daddr pk) \<and> pf_matches pk ports
      then None else pf_rdr pk rs)"
  "pf_rdr pk (no_rdr_line iface ''inet6'' dst ports # rs) =
     (if pp_iface pk = iface \<and> pp_v6 pk \<and> \<not> pp_udp pk \<and> (dst = ''any'' \<or> dst = pp_daddr pk) \<and> pf_matches pk ports
      then None else pf_rdr pk rs)"
  by (cases "pp_udp pk"; cases "iface = pp_iface pk"; cases "pp_v6 pk"; simp add: no_rdr_line_def)+

lemma pf_rdr_rdr [simp]:
  "pf_rdr pk (rdr_line iface ''inet'' (filter_words ports) addr port # rs) =
     (if pp_iface pk = iface \<and> \<not> pp_v6 pk \<and> \<not> pp_udp pk \<and> ports_allow ports (pp_dport pk)
      then Some (addr, port) else pf_rdr pk rs)"
  "pf_rdr pk (rdr_line iface ''inet6'' (filter_words ports) addr port # rs) =
     (if pp_iface pk = iface \<and> pp_v6 pk \<and> \<not> pp_udp pk \<and> ports_allow ports (pp_dport pk)
      then Some (addr, port) else pf_rdr pk rs)"
  by (cases "pp_udp pk"; cases "iface = pp_iface pk"; cases "pp_v6 pk";
      simp add: rdr_line_def pf_target_def pf_matches_filter)+

lemma dec_53_eq: "''53'' = dec (unat (p :: u16)) \<longleftrightarrow> p = 53"
  using dec_port_eq [of 53 p] by auto

lemma rdr_dns_lines:
  "pf_rdr pk (dns_lines iface ''inet'' target @ rs) =
     (if pp_iface pk = iface \<and> \<not> pp_v6 pk \<and> pp_dport pk = 53 \<and> target \<noteq> None then target else pf_rdr pk rs)"
  "pf_rdr pk (dns_lines iface ''inet6'' target @ rs) =
     (if pp_iface pk = iface \<and> pp_v6 pk \<and> pp_dport pk = 53 \<and> target \<noteq> None then target else pf_rdr pk rs)"
  by (cases target; cases "pp_udp pk"; cases "iface = pp_iface pk"; cases "pp_v6 pk";
      force simp: dns_lines_def pf_target_def dec_53_eq)+

lemma pf_matches_port [simp]: "pf_matches pk [''port'', dec (unat (p :: u16))] \<longleftrightarrow> pp_dport pk = p"
  using dec_port_eq [of p "pp_dport pk"] by (auto simp: dec_no_punct)

declare pf_rdr.simps(2) [simp del] pf_matches.simps(2) [simp del] pf_drops.simps(2) [simp del]

lemma pf_rdr_filter_rule: "hd r \<notin> {''no'', ''rdr''} \<Longrightarrow> r \<noteq> [] \<Longrightarrow> pf_rdr pk (r # rs) = pf_rdr pk rs"
  by (cases r) (auto simp: pf_rdr.simps(2))

lemma rdr_local_lines:
  "pf_rdr pk (local_lines fc addrs @ rs) =
     (if pp_iface pk = fc_interface fc \<and> \<not> pp_udp pk \<and> pf_gateway_addr addrs (pp_v6 pk) = Some (pp_daddr pk) \<and>
         ports_allow (fc_ports fc) (pp_dport pk) then None else pf_rdr pk rs)"
  by (cases "ia_ipv4 addrs"; cases "ia_ipv6 addrs"; cases "pp_v6 pk") (simp_all add: local_lines_def pf_gateway_addr_def)

lemma rdr_upstream_lines:
  "pf_rdr pk (upstream_lines upstream (dec (unat port)) @ rs) =
     (if pp_iface pk = ''lo0'' \<and> \<not> pp_udp pk \<and> (to_upstream upstream pk \<or> pp_dport pk = port) then None
      else pf_rdr pk rs)"
  by (cases "sock_ip upstream"; cases "pp_v6 pk"; cases "pp_dport pk = port")
    (auto simp: upstream_lines_def to_upstream_def)

lemma rdr_filter_rules: "pf_rdr pk (quic_lines fc @ pass_lines fc upstream) = None" "pf_rdr pk (quic_lines fc @ [[]]) = None"
  by (simp_all add: quic_lines_def pass_lines_def pf_rdr_filter_rule) (simp_all add: pf_rdr.simps(2))

lemma rdr_build_rules:
  assumes "iface_name (fc_interface fc)" "fc_interface fc \<noteq> ''lo0''"
  shows "pf_rdr pk (pf_rules (build_rules fc addrs)) = pf_rdr_decision fc addrs pk"
proof (cases "fc_upstream_addr fc")
  case None
  show ?thesis
    unfolding read_build_rules [OF assms(1)] None option.case
    using assms(2)
    by (cases "pp_v6 pk"; cases "pf_dns_target fc addrs (pp_v6 pk)")
      (auto simp: dns_both_def rdr_dns_lines rdr_local_lines rdr_filter_rules pf_rdr_decision_def None pf_proxy_def)
next
  case (Some upstream)
  show ?thesis
    unfolding read_build_rules [OF assms(1)] Some option.case
    using assms(2)
    by (cases "pp_v6 pk"; cases "pf_dns_target fc addrs (pp_v6 pk)"; cases "pp_iface pk = ''lo0''")
      (auto simp: dns_both_def rdr_upstream_lines rdr_dns_lines rdr_local_lines rdr_filter_rules pf_rdr_decision_def
        Some pf_proxy_def)
qed

text \<open>Translation rules do not filter.\<close>

definition translates :: "string list \<Rightarrow> bool" where
  "translates r \<longleftrightarrow> take 1 r \<in> {[''rdr''], [''no'']}"

lemma pf_drops_translation: "list_all translates rs \<Longrightarrow> pf_drops d pk (rs @ rs') = pf_drops d pk rs'"
proof (induction rs)
  case (Cons r rs)
  then show ?case by (cases r) (auto simp: translates_def pf_drops.simps(2))
qed simp

lemma translation_rules:
  "list_all translates (upstream_lines upstream port)" "list_all translates (dns_lines iface af target)"
  "list_all translates (local_lines fc addrs)" "list_all translates [rdr_line iface af ports addr port]"
  by (auto simp: translates_def upstream_lines_def dns_lines_def local_lines_def no_rdr_line_def rdr_line_def
      split: option.split)

lemma pf_pass_only: "list_all (\<lambda>r. take 1 r = [''pass'']) rs \<Longrightarrow> \<not> pf_drops False pk rs"
proof (induction rs)
  case (Cons r rs)
  then show ?case by (cases r) (auto simp: pf_drops.simps(2) split: prod.split)
qed simp

lemma drops_pass_lines: "\<not> pf_drops False pk (pass_lines fc upstream)"
  by (rule pf_pass_only) (simp add: pass_lines_def)

lemma drops_quic_lines: "pf_drops False pk (quic_lines fc @ rs) = (pf_drop_decision fc pk \<or> pf_drops False pk rs)"
  by (cases "pp_udp pk")
    (auto simp: quic_lines_def pf_quick_def pf_drop_decision_def ports_allow_def pf_drops.simps(2) pf_matches.simps(2)
      pf_matches_filter)

lemma drops_filter_rules:
  "pf_drops False pk (quic_lines fc @ pass_lines fc upstream) = pf_drop_decision fc pk"
  "pf_drops False pk (quic_lines fc @ [[]]) = pf_drop_decision fc pk"
  by (simp_all add: drops_quic_lines drops_pass_lines pf_drops.simps(2))

lemma drops_build_rules:
  assumes "iface_name (fc_interface fc)"
  shows "pf_drops False pk (pf_rules (build_rules fc addrs)) = pf_drop_decision fc pk"
  by (cases "fc_upstream_addr fc")
    (simp_all only: read_build_rules [OF assms] option.case dns_both_def append_assoc
      pf_drops_translation translation_rules drops_filter_rules)

section \<open>Properties\<close>

lemma pf_setup_log:
  assumes "pf_setup w ifaddrs conf loaded fc s = (Inr u, t)"
  shows "(load_pf_rules (build_rules fc (get_interface_ips ifaddrs (fc_interface fc))), True) \<in> set t"
    "anchor_referenced loaded \<or> (\<exists>base. conf = Some base \<and>
       ((''pfctl'', [''-f'', ''/dev/stdin'', main_ruleset_with_anchor_references base]), True) \<in> set t)"
proof -
  let ?s1 = "((s @ [((''sysctl'', [''-w'', ''net.inet.ip.forwarding=1'']), True)]) @
      [((''sysctl'', [''-w'', ''net.inet6.ip6.forwarding=1'']), True)]) @
      [(load_pf_rules (build_rules fc (get_interface_ips ifaddrs (fc_interface fc))), True)]"
  have "\<exists>s2. (if anchor_referenced loaded then (Inr (), ?s1) else ensure_anchor_referenced w conf ?s1) = (Inr (), s2) \<and>
      t = run_all_ignore w [(''pfctl'', [''-E'']), (''pfctl'', [''-a'', ANCHOR, ''-s'', ''rules''])] s2"
    using assms unfolding pf_setup_def cmd_then_Inr run_cmd_Inr by fastforce
  then obtain s1 s2 where s1: "(load_pf_rules (build_rules fc (get_interface_ips ifaddrs (fc_interface fc))), True) \<in> set s1"
    and s2: "(if anchor_referenced loaded then (Inr (), s1) else ensure_anchor_referenced w conf s1) = (Inr (), s2)"
    and t: "t = run_all_ignore w [(''pfctl'', [''-E'']), (''pfctl'', [''-a'', ANCHOR, ''-s'', ''rules''])] s2"
    using that [of ?s1] by (elim exE conjE) simp
  have "set s2 \<subseteq> set t" using run_all_ignore_grows unfolding t by (metis set_append sup_ge1)
  moreover have "set s1 \<subseteq> set s2" "anchor_referenced loaded \<or> (\<exists>base. conf = Some base \<and>
       ((''pfctl'', [''-f'', ''/dev/stdin'', main_ruleset_with_anchor_references base]), True) \<in> set s2)"
    using s2 by (auto simp: ensure_anchor_referenced_def run_cmd_Inr split: if_splits option.splits)
  ultimately show "(load_pf_rules (build_rules fc (get_interface_ips ifaddrs (fc_interface fc))), True) \<in> set t"
    "anchor_referenced loaded \<or> (\<exists>base. conf = Some base \<and>
       ((''pfctl'', [''-f'', ''/dev/stdin'', main_ruleset_with_anchor_references base]), True) \<in> set t)"
    using s1 by blast+
qed


definition demo_pf :: firewall_config where
  "demo_pf = \<lparr>fc_interface = ''en0'', fc_proxy_port = 8443, fc_fwmark = None,
     fc_upstream_addr = Some (SockV4 (Ipv4 127 0 0 1) 1082), fc_ports = Some [80, 443], fc_dns_listen = None,
     fc_block_quic = True, fc_proxy_udp = False\<rparr>"

lemma demo_pf_ports: "dec 8443 = ''8443''" "dec 127 = ''127''" "dec 0 = ''0''" "dec (Suc 0) = ''1''"
  by (simp_all add: dec.simps digit_char_def) code_simp+


end
