(* ===== verification/Nft_Types.thy ===== *)
theory Nft_Types
  imports Nft_Props
begin

text \<open>
  A type system for the nftables commands, as \<open>nft\<close> documents its language: a chain has a type and a hook, a
  statement is allowed in some of them only, an address has the family of its table, and a port mapping
  needs a match of the transport protocol before it.  Every command that the firewall runs is well typed.
\<close>

section \<open>Types\<close>

datatype chain_kind = Nat_Chain | Filter_Chain

datatype hook = Prerouting | Forward | Output

text \<open>The type that a chain is declared with.\<close>

definition read_kind :: "string \<Rightarrow> chain_kind option" where
  "read_kind k = (if k = ''nat'' then Some Nat_Chain else if k = ''filter'' then Some Filter_Chain else None)"

definition read_hook :: "string \<Rightarrow> hook option" where
  "read_hook h =
     (if h = ''prerouting'' then Some Prerouting else if h = ''forward'' then Some Forward
      else if h = ''output'' then Some Output else None)"

definition read_spec :: "string \<Rightarrow> (chain_kind \<times> hook) option" where
  "read_spec spec =
     (case split_whitespace spec of
        [_, _, k, _, h, _, _, _, _] \<Rightarrow>
          (case (read_kind k, read_hook h) of (Some k, Some h) \<Rightarrow> Some (k, h) | _ \<Rightarrow> None)
      | _ \<Rightarrow> None)"

fun family_of :: "ip_addr \<Rightarrow> string" where
  "family_of (IpV4 _) = ''ip''"
| "family_of (IpV6 _) = ''ip6''"

text \<open>An address with a port, as \<open>dnat\<close> takes it.\<close>

definition endpoint :: "ip_addr \<Rightarrow> u16 \<Rightarrow> string" where
  "endpoint a port =
     (case a of
        IpV4 ip \<Rightarrow> ipv4_display ip @ '':'' @ dec (unat port)
      | IpV6 ip \<Rightarrow> ''['' @ ipv6_display ip @ '']:'' @ dec (unat port))"

text \<open>
  \<open>body_ok fam k h transport body\<close>: a rule body in a chain of kind \<open>k\<close> at hook \<open>h\<close>, when the transport
  protocol has been matched or not.
\<close>

inductive body_ok :: "string \<Rightarrow> chain_kind \<Rightarrow> hook \<Rightarrow> bool \<Rightarrow> string list \<Rightarrow> bool" for fam k h where
  iif: "h \<noteq> Output \<Longrightarrow> i \<noteq> [] \<Longrightarrow> body_ok fam k h tp ts \<Longrightarrow> body_ok fam k h tp (''iifname'' # i # ts)"
| oif: "h \<noteq> Prerouting \<Longrightarrow> i \<noteq> [] \<Longrightarrow> body_ok fam k h tp ts \<Longrightarrow> body_ok fam k h tp (''oifname'' # i # ts)"
| dport: "proto = ''udp'' \<or> proto = ''tcp'' \<Longrightarrow> body_ok fam k h True ts \<Longrightarrow>
    body_ok fam k h tp (proto # ''dport'' # dec (unat (p :: u16)) # ts)"
| l4proto: "body_ok fam k h True ts \<Longrightarrow> body_ok fam k h tp (''meta'' # ''l4proto'' # ''tcp'' # ts)"
| mark: "body_ok fam k h tp ts \<Longrightarrow> body_ok fam k h tp (''meta'' # ''mark'' # dec (unat (m :: u32)) # ts)"
| daddr: "family_of a = fam \<Longrightarrow> body_ok fam k h tp ts \<Longrightarrow> body_ok fam k h tp (fam # ''daddr'' # ip_display a # ts)"
| fib: "body_ok fam k h tp ts \<Longrightarrow> body_ok fam k h tp (''fib'' # ''daddr'' # ''type'' # ''local'' # ts)"
| return: "body_ok fam k h tp [''return'']"
| drop: "k = Filter_Chain \<Longrightarrow> body_ok fam k h tp [''drop'']"
| redirect: "k = Nat_Chain \<Longrightarrow> h \<noteq> Forward \<Longrightarrow> body_ok fam k h True [''redirect'', ''to'', '':'' @ dec (unat (p :: u16))]"
| dnat: "k = Nat_Chain \<Longrightarrow> h \<noteq> Forward \<Longrightarrow> family_of a = fam \<Longrightarrow>
    body_ok fam k h True [''dnat'', ''to'', endpoint a p]"
| tproxy: "k = Filter_Chain \<Longrightarrow> h = Prerouting \<Longrightarrow>
    body_ok fam k h True [''tproxy'', ''to'', '':'' @ dec (unat (p :: u16)), ''meta'', ''mark'', ''set'', TPROXY_MARK, ''accept'']"

inductive_cases body_ok_redirect: "body_ok fam k h tp (''redirect'' # ts)"
inductive_cases body_ok_tproxy: "body_ok fam k h tp (''tproxy'' # ts)"

text \<open>What the types rule out: a port mapping without a match of the protocol, or in a chain of the wrong type or hook.\<close>

lemma family_of_no_verb: "family_of a \<noteq> ''redirect''" "family_of a \<noteq> ''tproxy''"
  by (cases a; simp)+

lemma redirect_typed: "body_ok fam k h tp (''redirect'' # ts) \<Longrightarrow> tp \<and> k = Nat_Chain \<and> h \<noteq> Forward"
  by (erule body_ok_redirect) (use family_of_no_verb in auto)

lemma tproxy_typed: "body_ok fam k h tp (''tproxy'' # ts) \<Longrightarrow> tp \<and> k = Filter_Chain \<and> h = Prerouting"
  by (erule body_ok_tproxy) (use family_of_no_verb in auto)

section \<open>Commands\<close>

text \<open>What a log has declared: the tables, and the type of each chain.\<close>

record nft_env =
  ne_tables :: "string list"
  ne_chains :: "string \<times> string \<Rightarrow> (chain_kind \<times> hook) option"

definition no_env :: nft_env where
  "no_env = \<lparr>ne_tables = [], ne_chains = \<lambda>_. None\<rparr>"

definition nft_ok :: "nft_env \<Rightarrow> string list \<Rightarrow> bool" where
  "nft_ok env args =
     (case args of
        verb # what # fam # name # rest \<Rightarrow>
          name = ''trans_proxy'' \<and>
          (if what = ''table'' then (verb = ''add'' \<or> verb = ''delete'') \<and> rest = []
           else if what = ''chain'' then
             verb = ''add'' \<and> fam \<in> set (ne_tables env) \<and>
             (case rest of [chain, spec] \<Rightarrow> read_spec spec \<noteq> None | _ \<Rightarrow> False)
           else if what = ''rule'' then
             verb = ''add'' \<and>
             (case rest of
                chain # body \<Rightarrow> (case ne_chains env (fam, chain) of Some (k, h) \<Rightarrow> body_ok fam k h False body | None \<Rightarrow> False)
              | [] \<Rightarrow> False)
           else False)
      | _ \<Rightarrow> False)"

definition nft_declares :: "nft_env \<Rightarrow> string list \<Rightarrow> nft_env" where
  "nft_declares env args =
     (case args of
        verb # what # fam # name # rest \<Rightarrow>
          if what = ''table'' then
            (if verb = ''add'' then env\<lparr>ne_tables := fam # ne_tables env\<rparr>
             else \<lparr>ne_tables = removeAll fam (ne_tables env), ne_chains = (\<lambda>(f, c). if f = fam then None else ne_chains env (f, c))\<rparr>)
          else if what = ''chain'' then
            (case rest of [chain, spec] \<Rightarrow> env\<lparr>ne_chains := (ne_chains env)((fam, chain) := read_spec spec)\<rparr> | _ \<Rightarrow> env)
          else env
      | _ \<Rightarrow> env)"

definition env_step :: "nft_env \<Rightarrow> command \<times> bool \<Rightarrow> nft_env" where
  "env_step env e = (if snd e \<and> fst (fst e) = ''nft'' then nft_declares env (snd (fst e)) else env)"

definition env_of :: "shell \<Rightarrow> nft_env" where
  "env_of log = foldl env_step no_env log"

definition command_ok :: "nft_env \<Rightarrow> command \<Rightarrow> bool" where
  "command_ok env c \<longleftrightarrow> (fst c = ''nft'' \<longrightarrow> nft_ok env (snd c))"

text \<open>A log is well typed when every command is, run or failed, with what was declared before it.\<close>

fun typed_from :: "nft_env \<Rightarrow> shell \<Rightarrow> bool" where
  "typed_from env [] = True"
| "typed_from env (e # log) = (command_ok env (fst e) \<and> typed_from (env_step env e) log)"

definition well_typed :: "shell \<Rightarrow> bool" where
  "well_typed log = typed_from no_env log"

lemma typed_from_snoc: "typed_from env (log @ [e]) \<longleftrightarrow> typed_from env log \<and> command_ok (foldl env_step env log) (fst e)"
  by (induction log arbitrary: env) auto

lemma well_typed_snoc [simp]: "well_typed (log @ [e]) \<longleftrightarrow> well_typed log \<and> command_ok (env_of log) (fst e)"
  by (simp add: well_typed_def env_of_def typed_from_snoc)

lemma env_of_snoc [simp]: "env_of (log @ [e]) = env_step (env_of log) e"
  by (simp add: env_of_def)

section \<open>Sequences of commands\<close>

text \<open>A state of the setup in which both kinds of rules can follow.\<close>

definition has_table :: "nft_family \<Rightarrow> shell \<Rightarrow> bool" where
  "has_table fam log \<longleftrightarrow> nft_table fam \<in> set (ne_tables (env_of log))"

definition has_chain :: "nft_family \<Rightarrow> string \<Rightarrow> chain_kind \<times> hook \<Rightarrow> shell \<Rightarrow> bool" where
  "has_chain fam chain ty log \<longleftrightarrow> ne_chains (env_of log) (nft_table fam, chain) = Some ty"

lemma command_ok_simps [simp]:
  "command_ok env (add_table fam)" "command_ok env (delete_table fam)" "command_ok env (sysctl setting)"
  "command_ok env (''ip'', args)"
  "command_ok env (add_chain fam chain spec) \<longleftrightarrow> nft_table fam \<in> set (ne_tables env) \<and> read_spec spec \<noteq> None"
  "command_ok env (add_rule fam chain body) \<longleftrightarrow>
     (case ne_chains env (nft_table fam, chain) of Some (k, h) \<Rightarrow> body_ok (nft_table fam) k h False body | None \<Rightarrow> False)"
  by (simp_all add: command_ok_def nft_ok_def add_table_def delete_table_def sysctl_def add_chain_def add_rule_def)

lemma env_step_simps [simp]:
  "env_step env (c, False) = env"
  "env_step env (add_rule fam chain body, ok) = env" "env_step env (sysctl setting, ok) = env" "env_step env ((''ip'', args), ok) = env"
  "env_step env (add_table fam, True) = env\<lparr>ne_tables := nft_table fam # ne_tables env\<rparr>"
  "env_step env (add_chain fam chain spec, True) = env\<lparr>ne_chains := (ne_chains env)((nft_table fam, chain) := read_spec spec)\<rparr>"
  by (simp_all add: env_step_def nft_declares_def add_table_def sysctl_def add_chain_def add_rule_def)

lemma typed_rules:
  assumes "well_typed s" "has_chain fam chain (k, h) s" "list_all (body_ok (nft_table fam) k h False) bodies"
    "has_table fam' s"
  shows "well_typed (snd (run_all w (map (add_rule fam chain) bodies) s)) \<and>
    has_table fam' (snd (run_all w (map (add_rule fam chain) bodies) s))"
  using assms
proof (induction bodies arbitrary: s)
  case (Cons b bs)
  let ?s = "s @ [(add_rule fam chain b, w s (add_rule fam chain b))]"
  have "well_typed ?s" "has_chain fam chain (k, h) ?s" "has_table fam' ?s"
    using Cons.prems by (simp_all add: has_chain_def has_table_def)
  with Cons.IH [of ?s] Cons.prems show ?case
    by (cases "w s (add_rule fam chain b)") (auto simp: run_cmd_def cmd_then_def)
qed simp

text \<open>The property that the parts of the setup keep, once the table is there.\<close>

definition ready :: "nft_family \<Rightarrow> shell \<Rightarrow> bool" where
  "ready fam s \<longleftrightarrow> well_typed s \<and> has_table fam s"

lemma typed_chain:
  assumes "ready fam s" "read_spec spec = Some (k, h)" "list_all (body_ok (nft_table fam) k h False) bodies"
  shows "ready fam (snd (run_all w (add_chain fam chain spec # map (add_rule fam chain) bodies) s))"
proof (cases "w s (add_chain fam chain spec)")
  case True
  let ?s = "s @ [(add_chain fam chain spec, True)]"
  have "well_typed ?s" "has_chain fam chain (k, h) ?s" "has_table fam ?s"
    using assms(1,2) by (simp_all add: ready_def has_chain_def has_table_def)
  from typed_rules [OF this(1,2) assms(3) this(3)] show ?thesis
    using True by (simp add: run_cmd_def cmd_then_def ready_def)
next
  case False
  then show ?thesis
    using assms(1,2) by (simp add: run_cmd_def cmd_then_def ready_def has_table_def)
qed

lemma ready_then:
  assumes "ready fam (snd r)" "\<And>s. ready fam s \<Longrightarrow> ready fam (snd (f s))"
  shows "ready fam (snd (cmd_then r f))"
  using assms by (cases r; cases "fst r") (auto simp: cmd_then_def)

text \<open>The first chain comes with its table.\<close>

lemma typed_table_chain:
  assumes "well_typed s" "read_spec spec = Some (k, h)" "list_all (body_ok (nft_table fam) k h False) bodies"
  shows "well_typed (snd (run_all w ([add_table fam, add_chain fam chain spec] @ map (add_rule fam chain) bodies) s))"
    "fst (run_all w ([add_table fam, add_chain fam chain spec] @ map (add_rule fam chain) bodies) s) = Inr () \<Longrightarrow>
      ready fam (snd (run_all w ([add_table fam, add_chain fam chain spec] @ map (add_rule fam chain) bodies) s))"
proof -
  let ?cs = "add_chain fam chain spec # map (add_rule fam chain) bodies"
  let ?t = "s @ [(add_table fam, True)]"
  have "ready fam ?t" using assms(1) by (simp add: ready_def has_table_def)
  from typed_chain [OF this assms(2,3), of w chain] have chain: "ready fam (snd (run_all w ?cs ?t))" .
  then show "well_typed (snd (run_all w ([add_table fam, add_chain fam chain spec] @ map (add_rule fam chain) bodies) s))"
    "fst (run_all w ([add_table fam, add_chain fam chain spec] @ map (add_rule fam chain) bodies) s) = Inr () \<Longrightarrow>
      ready fam (snd (run_all w ([add_table fam, add_chain fam chain spec] @ map (add_rule fam chain) bodies) s))"
    using assms(1)
    by (cases "w s (add_table fam)"; simp add: run_cmd_def cmd_then_def ready_def split del: sum.split)+
qed

lemma typed_logs:
  assumes "logs P s t" "\<And>c env. P c \<Longrightarrow> command_ok env c" "well_typed s"
  shows "well_typed t"
proof -
  obtain l where t: "t = s @ l" and l: "\<forall>e \<in> set l. P (fst e)" using assms(1) by (auto simp: logs_def)
  from l have "well_typed (s @ l)"
  proof (induction l rule: rev_induct)
    case (snoc e l)
    then show ?case using assms(2) well_typed_snoc [of "s @ l" e] by auto
  qed (simp add: assms(3))
  then show ?thesis by (simp add: t)
qed

text \<open>Commands that are well typed wherever they stand.\<close>

lemma typed_run_all_ignore:
  assumes "\<And>c env. c \<in> set cs \<Longrightarrow> command_ok env c" "well_typed s"
  shows "well_typed (run_all_ignore w cs s)"
proof -
  have "logs (\<lambda>c. \<forall>env. command_ok env c) s (run_all_ignore w cs s)"
    using assms(1) by (intro logs_run_all_ignore) blast
  from typed_logs [OF this _ assms(2)] show ?thesis by blast
qed

lemma typed_then:
  assumes "well_typed (snd r)" "\<And>s. well_typed s \<Longrightarrow> well_typed (snd (f s))"
  shows "well_typed (snd (cmd_then r f))"
  using assms by (cases r; cases "fst r") (auto simp: cmd_then_def)

lemma typed_sysctl:
  "well_typed s \<Longrightarrow> well_typed (snd (run_cmd w (sysctl setting) s))"
  "well_typed s \<Longrightarrow> well_typed (run_cmd_ignore w (sysctl setting) s)"
  by (simp_all add: run_cmd_def run_cmd_ignore_def)

section \<open>The rules of the firewall\<close>

lemma specs:
  "read_spec ''{ type nat hook prerouting priority -100 ; }'' = Some (Nat_Chain, Prerouting)"
  "read_spec ''{ type nat hook output priority -100 ; }'' = Some (Nat_Chain, Output)"
  "read_spec ''{ type filter hook prerouting priority mangle ; }'' = Some (Filter_Chain, Prerouting)"
  "read_spec ''{ type filter hook output priority 0 ; }'' = Some (Filter_Chain, Output)"
  "read_spec ''{ type filter hook forward priority 0 ; }'' = Some (Filter_Chain, Forward)"
  by code_simp+

lemma dport_53: "proto = ''udp'' \<or> proto = ''tcp'' \<Longrightarrow> body_ok fam k h True ts \<Longrightarrow> body_ok fam k h tp (proto # ''dport'' # ''53'' # ts)"
  using body_ok.dport [of proto fam k h ts tp 53] by simp

lemma dport_22: "body_ok fam k h True ts \<Longrightarrow> body_ok fam k h tp (''tcp'' # ''dport'' # ''22'' # ts)"
  using body_ok.dport [of "''tcp''" fam k h ts tp 22] by simp

lemma daddr_of: "family_of a = fam \<Longrightarrow> d = ip_display a \<Longrightarrow> body_ok fam k h tp ts \<Longrightarrow> body_ok fam k h tp (fam # ''daddr'' # d # ts)"
  using body_ok.daddr by blast

lemma dnat_of: "k = Nat_Chain \<Longrightarrow> h \<noteq> Forward \<Longrightarrow> family_of a = fam \<Longrightarrow> d = endpoint a p \<Longrightarrow>
    body_ok fam k h True [''dnat'', ''to'', d]"
  using body_ok.dnat by blast

definition of_family :: "nft_family \<Rightarrow> string option \<Rightarrow> bool" where
  "of_family fam addr \<longleftrightarrow> (case addr of None \<Rightarrow> True | Some s \<Rightarrow> \<exists>a. s = ip_display a \<and> family_of a = nft_table fam)"

definition target_of :: "nft_family \<Rightarrow> string option \<Rightarrow> bool" where
  "target_of fam target \<longleftrightarrow>
     (case target of None \<Rightarrow> True | Some s \<Rightarrow> \<exists>a p. s = endpoint a p \<and> family_of a = nft_table fam)"

lemma prerouting_bodies_ok:
  assumes "iface \<noteq> []" "target_of fam dns" "of_family fam addr"
  shows "list_all (body_ok (nft_table fam) Nat_Chain Prerouting False)
    (prerouting_bodies fam iface dns ports addr (dec (unat (port :: u16))))"
proof -
  have dns: "list_all (body_ok (nft_table fam) Nat_Chain Prerouting False)
      (case dns of Some t \<Rightarrow> [[''iifname'', iface, ''udp'', ''dport'', ''53'', ''dnat'', ''to'', t],
         [''iifname'', iface, ''tcp'', ''dport'', ''53'', ''dnat'', ''to'', t]] | None \<Rightarrow> [])"
    using assms(1,2) by (auto simp: target_of_def intro!: body_ok.iif dport_53 dnat_of split: option.splits)
  have ports: "list_all (body_ok (nft_table fam) Nat_Chain Prerouting False)
      (map (\<lambda>p. [''iifname'', iface, ''tcp'', ''dport'', dec (unat p), ''redirect'', ''to'', '':'' @ dec (unat port)]) ps)" for ps :: "u16 list"
    using assms(1) by (auto simp: list_all_iff intro!: body_ok.iif body_ok.dport body_ok.redirect [simplified])
  have all: "list_all (body_ok (nft_table fam) Nat_Chain Prerouting False)
      ((case addr of Some a \<Rightarrow> [[''iifname'', iface, nft_table fam, ''daddr'', a, ''tcp'', ''dport'', ''22'', ''return'']] | None \<Rightarrow> []) @
       [[''iifname'', iface, ''fib'', ''daddr'', ''type'', ''local'', ''return''],
        [''iifname'', iface, ''meta'', ''l4proto'', ''tcp'', ''redirect'', ''to'', '':'' @ dec (unat port)]])"
    using assms(1,3)
    by (auto simp: of_family_def intro!: body_ok.iif daddr_of dport_22 body_ok.return body_ok.fib body_ok.l4proto
        body_ok.redirect [simplified] split: option.splits)
  show ?thesis unfolding prerouting_bodies_def using dns ports all by (auto split: option.split)
qed

lemma output_bodies_ok:
  assumes "of_family fam addr"
  shows "list_all (body_ok (nft_table fam) Nat_Chain Output False)
    (output_bodies fam fwmark upstream ports addr (dec (unat (port :: u16))))"
proof -
  have excl: "list_all (body_ok (nft_table fam) Nat_Chain Output False)
      (case upstream of Some u \<Rightarrow> (case upstream_exclusion_body fam u of Some body \<Rightarrow> [body] | None \<Rightarrow> []) | None \<Rightarrow> [])"
    by (cases upstream; cases fam; cases "sock_ip (the upstream)")
      (auto simp: upstream_exclusion_body_def simp del: ip_display.simps
        intro!: daddr_of [OF _ refl] body_ok.dport body_ok.return)
  have ports: "list_all (body_ok (nft_table fam) Nat_Chain Output False)
      (map (\<lambda>p. [''tcp'', ''dport'', dec (unat p), ''redirect'', ''to'', '':'' @ dec (unat port)]) ps)" for ps :: "u16 list"
    by (auto simp: list_all_iff intro!: body_ok.dport body_ok.redirect [simplified])
  have all: "list_all (body_ok (nft_table fam) Nat_Chain Output False)
      ((case addr of Some a \<Rightarrow> [[nft_table fam, ''daddr'', a, ''tcp'', ''dport'', ''22'', ''return'']] | None \<Rightarrow> []) @
       [[''meta'', ''l4proto'', ''tcp'', ''redirect'', ''to'', '':'' @ dec (unat port)]])"
    using assms
    by (auto simp: of_family_def intro!: daddr_of dport_22 body_ok.return body_ok.l4proto
        body_ok.redirect [simplified] split: option.splits)
  have own: "list_all (body_ok (nft_table fam) Nat_Chain Output False)
      [[''meta'', ''mark'', dec (unat fwmark), ''return''], [''fib'', ''daddr'', ''type'', ''local'', ''return'']]"
    by (auto intro!: body_ok.mark body_ok.fib body_ok.return)
  show ?thesis unfolding output_bodies_def using own excl ports all by (auto split: option.split)
qed

lemma quic_drop_ok:
  "iface \<noteq> [] \<Longrightarrow> body_ok fam Filter_Chain Forward False (quic_drop_body ''iifname'' iface p)"
  "iface \<noteq> [] \<Longrightarrow> body_ok fam Filter_Chain Output False (quic_drop_body ''oifname'' iface p)"
  by (auto simp: quic_drop_body_def intro!: body_ok.iif body_ok.oif body_ok.dport body_ok.drop)

lemma tproxy_ok: "iface \<noteq> [] \<Longrightarrow> body_ok fam Filter_Chain Prerouting False (tproxy_body iface p proxy_port)"
  by (auto simp: tproxy_body_def intro!: body_ok.iif body_ok.dport body_ok.tproxy [simplified])

lemma targets_ok:
  "target_of Ip (map_option (\<lambda>(ip, port). ipv4_display ip @ '':'' @ dec (unat (port :: u16))) t4)"
  "target_of Ip6 (map_option (\<lambda>(ip, port). ''['' @ ipv6_display ip @ '']:'' @ dec (unat (port :: u16))) t6)"
  "of_family Ip (map_option ipv4_display a4)" "of_family Ip6 (map_option ipv6_display a6)"
proof -
  show "target_of Ip (map_option (\<lambda>(ip, port). ipv4_display ip @ '':'' @ dec (unat (port :: u16))) t4)"
    by (cases t4) (auto simp: target_of_def endpoint_def simp del: ipv4_display.simps intro!: exI [of _ "IpV4 _"])
  show "target_of Ip6 (map_option (\<lambda>(ip, port). ''['' @ ipv6_display ip @ '']:'' @ dec (unat (port :: u16))) t6)"
    by (cases t6) (auto simp: target_of_def endpoint_def intro!: exI [of _ "IpV6 _"])
  show "of_family Ip (map_option ipv4_display a4)"
    by (cases a4) (auto simp: of_family_def simp del: ipv4_display.simps intro!: exI [of _ "IpV4 _"])
  show "of_family Ip6 (map_option ipv6_display a6)"
    by (cases a6) (auto simp: of_family_def intro!: exI [of _ "IpV6 _"])
qed

section \<open>The parts of the setup\<close>

lemma ready_quic_block_output:
  assumes "ready fam s" "fc_interface fc \<noteq> []"
  shows "ready fam (snd (setup_quic_block_output w fc fam s))"
  using assms typed_chain [OF assms(1) specs(4), where bodies = "map (quic_drop_body ''oifname'' (fc_interface fc)) (quic_block_ports fc)"]
  by (auto simp: setup_quic_block_output_def Let_def comp_def list.pred_map quic_drop_ok list_all_iff simp del: run_all.simps)

lemma ready_quic_block:
  assumes "ready fam s" "fc_interface fc \<noteq> []"
  shows "ready fam (snd (setup_quic_block w fc fam s))"
proof -
  have "ready fam (snd (run_all w (add_chain fam ''quic_forward'' ''{ type filter hook forward priority 0 ; }'' #
      map (\<lambda>port. add_rule fam ''quic_forward'' (quic_drop_body ''iifname'' (fc_interface fc) port)) (quic_block_ports fc)) s))"
    using assms(2) typed_chain [OF assms(1) specs(5), where bodies = "map (quic_drop_body ''iifname'' (fc_interface fc)) (quic_block_ports fc)"]
    by (auto simp: comp_def quic_drop_ok list_all_iff simp del: run_all.simps)
  then show ?thesis
    using assms ready_quic_block_output unfolding setup_quic_block_def Let_def by (auto intro!: ready_then simp del: run_all.simps)
qed

lemma ready_udp_tproxy:
  assumes "ready fam s" "fc_interface fc \<noteq> []"
  shows "ready fam (snd (setup_udp_tproxy w fc fam s))"
  using assms typed_chain [OF assms(1) specs(3),
      where bodies = "map (\<lambda>p. tproxy_body (fc_interface fc) p (fc_proxy_port fc)) (quic_block_ports fc)"]
  by (auto simp: setup_udp_tproxy_def Let_def comp_def tproxy_ok list_all_iff simp del: run_all.simps)

lemma ready_udp_handling:
  assumes "ready fam s" "fc_interface fc \<noteq> []"
  shows "ready fam (snd (setup_udp_handling w fc fam s))"
  using assms ready_udp_tproxy [OF assms, of w]
  by (auto simp: setup_udp_handling_def ready_quic_block ready_quic_block_output split: prod.split sum.split)

lemma ready_output:
  assumes "ready fam s" "list_all (body_ok (nft_table fam) Nat_Chain Output False) bodies"
  shows "ready fam (snd (run_all w (output_commands fam bodies) s))"
  unfolding output_commands_def using typed_chain [OF assms(1) specs(2) assms(2)] .

lemma ready_outputs:
  "ready Ip s \<Longrightarrow> ready Ip (snd (run_all w (output_v4 fc addrs) s))"
  "ready Ip6 s \<Longrightarrow> ready Ip6 (snd (run_all w (output_v6 fc addrs) s))"
  using targets_ok(3,4)
  by (auto simp: output_v4_def output_v6_def intro!: ready_output output_bodies_ok simp del: nft_table.simps split: option.split)

lemma typed_setup:
  assumes "well_typed s" "fc_interface fc \<noteq> []"
  shows "well_typed (snd (setup_ipv4 w fc addrs s))" "well_typed (snd (setup_ipv6 w fc addrs s))"
proof -
  have part: "well_typed (snd (cmd_then (run_all w (prerouting_commands fam bodies) s) (\<lambda>s.
      cmd_then (run_all w out s) (setup_udp_handling w fc fam))))"
    if "list_all (body_ok (nft_table fam) Nat_Chain Prerouting False) bodies"
      "\<And>s. ready fam s \<Longrightarrow> ready fam (snd (run_all w out s))" for fam bodies out
  proof -
    note pre = typed_table_chain [OF assms(1) specs(1) that(1), where chain = "''prerouting''", folded prerouting_commands_def]
    have rest: "ready fam (snd (cmd_then (run_all w out s) (setup_udp_handling w fc fam)))" if "ready fam s" for s
      using that assms(2) \<open>\<And>s. ready fam s \<Longrightarrow> ready fam (snd (run_all w out s))\<close> by (blast intro: ready_then ready_udp_handling)
    obtain r t where rt: "run_all w (prerouting_commands fam bodies) s = (r, t)" by fastforce
    show ?thesis
    proof (cases r)
      case (Inl e)
      then show ?thesis using pre(1) [of w] rt by (simp add: cmd_then_def)
    next
      case (Inr u)
      then have "ready fam t" using pre(2) [of w] rt by simp
      then show ?thesis using rest rt Inr by (simp add: cmd_then_def [of "(Inr _, _)"] ready_def)
    qed
  qed
  show "well_typed (snd (setup_ipv4 w fc addrs s))"
    unfolding setup_ipv4_def prerouting_v4_def
    by (intro part prerouting_bodies_ok assms(2) targets_ok ready_outputs)
  show "well_typed (snd (setup_ipv6 w fc addrs s))"
    unfolding setup_ipv6_def prerouting_v6_def
    by (intro part prerouting_bodies_ok assms(2) targets_ok ready_outputs)
qed

section \<open>Properties\<close>

text \<open>
  C12. Whatever commands fail, every command of setup and of teardown is well typed with what the successful ones
  before it have declared: no rule goes to a chain or a table that was not created, a port is mapped only after
  a match of the protocol and in a chain of the right type and hook, and every address has the family
  of its table.
\<close>

theorem nft_commands_typed:
  assumes "well_typed s" "fc_interface fc \<noteq> []"
  shows "well_typed (snd (nft_setup w ifaddrs fc s)) \<and> well_typed (snd (nft_teardown w s))"
proof -
  have start: "well_typed (run_all_ignore w [delete_table Ip, delete_table Ip6] s)"
    using assms(1) by (intro typed_run_all_ignore) auto
  have ip: "well_typed t" if "logs (\<lambda>c. fst c = ''ip'') r t" "well_typed r" for r t
    using that by (intro typed_logs [OF that(1) _ that(2)]) (simp add: command_ok_def)
  have routing: "well_typed (snd (setup_tproxy_routing w r))" if "well_typed r" for r
    by (rule ip [OF logs_tproxy_routing that]) simp
  have "well_typed (snd (nft_setup w ifaddrs fc s))"
    unfolding nft_setup_def Let_def split_def
    using start assms(2) by (intro typed_then typed_sysctl typed_setup) (auto intro: routing typed_setup)
  moreover have "well_typed (teardown_tproxy_routing w r)" if "well_typed r" for r
    unfolding teardown_tproxy_routing_def ip_rule_def flush_routes_def
    using that by (intro typed_run_all_ignore) auto
  then have "well_typed (snd (nft_teardown w s))"
    unfolding nft_teardown_def Let_def using start by (intro typed_then typed_sysctl) (auto intro: typed_sysctl)
  ultimately show ?thesis ..
qed

theorem nft_commands_typed_witness:
  "\<exists>t. nft_setup demo_world None demo_firewall [] = (Inr (), t) \<and> well_typed t"
proof -
  obtain t where t: "nft_setup demo_world None demo_firewall [] = (Inr (), t)" using demo_setup by blast
  have "well_typed []" "fc_interface demo_firewall \<noteq> []" by (simp_all add: well_typed_def demo_firewall_def)
  from nft_commands_typed [OF this, of demo_world None] t show ?thesis by auto
qed

end
