(* ===== verification/Unit_Test.thy ===== *)
theory Unit_Test
  imports Rust_Text "HOL-Library.Code_Target_Nat"
begin

text \<open>
  What the unit tests of the source (its \<open>#[cfg(test)]\<close> modules) are made of.  A test is a computation that
  panics when one of its assertions fails, so it has the type \<open>unit exec\<close>, and it passes when it
  runs to its end.  The tests are translated like the code, over the same definitions, and
  evaluated by the simplifier; numbers are computed in binary (\<open>Code_Target_Nat\<close>).
\<close>

type_synonym test = "unit exec"

text \<open>\<open>assert!\<close>, with the comparisons of \<open>assert_eq!\<close> and \<open>assert_ne!\<close> written out.\<close>

definition assert_that :: "bool \<Rightarrow> test" where
  "assert_that b = (if b then Some () else None)"

definition assert_eq :: "'a \<Rightarrow> 'a \<Rightarrow> test" where
  "assert_eq x y = assert_that (x = y)"

text \<open>\<open>unwrap\<close> of an \<open>Option\<close> and of a \<open>Result\<close>.\<close>

definition unwrap :: "'a option \<Rightarrow> 'a exec" where
  "unwrap r = r"

definition unwrap_ok :: "'e + 'a \<Rightarrow> 'a exec" where
  "unwrap_ok r = (case r of Inl _ \<Rightarrow> None | Inr x \<Rightarrow> Some x)"

definition is_err :: "'e + 'a \<Rightarrow> bool" where
  "is_err r = (case r of Inl _ \<Rightarrow> True | Inr _ \<Rightarrow> False)"

text \<open>The assertions of a test one after the other.\<close>

fun assert_all :: "test list \<Rightarrow> test" where
  "assert_all [] = Some ()"
| "assert_all (t # ts) = t \<bind> (\<lambda>_. assert_all ts)"

definition passes :: "test \<Rightarrow> bool" where
  "passes t = (t = Some ())"

text \<open>Characters are compared bit by bit, up to the first difference.\<close>

lemma equal_char_lazy [code]:
  "HOL.equal (Char a0 a1 a2 a3 a4 a5 a6 a7) (Char b0 b1 b2 b3 b4 b5 b6 b7) \<longleftrightarrow>
     (if a0 = b0 then if a1 = b1 then if a2 = b2 then if a3 = b3 then if a4 = b4 then if a5 = b5 then
      if a6 = b6 then a7 = b7 else False else False else False else False else False else False else False)"
  by (simp add: equal)

text \<open>
  \<open>str::starts_with\<close>, \<open>str::contains\<close> (or \<open>windows(n).any(|w| w == pat)\<close> on bytes), \<open>str::find\<close> and \<open>str::rfind\<close>, written to
  stop at the first difference.
\<close>

fun begins_with :: "'a list \<Rightarrow> 'a list \<Rightarrow> bool" where
  "begins_with [] ys = True"
| "begins_with (x # xs) [] = False"
| "begins_with (x # xs) (y # ys) = (if x = y then begins_with xs ys else False)"

fun has_window :: "'a list \<Rightarrow> 'a list \<Rightarrow> bool" where
  "has_window [] pat = (pat = [])"
| "has_window (x # xs) pat = (if begins_with pat (x # xs) then True else has_window xs pat)"

fun str_find_from :: "nat \<Rightarrow> string \<Rightarrow> string \<Rightarrow> nat option" where
  "str_find_from n [] p = (if p = [] then Some n else None)"
| "str_find_from n (c # cs) p = (if begins_with p (c # cs) then Some n else str_find_from (n + 1) cs p)"

definition str_find :: "string \<Rightarrow> string \<Rightarrow> nat exec" where
  "str_find s p = str_find_from 0 s p"

definition str_rfind :: "string \<Rightarrow> string \<Rightarrow> nat exec" where
  "str_rfind s p = map_option (\<lambda>n. length s - n - length p) (str_find (rev s) (rev p))"

definition newline :: string where "newline = [char_of (10 :: nat)]"

text \<open>A pattern without a line feed is searched for in each line by itself.\<close>

lemma begins_with_iff: "begins_with xs ys \<longleftrightarrow> (\<exists>zs. ys = xs @ zs)"
  by (induction xs ys rule: begins_with.induct) auto

lemma has_window_iff: "has_window xs p \<longleftrightarrow> (\<exists>a b. xs = a @ p @ b)"
proof (induction xs)
  case (Cons x xs)
  have "(\<exists>a b. x # xs = a @ p @ b) \<longleftrightarrow> (\<exists>b. x # xs = p @ b) \<or> (\<exists>a b. xs = a @ p @ b)"
    by (metis append_Cons append_Nil list.exhaust list.inject)
  then show ?case using Cons by (simp add: begins_with_iff)
qed simp

lemma has_window_append:
  assumes "c \<notin> set p" "p \<noteq> []"
  shows "has_window (xs @ c # ys) p \<longleftrightarrow> has_window xs p \<or> has_window ys p"
proof
  assume "has_window (xs @ c # ys) p"
  then obtain a b where ab: "xs @ c # ys = a @ p @ b" by (auto simp: has_window_iff)
  then consider us where "xs = a @ us" "us @ c # ys = p @ b" | us where "xs @ us = a" "c # ys = us @ p @ b"
    by (auto simp: append_eq_append_conv2)
  then show "has_window xs p \<or> has_window ys p"
  proof cases
    case 1
    from 1(2) consider vs where "us = p @ vs" | vs where "us @ vs = p" "c # ys = vs @ b"
      by (auto simp: append_eq_append_conv2)
    then show ?thesis
    proof cases
      case 1
      then show ?thesis using \<open>xs = a @ us\<close> by (auto simp: has_window_iff)
    next
      case 2
      then have "vs = []" using assms(1) by (cases vs) auto
      then have "xs = a @ p @ []" using 2 \<open>xs = a @ us\<close> by simp
      then show ?thesis unfolding has_window_iff by blast
    qed
  next
    case 2
    then show ?thesis using assms by (cases us) (auto simp: has_window_iff Cons_eq_append_conv)
  qed
next
  assume "has_window xs p \<or> has_window ys p"
  then show "has_window (xs @ c # ys) p"
    unfolding has_window_iff by (metis append.assoc append_Cons)
qed

definition one_line :: "string \<Rightarrow> bool" where
  "one_line p \<longleftrightarrow> p \<noteq> [] \<and> list_all (\<lambda>c. c \<noteq> CHR ''\<newline>'') p"

definition has_window_slow :: "string \<Rightarrow> string \<Rightarrow> bool" where
  "has_window_slow = has_window"

lemma has_window_join:
  "has_window (join [CHR ''\<newline>''] ls) p =
     (if one_line p then list_ex (\<lambda>l. has_window l p) ls else has_window_slow (join [CHR ''\<newline>''] ls) p)"
proof (cases "one_line p")
  case True
  then have p: "CHR ''\<newline>'' \<notin> set p" "p \<noteq> []" by (auto simp: one_line_def list_all_iff)
  have "has_window (join [CHR ''\<newline>''] ls) p \<longleftrightarrow> list_ex (\<lambda>l. has_window l p) ls"
  proof (induction ls)
    case (Cons l ls)
    then show ?case using p has_window_append [OF p, of l "join [CHR ''\<newline>''] ls"] by (cases ls) auto
  qed (use p in simp)
  then show ?thesis using True by simp
qed (simp add: has_window_slow_def)

lemma assert_all_passes [simp]: "passes (assert_all ts) = list_all passes ts"
  by (induction ts) (auto simp: passes_def Option.bind_eq_Some_conv)

end
