(* ===== verification/Firewall_Tests.thy ===== *)
theory Firewall_Tests
  imports Unit_Test Nftables Pf
begin

text \<open>
  The unit tests of \<^verbatim>\<open>src/src/firewall/mod.rs\<close>, \<^verbatim>\<open>nftables.rs\<close> and \<^verbatim>\<open>pf.rs\<close>.  Where a test parses a command line, the
  configuration is the one that the options of the test and the defaults declared in \<^verbatim>\<open>config.rs\<close> give.
\<close>

section \<open>Configuration\<close>

text \<open>The defaults of the options (\<open>#[arg(default_value ..)]\<close>), on Linux.\<close>

definition config_defaults :: "config exec" where
  "config_defaults = do {
     listen \<leftarrow> unwrap (parse_socket_addr ''0.0.0.0:8443'');
     upstream \<leftarrow> unwrap_ok (parse_dns_upstream (\<lambda>_. None) ''https://cloudflare-dns.com/dns-query'');
     Some
       \<lparr>cf_listen_addr = listen, cf_upstream_proxy = None, cf_log_level = ''info'', cf_dns = False, cf_dns_listen = None,
        cf_dns_upstream = upstream, cf_dns_strip_aaaa = False, cf_interface = ''eth0'', cf_daemon = False,
        cf_pid_file = ''/var/run/trans_proxy.pid'', cf_log_file = None, cf_local_traffic = False,
        cf_proxy_user = ''trans_proxy'', cf_fwmark = 1, cf_gateway = False, cf_sni = False, cf_ports = None,
        cf_allow_quic = False, cf_install = False, cf_uninstall = False, cf_start = False, cf_stop = False,
        cf_setup_firewall = False, cf_teardown_firewall = False\<rparr> }"

definition test_config :: "config exec" where
  "test_config = do {
     c \<leftarrow> config_defaults;
     proxy \<leftarrow> unwrap_ok (parse_upstream_proxy (\<lambda>_. None) ''127.0.0.1:1082'');
     Some (c\<lparr>cf_upstream_proxy := Some proxy\<rparr>) }"

definition test_links :: "ifaddr list option" where
  "test_links = Some [(''lo'', Some (IpV4 (Ipv4 127 0 0 1))), (''lo'', Some (IpV6 ipv6_localhost))]"

definition test_get_interface_ips_loopback :: test where
  "test_get_interface_ips_loopback = assert_eq (ia_ipv4 (get_interface_ips test_links ''lo'')) (Some (Ipv4 127 0 0 1))"

definition test_get_interface_ips_nonexistent :: test where
  "test_get_interface_ips_nonexistent =
     (let addrs = get_interface_ips test_links ''nonexistent_iface_xyz'' in
      assert_all [assert_eq (ia_ipv4 addrs) None, assert_eq (ia_ipv6 addrs) None])"

definition test_firewall_config_from_config_basic :: test where
  "test_firewall_config_from_config_basic = do {
     c \<leftarrow> test_config;
     let fw = from_config test_links (c\<lparr>cf_interface := ''eth0''\<rparr>) in
     assert_all
       [assert_eq (fc_interface fw) ''eth0'', assert_eq (fc_proxy_port fw) 8443, assert_that (fc_fwmark fw = None),
        assert_that (fc_upstream_addr fw = None), assert_that (fc_ports fw = None), assert_that (fc_dns_listen fw = None)] }"

definition test_firewall_config_uses_resolved_dns_listen :: test where
  "test_firewall_config_uses_resolved_dns_listen = do {
     c \<leftarrow> test_config;
     listen \<leftarrow> unwrap (parse_socket_addr ''192.168.1.1:5353'');
     let fw = from_config test_links (c\<lparr>cf_dns := True, cf_dns_listen := Some listen\<rparr>) in
     assert_eq (fc_dns_listen fw) (Some listen) }"

definition fw_with_dns_listen :: "string option \<Rightarrow> firewall_config exec" where
  "fw_with_dns_listen listen = do {
     addr \<leftarrow> (case listen of None \<Rightarrow> Some None | Some s \<Rightarrow> map_option Some (parse_socket_addr s));
     Some \<lparr>fc_interface = ''eth0'', fc_proxy_port = 8443, fc_fwmark = None, fc_upstream_addr = None, fc_ports = None,
           fc_dns_listen = addr, fc_block_quic = True, fc_proxy_udp = False\<rparr> }"

definition test_dns_target_v4_specific_listen_addr :: test where
  "test_dns_target_v4_specific_listen_addr = do {
     fw \<leftarrow> fw_with_dns_listen (Some ''192.168.1.1:5353'');
     assert_all
       [assert_eq (dns_target_v4 fw (Some (Ipv4 10 0 0 1))) (Some (Ipv4 192 168 1 1, 5353)),
        assert_eq (dns_target_v6 fw (Some (Ipv6 0x2001 0xdb8 0 0 0 0 0 1))) None] }"

definition test_dns_target_v4_unspecified_falls_back_to_interface :: test where
  "test_dns_target_v4_unspecified_falls_back_to_interface = do {
     fw \<leftarrow> fw_with_dns_listen (Some ''0.0.0.0:53'');
     assert_all
       [assert_eq (dns_target_v4 fw (Some (Ipv4 10 0 0 1))) (Some (Ipv4 10 0 0 1, 53)),
        assert_eq (dns_target_v4 fw None) None] }"

definition test_dns_target_v6_specific_listen_addr :: test where
  "test_dns_target_v6_specific_listen_addr = do {
     fw \<leftarrow> fw_with_dns_listen (Some ''[2001:db8::1]:5353'');
     assert_eq (dns_target_v6 fw (Some (Ipv6 0xfd00 0 0 0 0 0 0 1))) (Some (Ipv6 0x2001 0xdb8 0 0 0 0 0 1, 5353)) }"

definition test_dns_target_v6_unspecified_dual_stack :: test where
  "test_dns_target_v6_unspecified_dual_stack = do {
     fw \<leftarrow> fw_with_dns_listen (Some ''[::]:53'');
     assert_all
       [assert_eq (dns_target_v6 fw (Some (Ipv6 0xfd00 0 0 0 0 0 0 1))) (Some (Ipv6 0xfd00 0 0 0 0 0 0 1, 53)),
        assert_eq (dns_target_v4 fw (Some (Ipv4 10 0 0 1))) (Some (Ipv4 10 0 0 1, 53))] }"

definition test_dns_target_none_when_dns_disabled :: test where
  "test_dns_target_none_when_dns_disabled = do {
     fw \<leftarrow> fw_with_dns_listen None;
     assert_all
       [assert_eq (dns_target_v4 fw (Some (Ipv4 10 0 0 1))) None,
        assert_eq (dns_target_v6 fw (Some (Ipv6 0xfd00 0 0 0 0 0 0 1))) None] }"

definition test_firewall_config_from_config_local_traffic :: test where
  "test_firewall_config_from_config_local_traffic = do {
     c \<leftarrow> test_config;
     expected \<leftarrow> unwrap (parse_socket_addr ''127.0.0.1:1082'');
     let fw = from_config test_links (c\<lparr>cf_local_traffic := True, cf_fwmark := 42\<rparr>) in
     assert_all [assert_eq (fc_fwmark fw) (Some 42), assert_eq (fc_upstream_addr fw) (Some expected)] }"

definition test_firewall_config_from_config_with_ports :: test where
  "test_firewall_config_from_config_with_ports = do {
     c \<leftarrow> test_config;
     ports \<leftarrow> unwrap_ok (parse_port_list ''80,443'');
     let fw = from_config test_links (c\<lparr>cf_ports := Some ports\<rparr>) in
     assert_eq (fc_ports fw) (Some [80, 443]) }"

definition fw_for_quic :: "bool \<Rightarrow> u16 list option \<Rightarrow> firewall_config" where
  "fw_for_quic block_quic ports =
     \<lparr>fc_interface = ''eth0'', fc_proxy_port = 8443, fc_fwmark = None, fc_upstream_addr = None, fc_ports = ports,
      fc_dns_listen = None, fc_block_quic = block_quic, fc_proxy_udp = False\<rparr>"

definition test_quic_block_ports_all_tcp_mode_blocks_443 :: test where
  "test_quic_block_ports_all_tcp_mode_blocks_443 = assert_eq (quic_block_ports (fw_for_quic True None)) [443]"

definition test_quic_block_ports_mirrors_port_filter :: test where
  "test_quic_block_ports_mirrors_port_filter =
     assert_eq (quic_block_ports (fw_for_quic True (Some [80, 443, 8443]))) [80, 443, 8443]"

definition test_quic_block_ports_excludes_dns_port :: test where
  "test_quic_block_ports_excludes_dns_port = assert_eq (quic_block_ports (fw_for_quic True (Some [53, 443]))) [443]"

definition test_quic_block_ports_empty_when_disabled :: test where
  "test_quic_block_ports_empty_when_disabled = assert_all
     [assert_that (quic_block_ports (fw_for_quic False None) = []),
      assert_that (quic_block_ports (fw_for_quic False (Some [443])) = [])]"

definition test_allow_quic_flag_disables_block :: test where
  "test_allow_quic_flag_disables_block = do {
     c \<leftarrow> test_config;
     assert_all
       [assert_that (fc_block_quic (from_config test_links c)),
        assert_that (\<not> fc_block_quic (from_config test_links (c\<lparr>cf_allow_quic := True\<rparr>)))] }"

lemma firewall_config_tests:
  "passes test_get_interface_ips_loopback" "passes test_get_interface_ips_nonexistent"
  "passes test_firewall_config_from_config_basic" "passes test_firewall_config_uses_resolved_dns_listen"
  "passes test_dns_target_v4_specific_listen_addr" "passes test_dns_target_v4_unspecified_falls_back_to_interface"
  "passes test_dns_target_v6_specific_listen_addr" "passes test_dns_target_v6_unspecified_dual_stack"
  "passes test_dns_target_none_when_dns_disabled" "passes test_firewall_config_from_config_local_traffic"
  "passes test_firewall_config_from_config_with_ports" "passes test_quic_block_ports_all_tcp_mode_blocks_443"
  "passes test_quic_block_ports_mirrors_port_filter" "passes test_quic_block_ports_excludes_dns_port"
  "passes test_quic_block_ports_empty_when_disabled" "passes test_allow_quic_flag_disables_block"
  by code_simp+

section \<open>nftables\<close>

text \<open>The arguments of a rule, as \<open>quic_drop_rule_args\<close> and its siblings return them.\<close>

definition nft_rule_args :: "nft_family \<Rightarrow> string \<Rightarrow> string list \<Rightarrow> string list" where
  "nft_rule_args fam chain body = snd (add_rule fam chain body)"

definition builds_ipv4_quic_forward_drop_rule :: test where
  "builds_ipv4_quic_forward_drop_rule =
     assert_eq (nft_rule_args Ip ''quic_forward'' (quic_drop_body ''iifname'' ''eth0'' 443))
       [''add'', ''rule'', ''ip'', ''trans_proxy'', ''quic_forward'', ''iifname'', ''eth0'', ''udp'', ''dport'', ''443'', ''drop'']"

definition builds_ipv6_quic_output_drop_rule :: test where
  "builds_ipv6_quic_output_drop_rule =
     assert_eq (nft_rule_args Ip6 ''quic_output'' (quic_drop_body ''oifname'' ''eth0'' 8443))
       [''add'', ''rule'', ''ip6'', ''trans_proxy'', ''quic_output'', ''oifname'', ''eth0'', ''udp'', ''dport'', ''8443'', ''drop'']"

definition builds_ipv4_tproxy_redirect_rule :: test where
  "builds_ipv4_tproxy_redirect_rule =
     assert_eq (nft_rule_args Ip ''tproxy_prerouting'' (tproxy_body ''eth0'' 443 8443))
       [''add'', ''rule'', ''ip'', ''trans_proxy'', ''tproxy_prerouting'', ''iifname'', ''eth0'', ''udp'', ''dport'', ''443'',
        ''tproxy'', ''to'', '':8443'', ''meta'', ''mark'', ''set'', ''0x40000000'', ''accept'']"

definition builds_ipv6_tproxy_redirect_rule :: test where
  "builds_ipv6_tproxy_redirect_rule =
     (let args = nft_rule_args Ip6 ''tproxy_prerouting'' (tproxy_body ''eth0'' 443 8443) in
      assert_all [assert_eq (idx args 2) (Some ''ip6''), assert_eq (idx args 11) (Some ''to''), assert_eq (idx args 12) (Some '':8443'')])"

definition upstream_output_exclusion_args :: "nft_family \<Rightarrow> socket_addr \<Rightarrow> string list option" where
  "upstream_output_exclusion_args fam upstream = map_option (nft_rule_args fam ''output'') (upstream_exclusion_body fam upstream)"

definition builds_ipv4_upstream_exclusion_for_ipv4_table :: test where
  "builds_ipv4_upstream_exclusion_for_ipv4_table = do {
     upstream \<leftarrow> unwrap (parse_socket_addr ''192.0.2.10:1080'');
     args \<leftarrow> unwrap (upstream_output_exclusion_args Ip upstream);
     assert_eq args
       [''add'', ''rule'', ''ip'', ''trans_proxy'', ''output'', ''ip'', ''daddr'', ''192.0.2.10'', ''tcp'', ''dport'', ''1080'', ''return''] }"

definition builds_ipv6_upstream_exclusion_for_ipv6_table :: test where
  "builds_ipv6_upstream_exclusion_for_ipv6_table = do {
     upstream \<leftarrow> unwrap (parse_socket_addr ''[2001:db8::10]:1080'');
     args \<leftarrow> unwrap (upstream_output_exclusion_args Ip6 upstream);
     assert_eq args
       [''add'', ''rule'', ''ip6'', ''trans_proxy'', ''output'', ''ip6'', ''daddr'', ''2001:db8::10'', ''tcp'', ''dport'', ''1080'', ''return''] }"

definition skips_upstream_exclusion_for_mismatched_address_family :: test where
  "skips_upstream_exclusion_for_mismatched_address_family = do {
     v6 \<leftarrow> unwrap (parse_socket_addr ''[2001:db8::10]:1080'');
     v4 \<leftarrow> unwrap (parse_socket_addr ''192.0.2.10:1080'');
     assert_all
       [assert_that (upstream_output_exclusion_args Ip v6 = None), assert_that (upstream_output_exclusion_args Ip6 v4 = None)] }"

lemma nftables_tests:
  "passes builds_ipv4_quic_forward_drop_rule" "passes builds_ipv6_quic_output_drop_rule"
  "passes builds_ipv4_tproxy_redirect_rule" "passes builds_ipv6_tproxy_redirect_rule"
  "passes builds_ipv4_upstream_exclusion_for_ipv4_table" "passes builds_ipv6_upstream_exclusion_for_ipv6_table"
  "passes skips_upstream_exclusion_for_mismatched_address_family"
  by code_simp+

section \<open>pf\<close>

definition pf_test_config :: "u16 list option \<Rightarrow> socket_addr option \<Rightarrow> firewall_config" where
  "pf_test_config ports dns_listen =
     \<lparr>fc_interface = ''en0'', fc_proxy_port = 8443, fc_fwmark = None, fc_upstream_addr = None, fc_ports = ports,
      fc_dns_listen = dns_listen, fc_block_quic = True, fc_proxy_udp = False\<rparr>"

definition pf_test_addrs :: interface_addrs where
  "pf_test_addrs = \<lparr>ia_ipv4 = Some (Ipv4 192 168 1 1), ia_ipv6 = Some (Ipv6 0x2001 0xdb8 1 2 0 0 0 1)\<rparr>"

definition test_gateway_local_no_rdr_precedes_catch_all_redirects :: test where
  "test_gateway_local_no_rdr_precedes_catch_all_redirects =
     (let rules = build_rules (pf_test_config None None) pf_test_addrs in do {
        no_rdr_v4 \<leftarrow> str_find rules (''no rdr on en0 inet proto tcp from any to 192.168.1.1'' @ newline);
        rdr_v4 \<leftarrow> str_find rules ''rdr on en0 inet proto tcp from any to any -> 127.0.0.1 port 8443'';
        no_rdr_v6 \<leftarrow> str_find rules (''no rdr on en0 inet6 proto tcp from any to 2001:db8:1:2::1'' @ newline);
        rdr_v6 \<leftarrow> str_find rules ''rdr on en0 inet6 proto tcp from any to any -> ::1 port 8443'';
        assert_that (no_rdr_v4 < rdr_v4);
        assert_that (no_rdr_v6 < rdr_v6);
        assert_that (\<not> has_window rules ''pass in quick on en0'') })"

definition test_dns_redirect_precedes_gateway_local_no_rdr :: test where
  "test_dns_redirect_precedes_gateway_local_no_rdr = do {
     listen \<leftarrow> unwrap (parse_socket_addr ''192.168.1.1:5353'');
     let rules = build_rules (pf_test_config None (Some listen)) pf_test_addrs in do {
     dns_rdr \<leftarrow> str_find rules ''rdr on en0 inet proto tcp from any to any port 53 -> 192.168.1.1 port 5353'';
     no_rdr \<leftarrow> str_find rules (''no rdr on en0 inet proto tcp from any to 192.168.1.1'' @ newline);
     assert_that (dns_rdr < no_rdr) } }"

definition test_gateway_local_no_rdr_respects_port_filter :: test where
  "test_gateway_local_no_rdr_respects_port_filter =
     (let rules = build_rules (pf_test_config (Some [80, 443]) None) pf_test_addrs in
      assert_all
        [assert_that (has_window rules ''no rdr on en0 inet proto tcp from any to 192.168.1.1 port {80, 443}''),
         assert_that (has_window rules ''no rdr on en0 inet6 proto tcp from any to 2001:db8:1:2::1 port {80, 443}'')])"

definition test_quic_block_drops_udp_443_after_rdr_rules :: test where
  "test_quic_block_drops_udp_443_after_rdr_rules =
     (let rules = build_rules (pf_test_config None None) pf_test_addrs in do {
        block \<leftarrow> str_find rules ''block drop quick on en0 proto udp from any to any port {443}'';
        last_rdr \<leftarrow> str_rfind rules ''rdr on'';
        assert_that (last_rdr < block) })"

definition test_quic_block_precedes_pass_rules_with_upstream :: test where
  "test_quic_block_precedes_pass_rules_with_upstream = do {
     upstream \<leftarrow> unwrap (parse_socket_addr ''127.0.0.1:1080'');
     let rules = build_rules ((pf_test_config None None)\<lparr>fc_upstream_addr := Some upstream\<rparr>) pf_test_addrs in do {
     last_rdr \<leftarrow> str_rfind rules ''rdr on'';
     block \<leftarrow> str_find rules ''block drop quick on en0 proto udp'';
     pass \<leftarrow> str_find rules ''pass out'';
     assert_that (last_rdr < block);
     assert_that (block < pass) } }"

definition test_quic_block_mirrors_port_filter :: test where
  "test_quic_block_mirrors_port_filter =
     (let rules = build_rules (pf_test_config (Some [443, 8443]) None) pf_test_addrs in
      assert_that (has_window rules ''block drop quick on en0 proto udp from any to any port {443, 8443}''))"

definition test_quic_block_absent_when_disabled :: test where
  "test_quic_block_absent_when_disabled =
     (let rules = build_rules ((pf_test_config None None)\<lparr>fc_block_quic := False\<rparr>) pf_test_addrs in
      assert_that (\<not> has_window rules ''block drop''))"

lemma pf_order_tests:
  "passes test_gateway_local_no_rdr_precedes_catch_all_redirects" "passes test_dns_redirect_precedes_gateway_local_no_rdr"
  by code_simp+

lemma pf_block_tests:
  "passes test_quic_block_drops_udp_443_after_rdr_rules" "passes test_quic_block_precedes_pass_rules_with_upstream"
  by code_simp+

lemma pf_filter_tests:
  "passes test_gateway_local_no_rdr_respects_port_filter" "passes test_quic_block_mirrors_port_filter"
  "passes test_quic_block_absent_when_disabled"
  by code_simp+

definition scrub_line :: string where
  "scrub_line = ''scrub-anchor '' @ [CHR 0x22] @ ''com.apple/*'' @ [CHR 0x22]"

definition preserves_existing_rules_and_appends_anchor_references :: test where
  "preserves_existing_rules_and_appends_anchor_references =
     (let input = scrub_line @ newline; output = main_ruleset_with_anchor_references input in
      assert_all
        [assert_that (starts_with input output), assert_that (has_window output (rdr_anchor_line @ newline)),
         assert_that (has_window output (anchor_line @ newline))])"

definition does_not_duplicate_existing_anchor_references :: test where
  "does_not_duplicate_existing_anchor_references =
     (let input = scrub_line @ newline @ rdr_anchor_line @ newline @ anchor_line @ newline in
      assert_eq (main_ruleset_with_anchor_references input) input)"

definition inserts_separator_after_file_without_trailing_newline :: test where
  "inserts_separator_after_file_without_trailing_newline =
     assert_eq (main_ruleset_with_anchor_references scrub_line)
       (scrub_line @ newline @ rdr_anchor_line @ newline @ anchor_line @ newline)"

definition treats_rdr_anchor_and_filter_anchor_as_distinct_references :: test where
  "treats_rdr_anchor_and_filter_anchor_as_distinct_references =
     assert_eq (main_ruleset_with_anchor_references (rdr_anchor_line @ newline))
       (rdr_anchor_line @ newline @ anchor_line @ newline)"

lemma pf_anchor_tests:
  "passes preserves_existing_rules_and_appends_anchor_references" "passes does_not_duplicate_existing_anchor_references"
  "passes inserts_separator_after_file_without_trailing_newline"
  "passes treats_rdr_anchor_and_filter_anchor_as_distinct_references"
  by code_simp+

end
