(* ===== verification/Service_Tests.thy ===== *)
theory Service_Tests
  imports Unit_Test Systemd Launchd
begin

text \<open>
  The unit tests of \<^verbatim>\<open>src/src/service\<close>: the arguments (\<^verbatim>\<open>mod.rs\<close>), the systemd unit (\<^verbatim>\<open>linux.rs\<close>), and the property
  list and wrapper script (\<^verbatim>\<open>macos.rs\<close>).
\<close>

section \<open>Arguments\<close>

definition test_filter_service_args_removes_flags :: test where
  "test_filter_service_args_removes_flags =
     assert_eq (filter_service_args [''--upstream-proxy'', ''127.0.0.1:1082'', ''--install'', ''--dns''])
       [''--upstream-proxy'', ''127.0.0.1:1082'', ''--dns'']"

definition test_filter_service_args_removes_daemon_and_short_flag :: test where
  "test_filter_service_args_removes_daemon_and_short_flag =
     assert_eq (filter_service_args [''--upstream-proxy'', ''127.0.0.1:1082'', ''-d'', ''--uninstall''])
       [''--upstream-proxy'', ''127.0.0.1:1082'']"

definition test_filter_service_args_removes_value_flags_space_form :: test where
  "test_filter_service_args_removes_value_flags_space_form =
     assert_eq (filter_service_args [''--pid-file'', ''/var/run/test.pid'', ''--log-file'', ''/var/log/test.log'',
         ''--upstream-proxy'', ''127.0.0.1:1082''])
       [''--upstream-proxy'', ''127.0.0.1:1082'']"

definition test_filter_service_args_removes_value_flags_equals_form :: test where
  "test_filter_service_args_removes_value_flags_equals_form =
     assert_eq (filter_service_args [''--pid-file=/var/run/test.pid'', ''--log-file=/var/log/test.log'',
         ''--upstream-proxy'', ''127.0.0.1:1082''])
       [''--upstream-proxy'', ''127.0.0.1:1082'']"

definition test_filter_service_args_empty :: test where
  "test_filter_service_args_empty = assert_that (filter_service_args [] = [])"

definition test_filter_service_args_all_filtered :: test where
  "test_filter_service_args_all_filtered =
     assert_that (filter_service_args [''--install'', ''--daemon'', ''--pid-file'', ''/tmp/p''] = [])"

definition test_extract_arg :: test where
  "test_extract_arg =
     (let args = [''--interface'', ''wlan0'', ''--listen-addr'', ''0.0.0.0:9999''] in
      assert_all
        [assert_eq (extract_arg args ''--interface'') (Some ''wlan0''),
         assert_eq (extract_arg args ''--listen-addr'') (Some ''0.0.0.0:9999''),
         assert_eq (extract_arg args ''--dns'') None,
         assert_eq (extract_arg [''--interface=br0''] ''--interface'') (Some ''br0'')])"

definition test_has_flag :: test where
  "test_has_flag =
     (let args = [''--local-traffic'', ''--dns'', ''--upstream-proxy'', ''127.0.0.1:1082''] in
      assert_all
        [assert_that (has_flag args ''--local-traffic''), assert_that (has_flag args ''--dns''),
         assert_that (\<not> has_flag args ''--daemon'')])"

lemma argument_tests:
  "passes test_filter_service_args_removes_flags" "passes test_filter_service_args_removes_daemon_and_short_flag"
  "passes test_filter_service_args_removes_value_flags_space_form"
  "passes test_filter_service_args_removes_value_flags_equals_form" "passes test_filter_service_args_empty"
  "passes test_filter_service_args_all_filtered" "passes test_extract_arg" "passes test_has_flag"
  by code_simp+

section \<open>systemd\<close>

definition test_generate_unit_basic :: test where
  "test_generate_unit_basic =
     (let out = generate_unit [''--upstream-proxy'', ''127.0.0.1:1082'', ''--dns'', ''--interface'', ''eth0''] in
      assert_all
        [assert_that (has_window out ''[Unit]''),
         assert_that (has_window out ''[Service]''),
         assert_that (has_window out ''[Install]''),
         assert_that (has_window out ''Type=simple''),
         assert_that (has_window out ''Restart=always''),
         assert_that (has_window out ''StandardOutput=journal''),
         assert_that (has_window out ''WantedBy=multi-user.target''),
         assert_that (has_window out ''CAP_NET_ADMIN''),
         assert_that (has_window out ''ExecStart=/usr/local/bin/trans_proxy --upstream-proxy 127.0.0.1:1082 --dns --interface eth0''),
         assert_that (has_window out ''ExecStartPre=/usr/local/bin/trans_proxy --setup-firewall''),
         assert_that (has_window out ''--interface eth0''),
         assert_that (has_window out ''--upstream-proxy 127.0.0.1:1082''),
         assert_that (has_window out ''--dns''),
         assert_that (has_window out ''ExecStopPost=/usr/local/bin/trans_proxy --teardown-firewall''),
         assert_that (\<not> has_window out ''User='')])"

definition test_generate_unit_no_args :: test where
  "test_generate_unit_no_args =
     (let out = generate_unit [] in
      assert_all
        [assert_that (has_window out (''ExecStart=/usr/local/bin/trans_proxy'' @ newline)),
         assert_that (\<not> has_window out ''ExecStart=/usr/local/bin/trans_proxy ''),
         assert_that (has_window out ''ExecStartPre=/usr/local/bin/trans_proxy --setup-firewall''),
         assert_that (has_window out ''ExecStopPost=/usr/local/bin/trans_proxy --teardown-firewall'')])"

definition test_generate_unit_custom_interface_and_port :: test where
  "test_generate_unit_custom_interface_and_port =
     (let out = generate_unit [''--upstream-proxy'', ''127.0.0.1:1082'', ''--interface'', ''wlan0'', ''--listen-addr'', ''0.0.0.0:9999''] in
      assert_all
        [assert_that (has_window out ''--interface wlan0''),
         assert_that (has_window out ''--listen-addr 0.0.0.0:9999''),
         assert_that (has_window out ''ExecStopPost=/usr/local/bin/trans_proxy --teardown-firewall'')])"

definition test_generate_unit_filters_service_flags :: test where
  "test_generate_unit_filters_service_flags =
     (let out = generate_unit [''--upstream-proxy'', ''127.0.0.1:1082'', ''--install'', ''--daemon'', ''--pid-file'', ''/tmp/test.pid'', ''--log-file'', ''/tmp/test.log'', ''--dns''] in
      assert_all
        [assert_that (\<not> has_window out ''--install''),
         assert_that (\<not> has_window out ''--daemon''),
         assert_that (\<not> has_window out ''--pid-file''),
         assert_that (\<not> has_window out ''--log-file''),
         assert_that (\<not> has_window out ''/tmp/test.pid''),
         assert_that (\<not> has_window out ''/tmp/test.log''),
         assert_that (has_window out ''--upstream-proxy''),
         assert_that (has_window out ''127.0.0.1:1082''),
         assert_that (has_window out ''--dns'')])"

definition test_generate_unit_network_ordering :: test where
  "test_generate_unit_network_ordering =
     (let out = generate_unit [] in
      assert_all
        [assert_that (has_window out ''After=network-online.target''),
         assert_that (has_window out ''Wants=network-online.target'')])"

definition test_generate_unit_local_traffic :: test where
  "test_generate_unit_local_traffic =
     (let out = generate_unit [''--upstream-proxy'', ''127.0.0.1:1082'', ''--local-traffic'', ''--fwmark'', ''42'', ''--interface'', ''eth0''] in
      assert_all
        [assert_that (\<not> has_window out ''User=''),
         assert_that (has_window out ''--setup-firewall''),
         assert_that (has_window out ''--local-traffic''),
         assert_that (has_window out ''--fwmark 42''),
         assert_that (has_window out ''--upstream-proxy 127.0.0.1:1082'')])"

definition test_generate_unit_with_ports :: test where
  "test_generate_unit_with_ports =
     (let out = generate_unit [''--upstream-proxy'', ''127.0.0.1:1082'', ''--ports'', ''22,80,443'', ''--interface'', ''eth0''] in
      assert_all
        [assert_that (has_window out ''--ports 22,80,443'')])"

definition test_generate_unit_forwards_dns_listen_to_firewall_setup :: test where
  "test_generate_unit_forwards_dns_listen_to_firewall_setup =
     (let out = generate_unit [''--upstream-proxy'', ''127.0.0.1:1082'', ''--dns'', ''--dns-listen=127.0.0.1:5353''] in
      assert_all
        [assert_that (has_window out ''ExecStart=/usr/local/bin/trans_proxy --upstream-proxy 127.0.0.1:1082 --dns --dns-listen=127.0.0.1:5353''),
         assert_that (has_window out ''ExecStartPre=/usr/local/bin/trans_proxy --setup-firewall --upstream-proxy 127.0.0.1:1082 --dns-listen 127.0.0.1:5353 --dns'')])"

definition test_generate_unit_with_ports_and_local_traffic :: test where
  "test_generate_unit_with_ports_and_local_traffic =
     (let out = generate_unit [''--upstream-proxy'', ''127.0.0.1:1082'', ''--ports'', ''22,80,443'', ''--local-traffic'', ''--fwmark'', ''5''] in
      assert_all
        [assert_that (has_window out ''--ports 22,80,443''),
         assert_that (has_window out ''--local-traffic''),
         assert_that (has_window out ''--fwmark 5'')])"

definition test_generate_unit_quotes_arguments :: test where
  "test_generate_unit_quotes_arguments =
     (let out = generate_unit [''--upstream-proxy'', ''127.0.0.1:1082'', ''--interface'', ''eth 0''] in
      assert_all
        [assert_that (has_window out (''--interface '' @ [dq] @ ''eth 0'' @ [dq])),
         assert_that (\<not> has_window out ''--interface eth 0'')])"

definition test_systemd_quote_escapes_expansions :: test where
  "test_systemd_quote_escapes_expansions = assert_all
     [assert_eq (systemd_quote_arg ''eth%0'') ([dq] @ ''eth%%0'' @ [dq]),
      assert_eq (systemd_quote_arg ''$IFACE'') ([dq] @ ''$$IFACE'' @ [dq]),
      assert_eq (systemd_quote_arg (''eth'' @ [dq] @ ''0'')) ([dq] @ ''eth'' @ [bs, dq] @ ''0'' @ [dq]),
      assert_eq (systemd_quote_arg (''eth'' @ [bs] @ ''0'')) ([dq] @ ''eth'' @ [bs, bs] @ ''0'' @ [dq])]"

lemma unit_test_1:
  "passes test_generate_unit_basic"
  "passes test_generate_unit_no_args"
  "passes test_generate_unit_custom_interface_and_port"
  "passes test_generate_unit_filters_service_flags"
  by (simp_all only: test_generate_unit_basic_def test_generate_unit_no_args_def test_generate_unit_custom_interface_and_port_def test_generate_unit_filters_service_flags_def
      generate_unit_def generate_wrapper_def generate_plist_def Let_def has_window_join) code_simp+

lemma unit_test_2:
  "passes test_generate_unit_network_ordering"
  "passes test_generate_unit_local_traffic"
  "passes test_generate_unit_with_ports"
  "passes test_generate_unit_forwards_dns_listen_to_firewall_setup"
  by (simp_all only: test_generate_unit_network_ordering_def test_generate_unit_local_traffic_def test_generate_unit_with_ports_def test_generate_unit_forwards_dns_listen_to_firewall_setup_def
      generate_unit_def generate_wrapper_def generate_plist_def Let_def has_window_join) code_simp+

lemma unit_test_3:
  "passes test_generate_unit_with_ports_and_local_traffic"
  "passes test_generate_unit_quotes_arguments"
  "passes test_systemd_quote_escapes_expansions"
  by (simp_all only: test_generate_unit_with_ports_and_local_traffic_def test_generate_unit_quotes_arguments_def test_systemd_quote_escapes_expansions_def
      generate_unit_def generate_wrapper_def generate_plist_def Let_def has_window_join) code_simp+

lemmas unit_tests = unit_test_1 unit_test_2 unit_test_3

section \<open>launchd\<close>

definition test_generate_plist_basic :: test where
  "test_generate_plist_basic =
     (let out = generate_plist [''--upstream-proxy'', ''127.0.0.1:1082'', ''--dns''] in
      assert_all
        [assert_that (has_window out ''<key>Label</key>''),
         assert_that (has_window out PLIST_LABEL),
         assert_that (has_window out ''<key>ProgramArguments</key>''),
         assert_that (has_window out (''<string>'' @ WRAPPER_SCRIPT @ ''</string>'')),
         assert_that (has_window out ''<key>RunAtLoad</key>''),
         assert_that (has_window out ''<key>KeepAlive</key>''),
         assert_that (\<not> has_window out ''<key>UserName</key>'')])"

definition test_generate_plist_local_traffic_no_username :: test where
  "test_generate_plist_local_traffic_no_username =
     (let out = generate_plist [''--upstream-proxy'', ''127.0.0.1:1082'', ''--local-traffic''] in
      assert_all
        [assert_that (\<not> has_window out ''<key>UserName</key>''),
         assert_that (has_window out (''<string>'' @ WRAPPER_SCRIPT @ ''</string>''))])"

definition test_generate_plist_filters_service_flags :: test where
  "test_generate_plist_filters_service_flags =
     (let out = generate_plist [''--upstream-proxy'', ''127.0.0.1:1082'', ''--install'', ''--daemon''] in
      assert_all
        [assert_that (\<not> has_window out ''--install''),
         assert_that (\<not> has_window out ''--daemon'')])"

definition test_generate_wrapper_basic :: test where
  "test_generate_wrapper_basic =
     (let out = generate_wrapper [''--upstream-proxy'', ''127.0.0.1:1082'', ''--dns'', ''--interface'', ''en0''] in
      assert_all
        [assert_that (has_window out ''#!/bin/bash''),
         assert_that (has_window out ''trap cleanup EXIT''),
         assert_that (has_window out (''exec '' @ INSTALL_BIN @ '' --upstream-proxy 127.0.0.1:1082 --dns --interface en0'')),
         assert_that (has_window out (INSTALL_BIN @ '' --setup-firewall'')),
         assert_that (has_window out ''--interface en0''),
         assert_that (has_window out ''--upstream-proxy 127.0.0.1:1082''),
         assert_that (has_window out ''--dns''),
         assert_that (has_window out (INSTALL_BIN @ '' --teardown-firewall''))])"

definition test_generate_wrapper_custom_interface_and_port :: test where
  "test_generate_wrapper_custom_interface_and_port =
     (let out = generate_wrapper [''--upstream-proxy'', ''127.0.0.1:1082'', ''--interface'', ''en1'', ''--listen-addr'', ''0.0.0.0:9999''] in
      assert_all
        [assert_that (has_window out ''--interface en1''),
         assert_that (has_window out ''--listen-addr 0.0.0.0:9999'')])"

definition test_generate_wrapper_local_traffic :: test where
  "test_generate_wrapper_local_traffic =
     (let out = generate_wrapper [''--upstream-proxy'', ''127.0.0.1:1082'', ''--local-traffic'', ''--interface'', ''en0''] in
      assert_all
        [assert_that (has_window out ''--setup-firewall''),
         assert_that (has_window out ''--local-traffic''),
         assert_that (has_window out ''--upstream-proxy 127.0.0.1:1082'')])"

definition test_generate_wrapper_with_ports :: test where
  "test_generate_wrapper_with_ports =
     (let out = generate_wrapper [''--upstream-proxy'', ''127.0.0.1:1082'', ''--ports'', ''80,443'', ''--interface'', ''en0''] in
      assert_all
        [assert_that (has_window out ''--ports 80,443'')])"

definition test_generate_wrapper_forwards_dns_listen_to_firewall_setup :: test where
  "test_generate_wrapper_forwards_dns_listen_to_firewall_setup =
     (let out = generate_wrapper [''--upstream-proxy'', ''127.0.0.1:1082'', ''--dns'', ''--dns-listen'', ''127.0.0.1:5353''] in
      assert_all
        [assert_that (has_window out ''exec /usr/local/bin/trans_proxy --upstream-proxy 127.0.0.1:1082 --dns --dns-listen 127.0.0.1:5353''),
         assert_that (has_window out ''--setup-firewall --upstream-proxy 127.0.0.1:1082 --dns-listen 127.0.0.1:5353 --dns'')])"

definition test_generate_wrapper_with_ports_and_local_traffic :: test where
  "test_generate_wrapper_with_ports_and_local_traffic =
     (let out = generate_wrapper [''--upstream-proxy'', ''127.0.0.1:1082'', ''--ports'', ''80,443'', ''--local-traffic''] in
      assert_all
        [assert_that (has_window out ''--ports 80,443''),
         assert_that (has_window out ''--local-traffic'')])"

definition test_generate_wrapper_no_args :: test where
  "test_generate_wrapper_no_args =
     (let out = generate_wrapper [] in
      assert_all
        [assert_that (has_window out (''exec '' @ INSTALL_BIN @ newline)),
         assert_that (has_window out ''--setup-firewall'')])"

definition test_generate_wrapper_filters_service_flags :: test where
  "test_generate_wrapper_filters_service_flags =
     (let out = generate_wrapper [''--upstream-proxy'', ''127.0.0.1:1082'', ''--install'', ''--daemon'', ''--pid-file'', ''/tmp/test.pid''] in
      assert_all
        [assert_that (\<not> has_window out ''--install''),
         assert_that (\<not> has_window out ''--daemon''),
         assert_that (\<not> has_window out ''--pid-file''),
         assert_that (has_window out ''--upstream-proxy'')])"

definition test_generate_wrapper_shell_quotes_arguments :: test where
  "test_generate_wrapper_shell_quotes_arguments =
     (let out = generate_wrapper [''--upstream-proxy'', ''127.0.0.1:1082'', ''--interface'', ''en0; touch /tmp/pwn''] in
      assert_all
        [assert_that (has_window out (''--interface '' @ [sq] @ ''en0; touch /tmp/pwn'' @ [sq])),
         assert_that (\<not> has_window out ''--interface en0; touch /tmp/pwn'')])"

definition test_shell_quote_escapes_single_quote :: test where
  "test_shell_quote_escapes_single_quote =
     assert_eq (shell_quote (''en'' @ [sq] @ ''0'')) ([sq] @ ''en'' @ [sq, bs, sq, sq] @ ''0'' @ [sq])"

lemma launchd_test_1:
  "passes test_generate_plist_basic"
  "passes test_generate_plist_local_traffic_no_username"
  "passes test_generate_plist_filters_service_flags"
  "passes test_generate_wrapper_basic"
  by (simp_all only: test_generate_plist_basic_def test_generate_plist_local_traffic_no_username_def test_generate_plist_filters_service_flags_def test_generate_wrapper_basic_def
      generate_unit_def generate_wrapper_def generate_plist_def Let_def has_window_join) code_simp+

lemma launchd_test_2:
  "passes test_generate_wrapper_custom_interface_and_port"
  "passes test_generate_wrapper_local_traffic"
  "passes test_generate_wrapper_with_ports"
  "passes test_generate_wrapper_forwards_dns_listen_to_firewall_setup"
  by (simp_all only: test_generate_wrapper_custom_interface_and_port_def test_generate_wrapper_local_traffic_def test_generate_wrapper_with_ports_def test_generate_wrapper_forwards_dns_listen_to_firewall_setup_def
      generate_unit_def generate_wrapper_def generate_plist_def Let_def has_window_join) code_simp+

lemma launchd_test_3:
  "passes test_generate_wrapper_with_ports_and_local_traffic"
  "passes test_generate_wrapper_no_args"
  "passes test_generate_wrapper_filters_service_flags"
  "passes test_generate_wrapper_shell_quotes_arguments"
  by (simp_all only: test_generate_wrapper_with_ports_and_local_traffic_def test_generate_wrapper_no_args_def test_generate_wrapper_filters_service_flags_def test_generate_wrapper_shell_quotes_arguments_def
      generate_unit_def generate_wrapper_def generate_plist_def Let_def has_window_join) code_simp+

lemma launchd_test_4:
  "passes test_shell_quote_escapes_single_quote"
  by (simp_all only: test_shell_quote_escapes_single_quote_def
      generate_unit_def generate_wrapper_def generate_plist_def Let_def has_window_join) code_simp+

lemmas launchd_tests = launchd_test_1 launchd_test_2 launchd_test_3 launchd_test_4

end
