(* ===== verification/Host_Tests.thy ===== *)
theory Host_Tests
  imports Unit_Test Sni Orig_Dest Gateway Daemon Relay
begin

text \<open>
  The unit tests of \<^verbatim>\<open>src/src/sni.rs\<close>, \<^verbatim>\<open>orig_dest\<close>, \<^verbatim>\<open>gateway.rs\<close>, \<^verbatim>\<open>daemon.rs\<close> and \<^verbatim>\<open>proxy.rs\<close>.  What a socket, a pipe or the
  kernel gives in a test is an argument of the operation; the tests of memory alignment and of the
  interface index, which only ask the compiler and the kernel, are left out.
\<close>

section \<open>ClientHellos\<close>

definition test_parse_sni_no_tls :: test where
  "test_parse_sni_no_tls =
     (let crlf = [13, 10]; data = bytes_of ''GET / HTTP/1.1'' @ crlf @ bytes_of ''Host: example.com'' @ crlf @ crlf in
      assert_eq (parse_sni_from_client_hello data) (Some None))"

text \<open>The lengths are filled in at the end.\<close>

definition build_client_hello :: "bytes \<Rightarrow> bytes exec" where
  "build_client_hello hostname =
     (let hello = [TLS_RECORD_HANDSHAKE] @ [0x03, 0x01];
          record_len_pos = length hello;
          hello = hello @ [0x00, 0x00];
          record_start = length hello;
          hello = hello @ [TLS_HANDSHAKE_CLIENT_HELLO];
          hs_len_pos = length hello;
          hello = hello @ [0x00, 0x00, 0x00];
          hs_start = length hello;
          hello = hello @ [0x03, 0x03] @ replicate 32 0 @ [0x00] @ [0x00, 0x02] @ [0x00, 0x2F] @ [0x01] @ [0x00];
          name_entry_len = 1 + 2 + length hostname;
          sni_ext = be16 (of_nat name_entry_len) @ [SNI_HOST_NAME_TYPE] @ be16 (of_nat (length hostname)) @ hostname;
          ext_total = 2 + 2 + length sni_ext;
          hello = hello @ be16 (of_nat ext_total) @ be16 TLS_EXT_SERVER_NAME @ be16 (of_nat (length sni_ext)) @ sni_ext;
          hs_len = length hello - hs_start;
          record_len = length hello - record_start in do {
        hello \<leftarrow> overwrite hello hs_len_pos
          [of_nat (hs_len div 65536 mod 256), of_nat (hs_len div 256 mod 256), of_nat (hs_len mod 256)];
        overwrite hello record_len_pos [of_nat (record_len div 256 mod 256), of_nat (record_len mod 256)] })"

definition test_parse_sni_real_client_hello :: test where
  "test_parse_sni_real_client_hello = do {
     hello \<leftarrow> build_client_hello (bytes_of ''example.com'');
     assert_eq (parse_sni_from_client_hello hello) (Some (Some ''example.com'')) }"

text \<open>A peek sees what has arrived; in the split test 60 and 120 milliseconds pass before the second and third part.\<close>

definition test_extract_sni_complete_hello :: test where
  "test_extract_sni_complete_hello = do {
     hello \<leftarrow> build_client_hello (bytes_of ''example.com'');
     (_, result) \<leftarrow> extract_sni (\<lambda>_. Some hello);
     result \<leftarrow> unwrap result;
     assert_eq result (Some ''example.com'') }"

definition PEEK_RETRY_MILLIS :: nat where "PEEK_RETRY_MILLIS = 50"

definition test_extract_sni_split_across_writes :: test where
  "test_extract_sni_split_across_writes = do {
     hello \<leftarrow> build_client_hello (bytes_of ''example.com'');
     let rest = drop 10 hello;
         arrived = (\<lambda>millis. if millis < 60 then take 10 hello
                             else if millis < 120 then take 10 hello @ take (length rest div 2) rest else hello) in do {
     (_, result) \<leftarrow> extract_sni (\<lambda>n. Some (arrived (n * PEEK_RETRY_MILLIS)));
     result \<leftarrow> unwrap result;
     assert_eq result (Some ''example.com'') } }"

definition test_extract_sni_non_tls_returns_immediately :: test where
  "test_extract_sni_non_tls_returns_immediately = do {
     (peeks, result) \<leftarrow> extract_sni (\<lambda>_. Some (bytes_of ''GET / HT''));
     result \<leftarrow> unwrap result;
     assert_eq result None;
     assert_eq peeks 1 }"

definition test_extract_sni_eof_returns_none :: test where
  "test_extract_sni_eof_returns_none = do {
     (_, result) \<leftarrow> extract_sni (\<lambda>_. Some []);
     result \<leftarrow> unwrap result;
     assert_eq result None }"

lemma sni_parse_tests: "passes test_parse_sni_no_tls" "passes test_parse_sni_real_client_hello"
  by code_simp+

lemma sni_peek_tests:
  "passes test_extract_sni_complete_hello" "passes test_extract_sni_non_tls_returns_immediately"
  "passes test_extract_sni_eof_returns_none"
  by code_simp+

lemma sni_split_test: "passes test_extract_sni_split_across_writes"
  by code_simp

section \<open>Original destinations\<close>

text \<open>For a connection that was not redirected the kernel has no answer, or the address it was made to.\<close>

definition test_get_original_dest_non_redirected_socket :: test where
  "test_get_original_dest_non_redirected_socket =
     (let listen = SockV4 (Ipv4 127 0 0 1) 40000;
          same = \<lparr>sin_port = port_to_be 40000, sin_addr = ipv4_to_mem (Ipv4 127 0 0 1)\<rparr> in
      assert_all
        [assert_that (is_err (get_original_dest_linux None None listen listen)),
         assert_that (is_err (get_original_dest_linux (Some same) None listen listen))])"

definition test_get_original_dest_v4_non_redirected :: test where
  "test_get_original_dest_v4_non_redirected =
     (let same = \<lparr>sin_port = port_to_be 40000, sin_addr = ipv4_to_mem (Ipv4 127 0 0 1)\<rparr> in
      case get_original_dest_v4 (Some same) of
        Inr (SockV4 ip _) \<Rightarrow> assert_eq ip (Ipv4 127 0 0 1)
      | _ \<Rightarrow> Some ())"

definition test_get_original_dest_v6_non_redirected :: test where
  "test_get_original_dest_v6_non_redirected =
     (let same = \<lparr>sin6_port = port_to_be 40000, sin6_flowinfo = 0, sin6_addr = octets6 ipv6_localhost, sin6_scope_id = 0\<rparr> in
      case get_original_dest_v6 (Some same) of
        Inr (SockV6 ip _ _ _) \<Rightarrow> assert_eq ip ipv6_localhost
      | _ \<Rightarrow> Some ())"

definition struct_sizes_match_kernel :: test where
  "struct_sizes_match_kernel = assert_all
     [assert_eq (length (nl_saddr natlook_default)) 16, assert_eq (length (nl_sxport natlook_default)) 4,
      assert_eq (length (natlook_bytes natlook_default)) 84]"

text \<open>\<open>offset_of!\<close>: the first byte that is not zero when the field is filled with ones.\<close>

definition offset_of :: "natlook \<Rightarrow> nat" where
  "offset_of nl = length (takeWhile (\<lambda>b. b = 0) (natlook_bytes nl))"

definition field_offsets_match_kernel :: test where
  "field_offsets_match_kernel =
     (let nl = natlook_default; addr = replicate 16 1; xp = replicate 4 1 in
      assert_all
        [assert_eq (offset_of (nl\<lparr>nl_saddr := addr\<rparr>)) 0, assert_eq (offset_of (nl\<lparr>nl_daddr := addr\<rparr>)) 16,
         assert_eq (offset_of (nl\<lparr>nl_rsaddr := addr\<rparr>)) 32, assert_eq (offset_of (nl\<lparr>nl_rdaddr := addr\<rparr>)) 48,
         assert_eq (offset_of (nl\<lparr>nl_sxport := xp\<rparr>)) 64, assert_eq (offset_of (nl\<lparr>nl_dxport := xp\<rparr>)) 68,
         assert_eq (offset_of (nl\<lparr>nl_rsxport := xp\<rparr>)) 72, assert_eq (offset_of (nl\<lparr>nl_rdxport := xp\<rparr>)) 76,
         assert_eq (offset_of (nl\<lparr>nl_af := 1\<rparr>)) 80, assert_eq (offset_of (nl\<lparr>nl_proto := 1\<rparr>)) 81,
         assert_eq (offset_of (nl\<lparr>nl_proto_variant := 1\<rparr>)) 82, assert_eq (offset_of (nl\<lparr>nl_direction := 1\<rparr>)) 83])"

definition ioctl_number_matches_expected :: test where
  "ioctl_number_matches_expected = assert_eq (diocnatlook_ioctl (length (natlook_bytes natlook_default))) 0xC0544417"

definition ioctl_number_not_old_wrong_value :: test where
  "ioctl_number_not_old_wrong_value =
     (let wrong_ioctl = diocnatlook_ioctl 76 in
      assert_all
        [assert_eq wrong_ioctl 0xC04C4417,
         assert_that (diocnatlook_ioctl (length (natlook_bytes natlook_default)) \<noteq> wrong_ioctl)])"

definition port_union_round_trip :: test where
  "port_union_round_trip = assert_eq (port_from_be (port_to_be 443)) 443"

definition zero_initialized_default :: test where
  "zero_initialized_default = assert_that (list_all (\<lambda>b. b = 0) (natlook_bytes natlook_default))"

lemma orig_dest_tests:
  "passes test_get_original_dest_non_redirected_socket" "passes test_get_original_dest_v4_non_redirected"
  "passes test_get_original_dest_v6_non_redirected" "passes struct_sizes_match_kernel" "passes field_offsets_match_kernel"
  "passes port_union_round_trip" "passes zero_initialized_default"
  by code_simp+

lemma ioctl_tests: "passes ioctl_number_matches_expected" "passes ioctl_number_not_old_wrong_value"
  by code_simp+

section \<open>Gateway\<close>

definition test_parse_mac :: test where
  "test_parse_mac = do {
     mac \<leftarrow> unwrap_ok (parse_mac ''aa:bb:cc:dd:ee:ff'');
     assert_eq mac [0xaa, 0xbb, 0xcc, 0xdd, 0xee, 0xff] }"

definition test_parse_mac_invalid :: test where
  "test_parse_mac_invalid = assert_all
     [assert_that (is_err (parse_mac ''not-a-mac'')), assert_that (is_err (parse_mac ''aa:bb:cc:dd:ee'')),
      assert_that (is_err (parse_mac ''aa:bb:cc:dd:ee:zz''))]"

definition test_build_gratuitous_arp :: test where
  "test_build_gratuitous_arp =
     (let mac = [0x00, 0x11, 0x22, 0x33, 0x44, 0x55]; pkt = build_gratuitous_arp mac (Ipv4 192 168 0 1) in
      assert_all
        [assert_eq (length pkt) 42, assert_eq (slice pkt 0 6) (Some (replicate 6 0xff)), assert_eq (slice pkt 6 12) (Some mac),
         assert_eq (slice pkt 12 14) (Some [0x08, 0x06]), assert_eq (slice pkt 20 22) (Some [0x00, 0x02]),
         assert_eq (slice pkt 22 28) (Some mac), assert_eq (slice pkt 28 32) (Some [192, 168, 0, 1])])"

definition test_build_router_advertisement :: test where
  "test_build_router_advertisement =
     (let mac = [0x00, 0x11, 0x22, 0x33, 0x44, 0x55]; pkt = build_router_advertisement mac (Ipv6 0x2001 0xdb8 0 1 0 0 0 1) in do {
        flags \<leftarrow> idx pkt 5;
        assert_all
          [assert_eq (idx pkt 0) (Some 134), assert_eq (idx pkt 1) (Some 0), assert_eq (idx pkt 4) (Some 64),
           assert_eq (flags AND 0x18) 0x08, assert_eq (idx pkt 16) (Some 1), assert_eq (slice pkt 18 24) (Some mac),
           assert_eq (idx pkt 24) (Some 3), assert_eq (idx pkt 26) (Some 64),
           assert_eq (slice pkt 40 48) (Some [0x20, 0x01, 0x0d, 0xb8, 0x00, 0x00, 0x00, 0x01]),
           assert_eq (slice pkt 48 56) (Some (replicate 8 0))] })"

text \<open>The columns of \<^verbatim>\<open>/proc/net/route\<close>, separated by tabs.\<close>

definition route_line :: "string list \<Rightarrow> string" where
  "route_line columns = join [char_of (9 :: nat)] columns @ newline"

definition route_header :: string where
  "route_header = route_line [''Iface'', ''Destination'', ''Gateway'', ''Flags'', ''RefCnt'', ''Use'', ''Metric'', ''Mask'', ''MTU'', ''Window'', ''IRTT'']"

definition test_parse_linux_default_gateway_ipv4 :: test where
  "test_parse_linux_default_gateway_ipv4 =
     (let route_table = route_header @
            route_line [''eth0'', ''00000000'', ''0101A8C0'', ''0003'', ''0'', ''0'', ''100'', ''00000000'', ''0'', ''0'', ''0''] @
            route_line [''wlan0'', ''00000000'', ''FE01A8C0'', ''0003'', ''0'', ''0'', ''200'', ''00000000'', ''0'', ''0'', ''0''] in do {
        eth0 \<leftarrow> unwrap_ok (parse_linux_default_gateway_ipv4 ''eth0'' route_table);
        assert_eq eth0 (Ipv4 192 168 1 1);
        wlan0 \<leftarrow> unwrap_ok (parse_linux_default_gateway_ipv4 ''wlan0'' route_table);
        assert_eq wlan0 (Ipv4 192 168 1 254) })"

definition test_parse_linux_default_gateway_ipv4_ignores_non_default_route :: test where
  "test_parse_linux_default_gateway_ipv4_ignores_non_default_route =
     (let route_table = route_header @
            route_line [''eth0'', ''0001A8C0'', ''00000000'', ''0001'', ''0'', ''0'', ''100'', ''00FFFFFF'', ''0'', ''0'', ''0''] in
      assert_that (is_err (parse_linux_default_gateway_ipv4 ''eth0'' route_table)))"

definition test_select_router_advertisement_addrs_requires_prefix :: test where
  "test_select_router_advertisement_addrs_requires_prefix =
     (let link_local = Ipv6 0xfe80 0 0 0 1 2 3 4 in
      assert_that (is_err (select_router_advertisement_addrs (Some link_local) None)))"

definition test_select_router_advertisement_addrs_uses_non_link_local_prefix :: test where
  "test_select_router_advertisement_addrs_uses_non_link_local_prefix =
     (let link_local = Ipv6 0xfe80 0 0 0 1 2 3 4; pre = Ipv6 0xfd00 0 0 1 0 0 0 1 in do {
        r \<leftarrow> unwrap_ok (select_router_advertisement_addrs (Some link_local) (Some pre));
        assert_eq r (link_local, pre) })"

lemma gateway_packet_tests:
  "passes test_parse_mac" "passes test_parse_mac_invalid" "passes test_build_gratuitous_arp"
  "passes test_build_router_advertisement" "passes test_select_router_advertisement_addrs_requires_prefix"
  "passes test_select_router_advertisement_addrs_uses_non_link_local_prefix"
  by code_simp+

lemma gateway_route_tests:
  "passes test_parse_linux_default_gateway_ipv4" "passes test_parse_linux_default_gateway_ipv4_ignores_non_default_route"
  by code_simp+

section \<open>Daemon\<close>

text \<open>A pipe into which the daemon has signalled, read by the waiting parent.\<close>

definition pipe_with_status :: "u8 \<Rightarrow> daemon_state exec" where
  "pipe_with_status status = do {
     s \<leftarrow> unwrap_ok (daemonize_begin True True);
     Some (daemon_signals True status (s\<lparr>dm_parent := ParentReading\<rparr>)) }"

definition wait_for_daemon_status :: "daemon_state \<Rightarrow> (daemon_error + unit) exec" where
  "wait_for_daemon_status s = do {
     s \<leftarrow> parent_reads ReadByte s;
     (case dm_parent s of ParentReaping r \<Rightarrow> Some r | _ \<Rightarrow> None) }"

definition test_wait_for_daemon_status_ready :: test where
  "test_wait_for_daemon_status_ready = do {
     s \<leftarrow> pipe_with_status DAEMON_READY;
     r \<leftarrow> wait_for_daemon_status s;
     assert_that (\<not> is_err r) }"

definition test_wait_for_daemon_status_failure :: test where
  "test_wait_for_daemon_status_failure = do {
     s \<leftarrow> pipe_with_status DAEMON_FAILED;
     r \<leftarrow> wait_for_daemon_status s;
     assert_eq r (Inl ChildFailed) }"

lemma daemon_tests: "passes test_wait_for_daemon_status_ready" "passes test_wait_for_daemon_status_failure"
  by code_simp+

section \<open>Relay\<close>

text \<open>
  The client closes at once; the server goes on sending a kilobyte every ten milliseconds, and the timer
  branch runs when the deadline has passed.
\<close>

fun upstream_writes :: "bytes \<Rightarrow> nat \<Rightarrow> nat \<Rightarrow> (nat \<times> relay_event) list" where
  "upstream_writes chunk 0 now = [(now, GraceFires)]"
| "upstream_writes chunk (Suc n) now =
     (now, ServerRead (Inr chunk)) # (now, Written) # upstream_writes chunk n (now + 10)"

definition test_relay_grace_period_is_absolute_after_half_close :: test where
  "test_relay_grace_period_is_absolute_after_half_close =
     (let chunk = replicate 1024 0x78; events = (0, ClientRead (Inr [])) # upstream_writes chunk 5 0 in do {
        s \<leftarrow> relay_run 1024 50 events relay_init;
        (case rl_phase s of
           Returned (Inr (client_bytes, _)) \<Rightarrow>
             assert_all [assert_eq client_bytes 0, assert_that (list_all (\<lambda>(now, _). now < 250) events)]
         | _ \<Rightarrow> None) })"

text \<open>However long the server goes on, the deadline that the end of the client has set stays.\<close>

lemma upstream_writes_end:
  assumes "chunk \<noteq> []" "length chunk \<le> buf_size" "rl_phase s = Select" "rl_client_eof s" "\<not> rl_server_eof s"
    "rl_timer s = Some deadline" "deadline \<le> now + 10 * n"
  shows "\<exists>t. relay_run buf_size grace (upstream_writes chunk n now) s = Some t \<and>
    (\<exists>m. rl_phase t = Returned (Inr (rl_client_bytes s, m)))"
  using assms
proof (induction n arbitrary: s now)
  case 0
  then show ?case by (simp add: grace_fires_def loop_head_def Let_def)
next
  case (Suc n)
  let ?t = "loop_head (s\<lparr>rl_read_server := rl_read_server s @ chunk, rl_phase := WriteDown chunk,
    rl_down := rl_down s @ chunk, rl_server_bytes := rl_server_bytes s + of_nat (length chunk)\<rparr>)"
  have "\<exists>t. relay_run buf_size grace (upstream_writes chunk n (now + 10)) ?t = Some t \<and>
      (\<exists>m. rl_phase t = Returned (Inr (rl_client_bytes ?t, m)))"
    using Suc.prems by (intro Suc.IH) (simp_all add: loop_head_def)
  moreover have "relay_run buf_size grace (upstream_writes chunk (Suc n) now) s =
      relay_run buf_size grace (upstream_writes chunk n (now + 10)) ?t"
    using Suc.prems by (simp add: server_read_def)
  moreover have "rl_client_bytes ?t = rl_client_bytes s" by (simp add: loop_head_def)
  ultimately show ?case by simp
qed

lemma upstream_writes_times: "list_all (\<lambda>(t, _). t < now + 10 * n + 1) (upstream_writes chunk n now)"
proof (induction n arbitrary: now)
  case (Suc n)
  then show ?case using Suc [of "now + 10"] by (simp add: algebra_simps)
qed simp

lemma relay_tests: "passes test_relay_grace_period_is_absolute_after_half_close"
proof -
  define chunk :: bytes where "chunk = replicate 1024 0x78"
  have chunk: "chunk \<noteq> []" "length chunk \<le> 1024" unfolding chunk_def length_replicate replicate_empty by simp_all
  let ?s = "client_read 0 50 (Inr []) relay_init"
  have s: "relay_step 1024 50 0 (ClientRead (Inr [])) relay_init = Some ?s" "rl_phase ?s = Select" "rl_client_eof ?s"
      "\<not> rl_server_eof ?s" "rl_timer ?s = Some 50" "rl_client_bytes ?s = 0"
    by (simp_all add: relay_init_def client_read_def loop_head_def start_timer_def)
  obtain t m where t: "relay_run 1024 50 (upstream_writes chunk 5 0) ?s = Some t" "rl_phase t = Returned (Inr (0, m))"
    using upstream_writes_end [OF chunk s(2-5), of 0 5 50] s(6) by auto
  have "list_all (\<lambda>(now, _). now < 250) (upstream_writes chunk 5 0)"
    using upstream_writes_times [of 0 5 chunk] by (auto simp: list_all_iff)
  with s(1) t show ?thesis
    unfolding passes_def test_relay_grace_period_is_absolute_after_half_close_def Let_def chunk_def [symmetric]
    by (simp add: assert_that_def assert_eq_def)
qed

end
