(* ===== verification/Unit_Tests.thy ===== *)
theory Unit_Tests
  imports Dns_Tests Tunnel_Tests Firewall_Tests Service_Tests Host_Tests
begin

text \<open>
  The definitions of this development pass the unit tests of the source: 169 of its tests, translated one by one
  in the theories imported here and evaluated in the logic.  Left out are the seven tests of the command
  line (\<^verbatim>\<open>config.rs\<close>) and of its constants, and those that only ask the compiler or the kernel (struct alignment,
  the interface index, opening the NAT handle).
\<close>



end
