(* ===== verification/Spec2Isabelle.thy ===== *)
theory Spec2Isabelle
  imports Dns_Cache Dns_Udp Dns_Tcp Dns_Doh Sni_Hello Relay Udp_Relay Gateway_Props Dial Program Http_Server Udp_Echo Pf_Semantics Nft_Types Unit_Tests
begin

text \<open>
  \<^bold>\<open>Verification of trans_proxy\<close>

  The program (\<^verbatim>\<open>src/src\<close>, Rust) is a transparent proxy for a gateway: the firewall redirects the TCP
  connections of a LAN to it, it recovers where each one wanted to go, and tunnels it through an upstream
  HTTP CONNECT or SOCKS5 proxy.  Beside that it forwards DNS (and learns host names from the answers), relays
  QUIC over SOCKS5 UDP, advertises itself as the gateway, sets the firewall up, and installs itself as a
  service.  This development translates that code into executable definitions and proves what makes each part
  correct.

  \<^bold>\<open>How the parts interact\<close>

  \<^verbatim>\<open>main.rs\<close> selects one command from the options, or starts the server: the DNS forwarder, the gateway
  advertisement and the UDP relay as tasks, and the accept loop.  A connection is handled by \<^verbatim>\<open>proxy.rs\<close>, which
  asks \<^verbatim>\<open>orig_dest\<close> for the destination, \<^verbatim>\<open>sni.rs\<close> or the table of \<^verbatim>\<open>dns.rs\<close> for a host name, \<^verbatim>\<open>tunnel.rs\<close> for the
  tunnel, and then copies bytes.  The firewall rules of \<^verbatim>\<open>firewall\<close> and the socket options of \<^verbatim>\<open>tunnel.rs\<close> together
  decide which traffic comes to the proxy.  The DNS forwarder writes the table that connections and UDP
  sessions read.

  \<^bold>\<open>Theories\<close>

  Shared: \<^verbatim>\<open>Prelude\<close> (words, panics as values, bounds-checked buffers), \<^verbatim>\<open>Rust_Str\<close> and \<^verbatim>\<open>Rust_Text\<close> (strings as
  their UTF-8 bytes, and the operations of the standard library on them), \<^verbatim>\<open>Net_Addr\<close> and \<^verbatim>\<open>Addr_Parse\<close> (addresses
  and their parsers), \<^verbatim>\<open>Net_Stream\<close> (byte streams that arrive in chunks), \<^verbatim>\<open>Hash_Map\<close> (the hash map with its
  iteration order as an input), \<^verbatim>\<open>Expiring_Store\<close> (the contract of the two bounded tables) and \<^verbatim>\<open>Machine\<close> (event
  machines, their invariants and bounded runs, and sequences of system calls).

  \<^item> \<^verbatim>\<open>dns.rs\<close>: \<^verbatim>\<open>Dns_Wire\<close> has the packet parsers, the TTL rewriter and the response builder, with every index checked;
    \<^verbatim>\<open>Dns_Message\<close> has messages as structured values with their encoding, and what each routine computes on an
    encoded message.  \<^verbatim>\<open>Dns_Table\<close>, \<^verbatim>\<open>Dns_Cache\<close> and \<^verbatim>\<open>Dns_Pending\<close> are the three stores (\<open>DnsTable\<close>, \<open>DnsCache\<close>,
    \<open>PendingQuery\<close>).  \<^verbatim>\<open>Dns_Udp\<close> is \<open>run_udp\<close>, \<^verbatim>\<open>Dns_Doh\<close> is \<open>run_doh\<close> with \<open>QueryCoalescer\<close>, \<^verbatim>\<open>Dns_Tcp\<close> is the TCP listener,
    and \<^verbatim>\<open>Dns_Run\<close> is \<open>dns::run\<close>, which starts the two of them.
  \<^item> \<^verbatim>\<open>sni.rs\<close>: \<^verbatim>\<open>Sni\<close> (the parser and the peek loop) and \<^verbatim>\<open>Sni_Hello\<close> (ClientHellos with their encoding).
  \<^item> \<^verbatim>\<open>config.rs\<close>: \<^verbatim>\<open>Config\<close>.  The flag parser is the clap library; of its declarations only the required option
    is used (\<open>clap_accepts\<close>).
  \<^item> \<^verbatim>\<open>tunnel.rs\<close>: \<^verbatim>\<open>Tunnel\<close> (requests, handshakes, the two entry points), \<^verbatim>\<open>Tunnel_Props\<close>, and \<^verbatim>\<open>Dial\<close> (the socket that
    the handshake runs on).
  \<^item> \<^verbatim>\<open>orig_dest\<close>: \<^verbatim>\<open>Orig_Dest\<close>, with the kernel structures and the answers of \<open>getsockopt\<close> and \<open>ioctl\<close> as inputs.
  \<^item> \<^verbatim>\<open>proxy.rs\<close>: \<^verbatim>\<open>Proxy\<close> (\<open>handle_connection\<close>), \<^verbatim>\<open>Relay\<close> (\<open>relay_with_shutdown\<close>), and the accept loop in \<^verbatim>\<open>Program\<close>.
  \<^item> \<^verbatim>\<open>udp.rs\<close>: \<^verbatim>\<open>Udp_Relay\<close>.
  \<^item> \<^verbatim>\<open>firewall\<close>: \<^verbatim>\<open>Firewall\<close> (\<open>FirewallConfig\<close>), \<^verbatim>\<open>Nftables\<close> (the commands of \<open>setup\<close> and \<open>teardown\<close>),
    \<^verbatim>\<open>Nft_Semantics\<close> (what the rules mean), \<^verbatim>\<open>Nft_Types\<close> (which commands nft accepts), \<^verbatim>\<open>Nft_Props\<close>; for macOS
    \<^verbatim>\<open>Pf\<close> and \<^verbatim>\<open>Pf_Semantics\<close> (what the text of the anchor means).
  \<^item> \<^verbatim>\<open>service\<close>: \<^verbatim>\<open>Service\<close> (arguments, effects on the host), \<^verbatim>\<open>Systemd\<close>, \<^verbatim>\<open>Launchd\<close> (with the readers of the command
    lines they write), \<^verbatim>\<open>Service_Props\<close>.
  \<^item> \<^verbatim>\<open>gateway.rs\<close>: \<^verbatim>\<open>Gateway\<close> and \<^verbatim>\<open>Gateway_Props\<close>.  \<^verbatim>\<open>daemon.rs\<close>: \<^verbatim>\<open>Daemon\<close>.  \<^verbatim>\<open>main.rs\<close>: \<^verbatim>\<open>Program\<close>.
  \<^item> \<^verbatim>\<open>test_servers\<close>, the upstream proxies that the end-to-end tests run against: \<^verbatim>\<open>Socks_Server\<close> (\<^verbatim>\<open>socks5.rs\<close>) and
    \<^verbatim>\<open>Http_Server\<close> (\<^verbatim>\<open>http_connect.rs\<close>, \<^verbatim>\<open>http_dest.rs\<close>, \<^verbatim>\<open>fwmark.rs\<close>), and \<^verbatim>\<open>Udp_Echo\<close> (\<^verbatim>\<open>udp_echo.rs\<close>
    with the relay and the SOCKS5 server as one machine).
  \<^item> The unit tests of the source: \<^verbatim>\<open>Unit_Test\<close> (assertions and failure), \<^verbatim>\<open>Dns_Tests\<close>, \<^verbatim>\<open>Tunnel_Tests\<close> (and
    \<^verbatim>\<open>config.rs\<close>), \<^verbatim>\<open>Firewall_Tests\<close>, \<^verbatim>\<open>Service_Tests\<close>, \<^verbatim>\<open>Host_Tests\<close> (the other modules), together in \<^verbatim>\<open>Unit_Tests\<close>.

  \<^bold>\<open>Conventions\<close>

  A Rust expression that can panic has the type \<open>'a exec\<close>, with \<open>None\<close> for the panic; \<open>Result\<close> is a sum with the
  error on the left, without the texts of messages.  Machine integers are words, \<open>usize\<close> is \<open>nat\<close> where the code
  cannot wrap.  The clock, random numbers, the order of a hash map, what arrives on a socket and the outcome
  of system calls and commands are arguments of the operation that meets them.  Asynchronous code is a machine:
  an event is what happens between two points at which a task can be suspended, and a run is any
  interleaving of events that can happen.

  \<^bold>\<open>Interfaces\<close>

  \<open>expiring_store\<close> is what the forwarder relies on of a bounded table, interpreted for the table and for the cache;
  \<open>quoting\<close> is what a service definition relies on of a quoting function and its reader, interpreted for systemd
  and for the shell; \<open>machine_invariant\<close> is the contract of an invariant of a machine, interpreted for the server,
  for the start of the DNS forwarder and for the relay with its test servers, and its extension \<open>machine_bounded\<close>, with a measure, for daemonization.

  \<^bold>\<open>What the lemmas show\<close>

  The wire lemmas prove the parsers equal to the specification on encoded messages and total on all bytes.
  The stores have invariants (caps, deadlines, at most one pending query for an ID).  The forwarders have
  invariants that tie every reply to a query of that client and an upstream answer to the same question.
  The handshakes consume exactly the reply of the server, in any segmentation.  The relays deliver
  what they read, in order, to the right side.  The firewall lemmas show that the rules a setup leaves
  decide every packet like a short reference decision (on both systems), that every command a setup runs is
  well typed in the tables that the commands before it made, that QUIC is kept from bypassing the proxy
  whatever fails, and that the proxy does not intercept itself.  The handshakes of the client run against the
  test servers reach the destination asked for, and both ends agree on the first byte of the tunnel;
  a datagram that went through the relay, that server and an echo server comes back to its client.  The machine of the server shows that its tasks,
  its PID file and its exit status are what the options and the events make them.
  The unit tests of the source, translated one by one (169 of 180), hold of the definitions.

  \<^bold>\<open>Bounds\<close>

  No fuel is used: loops over buffers are \<open>function\<close>s with termination proofs by what is left of the buffer,
  and the machines take the events of a run as a list.  Of the program's own bounds the theorems use the caps of
  the stores, the 8192 bytes of a CONNECT response, the 20 peeks and 4096 bytes of a ClientHello, the grace period
  of the relay and the 256 BPF devices.

  \<^bold>\<open>Not modelled\<close>

  The texts of errors and log lines; the end-to-end tests (\<^verbatim>\<open>e2e\<close>), which drive virtual machines and containers
  with shell commands, and of the test servers \<^verbatim>\<open>main.rs\<close> and the accept loops, which have no logic
  beyond their system calls; the internals of tokio, reqwest and clap, which are libraries (a DoH request is a
  function from URL and query to a result, a time-out one more way for a read to end); the unsafe memory accesses
  as such, of which the values read and written are modelled; the routing of pf (\<open>route-to\<close> changes where a
  packet goes next, not whether it is redirected or dropped); and the packaging.
\<close>

end
